(* ===== verification/Prelude.thy ===== *)
theory Prelude
  imports Main "HOL-Library.Word"
begin

text \<open>
  Shared vocabulary of the development: bytes and byte strings (a Go \<open>string\<close> and a Go
  \<open>[]byte\<close> are both the list of their bytes), the outcome of a Go call (a value, an error
  value, or a panic that ends the process), big-endian integers, and decimal numerals as
  \<open>strconv\<close> and \<open>fmt\<close> print and read them.
\<close>

named_theorems outcome_simps \<open>how sequencing acts on each kind of outcome\<close>
named_theorems wire_simps \<open>reading back what was written, for one item of a packet\<close>

section \<open>Bytes\<close>

type_synonym byte = char

type_synonym bytes = "char list"

abbreviation code :: "byte \<Rightarrow> int" where
  "code \<equiv> of_char"

abbreviation byte_of :: "int \<Rightarrow> byte" where
  "byte_of \<equiv> char_of"

text \<open>The zero byte that ends every string of the wire protocol.\<close>

definition NUL :: byte where
  "NUL = CHR 0x00"

lemma code_byte_of [simp]: "code (byte_of x) = x mod 256"
  by (simp add: take_bit_eq_mod)

lemma byte_of_eq_iff: "byte_of x = byte_of y \<longleftrightarrow> x mod 256 = y mod 256"
  by (simp add: char_of_eq_iff take_bit_eq_mod eq_commute)

lemma code_mod [simp]: "code c mod 256 = code c"
proof -
  have "code (byte_of (code c)) = code c mod 256" by (rule code_byte_of)
  then show ?thesis by simp
qed

lemma code_bounds [simp]: "0 \<le> code c" "code c < 256"
proof -
  show "0 \<le> code c" "code c < 256"
    using pos_mod_sign [of 256 "code c"] pos_mod_bound [of 256 "code c"]
    by (simp_all only: code_mod)
qed

section \<open>Outcomes of Go calls\<close>

text \<open>
  A call returns a value (\<open>Ret\<close>), returns a non-nil \<open>error\<close> (\<open>Err\<close>), or panics.
  Nothing in the program recovers from a panic, so \<open>Panic\<close> ends the process.
\<close>

datatype ('e, 'a) outcome = Ret 'a | Err 'e | Panic

fun and_then :: "('e, 'a) outcome \<Rightarrow> ('a \<Rightarrow> ('e, 'b) outcome) \<Rightarrow> ('e, 'b) outcome" where
  "and_then (Ret x) k = k x"
| "and_then (Err e) k = Err e"
| "and_then Panic k = Panic"

lemma and_then_Ret_iff [outcome_simps]:
  "and_then m k = Ret y \<longleftrightarrow> (\<exists>x. m = Ret x \<and> k x = Ret y)"
  by (cases m) auto

lemma and_then_Panic_iff [outcome_simps]:
  "and_then m k = Panic \<longleftrightarrow> m = Panic \<or> (\<exists>x. m = Ret x \<and> k x = Panic)"
  by (cases m) auto

lemma and_then_Err_iff [outcome_simps]:
  "and_then m k = Err e \<longleftrightarrow> m = Err e \<or> (\<exists>x. m = Ret x \<and> k x = Err e)"
  by (cases m) auto

text \<open>The same for the readers, which return a pair of a value and the rest of the stream.\<close>

lemma and_then_pair_Ret: "and_then m (case_prod k) = Ret y \<longleftrightarrow> (\<exists>x r. m = Ret (x, r) \<and> k x r = Ret y)"
  by (cases m) auto

lemma and_then_pair_Panic:
  "and_then m (case_prod k) = Panic \<longleftrightarrow> m = Panic \<or> (\<exists>x r. m = Ret (x, r) \<and> k x r = Panic)"
  by (cases m) auto

fun map_ret :: "('a \<Rightarrow> 'b) \<Rightarrow> ('e, 'a) outcome \<Rightarrow> ('e, 'b) outcome" where
  "map_ret f (Ret x) = Ret (f x)"
| "map_ret f (Err e) = Err e"
| "map_ret f Panic = Panic"

lemma map_ret_Ret_iff: "map_ret f x = Ret y \<longleftrightarrow> (\<exists>z. x = Ret z \<and> y = f z)"
  by (cases x) auto

definition returned :: "('e, 'a) outcome \<Rightarrow> bool" where
  "returned x = (case x of Ret _ \<Rightarrow> True | _ \<Rightarrow> False)"

lemma returnedE: "returned x \<Longrightarrow> (\<And>y. x = Ret y \<Longrightarrow> P) \<Longrightarrow> P"
  by (cases x) (auto simp: returned_def)

lemma returned_Ret [simp]: "returned (Ret x)"
  by (simp add: returned_def)

lemma list_all_trivial [simp]: "list_all (\<lambda>_. True) xs"
  by (simp add: list_all_iff)

section \<open>Big-endian integers\<close>

text \<open>
  \<open>be n x\<close> is the \<open>n\<close>-byte big-endian form of \<open>x\<close> (\<open>binary.BigEndian.PutUint16/32/64\<close>
  and \<open>binary.Write\<close> of a fixed-size integer), \<open>of_be\<close> the value a run of bytes stands for.
\<close>

primrec be :: "nat \<Rightarrow> int \<Rightarrow> bytes" where
  "be 0 x = []"
| "be (Suc n) x = be n (x div 256) @ [byte_of x]"

lemma be_2: "be 2 x = [byte_of (x div 256), byte_of x]"
  by (simp add: numeral_2_eq_2)

lemma be_4: "be 4 x = [byte_of (x div 256 div 256 div 256), byte_of (x div 256 div 256),
    byte_of (x div 256), byte_of x]"
  by (simp add: numeral_eq_Suc)

text \<open>Evaluation of closed encodings.\<close>

lemmas be_eval = be_2 be_4 char_of_def bit_iff_odd

definition of_be :: "bytes \<Rightarrow> int" where
  "of_be bs = foldl (\<lambda>a c. 256 * a + code c) 0 bs"

lemma of_be_Nil [simp]: "of_be [] = 0"
  by (simp add: of_be_def)

lemma of_be_snoc [simp]: "of_be (bs @ [c]) = 256 * of_be bs + code c"
  by (simp add: of_be_def)

lemma length_be [simp]: "length (be n x) = n"
  by (induction n arbitrary: x) auto

lemma of_be_be: "of_be (be n x) = x mod 256 ^ n"
proof (induction n arbitrary: x)
  case 0
  then show ?case by simp
next
  case (Suc n)
  have "x mod (256 * 256 ^ n) = 256 * (x div 256 mod 256 ^ n) + x mod 256"
    by (simp add: zmod_zmult2_eq)
  with Suc show ?case by simp
qed

lemma of_be_bounds: "0 \<le> of_be bs \<and> of_be bs < 256 ^ length bs"
proof (induction bs rule: rev_induct)
  case Nil
  then show ?case by simp
next
  case (snoc c bs)
  then have "256 * of_be bs + code c < 256 * (256 ^ length bs - 1) + 256"
    using code_bounds(2) [of c] by (intro add_le_less_mono) auto
  with snoc show ?case by simp
qed

lemma be_of_be: "length bs = n \<Longrightarrow> be n (of_be bs) = bs"
proof (induction n arbitrary: bs)
  case 0
  then show ?case by simp
next
  case (Suc n)
  then obtain cs c where bs: "bs = cs @ [c]" and len: "length cs = n"
    by (cases bs rule: rev_cases) auto
  have "byte_of (256 * of_be cs + code c) = byte_of (code c)"
    by (simp only: byte_of_eq_iff) simp
  then have "byte_of (256 * of_be cs + code c) = c"
    by (simp only: char_of_char)
  moreover have "(256 * of_be cs + code c) div 256 = of_be cs"
    by simp
  ultimately show ?case
    by (simp only: be.simps bs of_be_snoc Suc.IH [OF len])
qed

text \<open>The three widths the program uses.\<close>

definition put_u16 :: "16 word \<Rightarrow> bytes" where
  "put_u16 w = be 2 (uint w)"

definition put_u32 :: "32 word \<Rightarrow> bytes" where
  "put_u32 w = be 4 (uint w)"

definition put_u64 :: "64 word \<Rightarrow> bytes" where
  "put_u64 w = be 8 (uint w)"

definition get_u16 :: "bytes \<Rightarrow> 16 word" where
  "get_u16 bs = word_of_int (of_be bs)"

definition get_u32 :: "bytes \<Rightarrow> 32 word" where
  "get_u32 bs = word_of_int (of_be bs)"

definition get_u64 :: "bytes \<Rightarrow> 64 word" where
  "get_u64 bs = word_of_int (of_be bs)"

lemma length_put [simp]:
  "length (put_u16 w) = 2" "length (put_u32 v) = 4" "length (put_u64 u) = 8"
  by (simp_all add: put_u16_def put_u32_def put_u64_def)

lemma put_neq_Nil [simp]: "put_u16 w \<noteq> []" "put_u32 v \<noteq> []" "put_u64 u \<noteq> []"
  by (auto dest: arg_cong [where f = length])

lemma get_u16_put [simp]: "get_u16 (put_u16 w) = w"
  using uint_lt2p [of w] by (simp add: get_u16_def put_u16_def of_be_be)

lemma get_u32_put [simp]: "get_u32 (put_u32 w) = w"
  using uint_lt2p [of w] by (simp add: get_u32_def put_u32_def of_be_be)

lemma get_u64_put [simp]: "get_u64 (put_u64 w) = w"
  using uint_lt2p [of w] by (simp add: get_u64_def put_u64_def of_be_be)

lemma put_get_u16: "length bs = 2 \<Longrightarrow> put_u16 (get_u16 bs) = bs"
  using of_be_bounds [of bs] be_of_be [of bs 2]
  by (simp add: get_u16_def put_u16_def uint_word_of_int)

lemma put_get_u32: "length bs = 4 \<Longrightarrow> put_u32 (get_u32 bs) = bs"
  using of_be_bounds [of bs] be_of_be [of bs 4]
  by (simp add: get_u32_def put_u32_def uint_word_of_int)

lemma put_get_u64: "length bs = 8 \<Longrightarrow> put_u64 (get_u64 bs) = bs"
  using of_be_bounds [of bs] be_of_be [of bs 8]
  by (simp add: get_u64_def put_u64_def uint_word_of_int)

text \<open>A Go length converted with \<open>int16(n)\<close>, \<open>int32(n)\<close> or \<open>uint32(n)\<close>: the low bits.\<close>

definition len16 :: "'a list \<Rightarrow> 16 word" where
  "len16 xs = word_of_nat (length xs)"

definition len32 :: "'a list \<Rightarrow> 32 word" where
  "len32 xs = word_of_nat (length xs)"

lemma sint_of_int_16: "- (2 ^ 15) \<le> k \<Longrightarrow> k < 2 ^ 15 \<Longrightarrow> sint (word_of_int k :: 16 word) = k"
  by (simp add: signed_of_int signed_take_bit_int_eq_self)

lemma sint_of_int_32: "- (2 ^ 31) \<le> k \<Longrightarrow> k < 2 ^ 31 \<Longrightarrow> sint (word_of_int k :: 32 word) = k"
  by (simp add: signed_of_int signed_take_bit_int_eq_self)

lemma sint_len16: "length xs < 2 ^ 15 \<Longrightarrow> sint (len16 xs) = int (length xs)"
  using sint_of_int_16 [of "int (length xs)"] by (simp add: len16_def)

lemma sint_len32: "length xs < 2 ^ 31 \<Longrightarrow> sint (len32 xs) = int (length xs)"
  using sint_of_int_32 [of "int (length xs)"] by (simp add: len32_def)

lemma uint_len32: "length xs < 2 ^ 32 \<Longrightarrow> uint (len32 xs) = int (length xs)"
  by (simp add: len32_def unsigned_of_nat take_bit_nat_eq_self)

lemma unat_small_32: "n < 2 ^ 32 \<Longrightarrow> unat (word_of_nat n :: 32 word) = n"
  by (simp add: unat_of_nat)

lemma sint_negative_iff: "sint (w :: 32 word) < 0 \<longleftrightarrow> 2 ^ 31 \<le> uint w"
proof -
  have lt: "uint w < 2 ^ 32" using uint_lt2p [of w] by simp
  have "sint w < 0 \<longleftrightarrow> odd (uint w div 2 ^ 31)"
    by (simp add: sint_uint signed_take_bit_negative_iff bit_iff_odd)
  also have "\<dots> \<longleftrightarrow> 2 ^ 31 \<le> uint w"
  proof (cases "2 ^ 31 \<le> uint w")
    case True
    with lt have "2147483648 \<le> uint w" "uint w < 4294967296" by simp_all
    then have "uint w div 2147483648 = 1" by linarith
    with True show ?thesis by simp
  next
    case False
    then have "uint w div 2 ^ 31 = 0" by simp
    with False show ?thesis by simp
  qed
  finally show ?thesis .
qed

text \<open>Sums and counts over a list in which one element is replaced.\<close>

lemma sum_list_map_update:
  fixes f :: "'a \<Rightarrow> 'b::comm_monoid_add"
  shows "i < length xs \<Longrightarrow> sum_list (map f (xs[i := x])) + f (xs ! i) = sum_list (map f xs) + f x"
proof (induction xs arbitrary: i)
  case (Cons y ys)
  then show ?case by (cases i) (simp_all add: ac_simps)
qed simp

lemma length_filter_update:
  assumes "i < length xs"
  shows "length (filter P (xs[i := x])) + (if P (xs ! i) then 1 else 0) = length (filter P xs) + (if P x then 1 else 0)"
proof -
  have "length (filter P ys) = sum_list (map (\<lambda>y. if P y then 1 else 0) ys)" for ys :: "'a list"
    by (induction ys) simp_all
  with sum_list_map_update [OF assms, of "\<lambda>y. if P y then 1 else 0" x] show ?thesis by simp
qed

end
