(* ===== verification/Transitions.thy ===== *)
theory Transitions
  imports Main
begin

text \<open>
  The states of a concurrent part of the program: those that its steps lead to from a start.  An
  invariant is a property that holds at the start and that every step keeps; the parts of the
  program interpret the locale with their own steps and invariants.
\<close>

inductive reach :: "('s \<Rightarrow> bool) \<Rightarrow> ('s \<Rightarrow> 's \<Rightarrow> bool) \<Rightarrow> 's \<Rightarrow> bool" for start step where
  reach_start: "start s \<Longrightarrow> reach start step s"
| reach_step: "reach start step s \<Longrightarrow> step s t \<Longrightarrow> reach start step t"

locale invariant_of =
  fixes start :: "'s \<Rightarrow> bool" and step :: "'s \<Rightarrow> 's \<Rightarrow> bool" and inv :: "'s \<Rightarrow> bool"
  assumes starts: "start s \<Longrightarrow> inv s"
    and keeps: "step s t \<Longrightarrow> inv s \<Longrightarrow> inv t"
begin

lemma always: "reach start step s \<Longrightarrow> inv s"
  by (induction rule: reach.induct) (auto intro: starts keeps)

lemma after: "(step ^^ n) s t \<Longrightarrow> inv s \<Longrightarrow> inv t"
  by (induction n arbitrary: t) (auto intro: keeps)

end

text \<open>Something of the state that no step takes back.\<close>

locale monotone_of = invariant_of start step inv
  for start :: "'s \<Rightarrow> bool" and step :: "'s \<Rightarrow> 's \<Rightarrow> bool" and inv :: "'s \<Rightarrow> bool" +
  fixes rank :: "'s \<Rightarrow> 'r::order"
  assumes rises: "step s t \<Longrightarrow> inv s \<Longrightarrow> rank s \<le> rank t"
begin

lemma never_back: "(step ^^ n) s t \<Longrightarrow> inv s \<Longrightarrow> rank s \<le> rank t"
proof (induction n arbitrary: t)
  case (Suc n)
  from Suc.prems(1) obtain u where u: "(step ^^ n) s u" "step u t" by auto
  from rises [OF u(2) after [OF u(1) Suc.prems(2)]] Suc.IH [OF u(1) Suc.prems(2)] show ?case by simp
qed simp

end

text \<open>
  A system whose steps all lower a measure: its runs are no longer than the measure of their start.
\<close>

locale measured = invariant_of +
  fixes work :: "'s \<Rightarrow> nat"
  assumes lowers: "step s t \<Longrightarrow> inv s \<Longrightarrow> work t < work s"
begin

lemma bounded: "(step ^^ n) s t \<Longrightarrow> inv s \<Longrightarrow> n + work t \<le> work s"
proof (induction n arbitrary: t)
  case (Suc n)
  from Suc.prems(1) obtain u where u: "(step ^^ n) s u" "step u t" by auto
  have "inv u" by (rule after [OF u(1) Suc.prems(2)])
  from lowers [OF u(2) this] Suc.IH [OF u(1) Suc.prems(2)] show ?case by simp
qed simp

end

sublocale measured \<subseteq> falling: monotone_of start step inv "\<lambda>s. - int (work s)"
  by unfold_locales (use lowers in \<open>fastforce\<close>)

end
