(* ===== verification/Go_Strings.thy ===== *)
theory Go_Strings
  imports Prelude
begin

text \<open>
  What the program uses of Go's \<open>strings\<close>, \<open>bytes\<close>, \<open>strconv\<close> and \<open>fmt\<close> packages, on strings
  as byte lists.  White space is exact, its UTF-8 encodings beyond ASCII included.  Letter case,
  quoting with \<open>%q\<close>, user-supplied regular expressions, floating point numerals, durations and
  calendar layouts depend on tables and grammars of the standard library that are not part of the
  repository: they are fields of the parameter \<open>go_rt\<close>, consulted only where the
  plain ASCII rules do not already decide.
\<close>

record go_rt =
  uni_upper :: "bytes \<Rightarrow> bytes"                 \<comment> \<open>\<open>strings.ToUpper\<close> on text that is not ASCII\<close>
  uni_lower :: "bytes \<Rightarrow> bytes"                 \<comment> \<open>\<open>strings.ToLower\<close> on text that is not ASCII\<close>
  uni_fold :: "bytes \<Rightarrow> bytes \<Rightarrow> bool"           \<comment> \<open>\<open>strings.EqualFold\<close> from the first non-ASCII byte on\<close>
  uni_quote :: "bytes \<Rightarrow> bytes"                 \<comment> \<open>\<open>%q\<close> of text that is not ASCII\<close>
  re_compile :: "bytes \<Rightarrow> (bytes \<Rightarrow> bool) option" \<comment> \<open>\<open>regexp.Compile\<close>, then \<open>MatchString\<close>\<close>
  parse_f32 :: "bytes \<Rightarrow> 32 word option"        \<comment> \<open>\<open>ParseFloat(s, 32)\<close>, then \<open>Float32bits\<close>\<close>
  parse_f64 :: "bytes \<Rightarrow> 64 word option"        \<comment> \<open>\<open>ParseFloat(s, 64)\<close>, then \<open>Float64bits\<close>\<close>
  parse_duration :: "bytes \<Rightarrow> int option"       \<comment> \<open>\<open>time.ParseDuration\<close>, in nanoseconds\<close>
  parse_time :: "bytes \<Rightarrow> bytes \<Rightarrow> int option"   \<comment> \<open>\<open>time.Parse(layout, s)\<close>, Unix nanoseconds\<close>
  format_time :: "bytes \<Rightarrow> int \<Rightarrow> bytes"         \<comment> \<open>\<open>Time.Format(layout)\<close> of Unix nanoseconds in UTC\<close>

text \<open>
  One concrete instance: text beyond ASCII has no case, and the numerals, durations and layouts
  outside the repository are all refused.  It shows that statements about every \<open>go_rt\<close> apply.
\<close>

definition ascii_rt :: go_rt where
  "ascii_rt = \<lparr>uni_upper = (\<lambda>s. s), uni_lower = (\<lambda>s. s), uni_fold = (\<lambda>s t. s = t),
     uni_quote = (\<lambda>s. s), re_compile = (\<lambda>_. None), parse_f32 = (\<lambda>_. None),
     parse_f64 = (\<lambda>_. None), parse_duration = (\<lambda>_. None), parse_time = (\<lambda>_ _. None),
     format_time = (\<lambda>_ _. [])\<rparr>"

section \<open>Classes of bytes\<close>

definition is_ascii :: "bytes \<Rightarrow> bool" where
  "is_ascii s \<longleftrightarrow> list_all (\<lambda>c. code c < 128) s"

definition is_lower :: "byte \<Rightarrow> bool" where
  "is_lower c \<longleftrightarrow> 97 \<le> code c \<and> code c \<le> 122"

definition is_upper :: "byte \<Rightarrow> bool" where
  "is_upper c \<longleftrightarrow> 65 \<le> code c \<and> code c \<le> 90"

definition is_digit :: "byte \<Rightarrow> bool" where
  "is_digit c \<longleftrightarrow> 48 \<le> code c \<and> code c \<le> 57"

definition upper_byte :: "byte \<Rightarrow> byte" where
  "upper_byte c = (if is_lower c then byte_of (code c - 32) else c)"

definition lower_byte :: "byte \<Rightarrow> byte" where
  "lower_byte c = (if is_upper c then byte_of (code c + 32) else c)"

text \<open>The ASCII bytes \<open>unicode.IsSpace\<close> accepts: \<open>\t \n \v \f \r\<close> and the blank.\<close>

definition is_space :: "byte \<Rightarrow> bool" where
  "is_space c \<longleftrightarrow> code c = 32 \<or> 9 \<le> code c \<and> code c \<le> 13"

text \<open>
  The white space at the head of a string, as the number of its bytes; 0 when there is none.
  Beyond ASCII these are U+0085, U+00A0, U+1680, U+2000 to U+200A, U+2028, U+2029, U+202F,
  U+205F and U+3000 in UTF-8.
\<close>

definition space3 :: "int \<Rightarrow> int \<Rightarrow> int \<Rightarrow> bool" where
  "space3 a b c \<longleftrightarrow>
     a = 0xE1 \<and> b = 0x9A \<and> c = 0x80 \<or>
     a = 0xE2 \<and> b = 0x80 \<and> (0x80 \<le> c \<and> c \<le> 0x8A \<or> c = 0xA8 \<or> c = 0xA9 \<or> c = 0xAF) \<or>
     a = 0xE2 \<and> b = 0x81 \<and> c = 0x9F \<or>
     a = 0xE3 \<and> b = 0x80 \<and> c = 0x80"

definition space2 :: "int \<Rightarrow> int \<Rightarrow> bool" where
  "space2 a b \<longleftrightarrow> a = 0xC2 \<and> (b = 0x85 \<or> b = 0xA0)"

fun space_len :: "bytes \<Rightarrow> nat" where
  "space_len [] = 0"
| "space_len (a # s) =
     (if is_space a then 1
      else case s of [] \<Rightarrow> 0
      | b # t \<Rightarrow>
          if space2 (code a) (code b) then 2
          else case t of [] \<Rightarrow> 0
          | c # _ \<Rightarrow> if space3 (code a) (code b) (code c) then 3 else 0)"

text \<open>The white space at the end of a string, read from its last byte backwards.\<close>

fun space_len_rev :: "bytes \<Rightarrow> nat" where
  "space_len_rev [] = 0"
| "space_len_rev (a # s) =
     (if is_space a then 1
      else case s of [] \<Rightarrow> 0
      | b # t \<Rightarrow>
          if space2 (code b) (code a) then 2
          else case t of [] \<Rightarrow> 0
          | c # _ \<Rightarrow> if space3 (code c) (code b) (code a) then 3 else 0)"

section \<open>Trimming and splitting\<close>

function trim_left :: "bytes \<Rightarrow> bytes" where
  "trim_left s = (if space_len s = 0 then s else trim_left (drop (space_len s) s))"
  by pat_completeness auto
termination
  by (relation "measure length") (simp_all, case_tac s, simp_all)

function trim_left_rev :: "bytes \<Rightarrow> bytes" where
  "trim_left_rev s = (if space_len_rev s = 0 then s else trim_left_rev (drop (space_len_rev s) s))"
  by pat_completeness auto
termination
  by (relation "measure length") (simp_all, case_tac s, simp_all)

declare trim_left.simps [simp del] trim_left_rev.simps [simp del]

definition TrimSpace :: "bytes \<Rightarrow> bytes" where
  "TrimSpace s = rev (trim_left_rev (rev (trim_left s)))"

definition HasPrefix :: "bytes \<Rightarrow> bytes \<Rightarrow> bool" where
  "HasPrefix s p \<longleftrightarrow> take (length p) s = p"

definition HasSuffix :: "bytes \<Rightarrow> bytes \<Rightarrow> bool" where
  "HasSuffix s p \<longleftrightarrow> length p \<le> length s \<and> drop (length s - length p) s = p"

definition TrimPrefix :: "bytes \<Rightarrow> bytes \<Rightarrow> bytes" where
  "TrimPrefix s p = (if HasPrefix s p then drop (length p) s else s)"

definition TrimSuffix :: "bytes \<Rightarrow> bytes \<Rightarrow> bytes" where
  "TrimSuffix s p = (if HasSuffix s p then take (length s - length p) s else s)"

text \<open>\<open>strings.Trim\<close> and \<open>strings.TrimRight\<close> with a cutset of ASCII bytes.\<close>

definition TrimRight :: "bytes \<Rightarrow> bytes \<Rightarrow> bytes" where
  "TrimRight s cutset = rev (dropWhile (\<lambda>c. c \<in> set cutset) (rev s))"

definition Trim :: "bytes \<Rightarrow> bytes \<Rightarrow> bytes" where
  "Trim s cutset = TrimRight (dropWhile (\<lambda>c. c \<in> set cutset) s) cutset"

text \<open>\<open>strings.Index\<close>: the first position of a substring (\<open>None\<close> for \<open>-1\<close>).\<close>

fun Index :: "bytes \<Rightarrow> bytes \<Rightarrow> nat option" where
  "Index [] p = (if p = [] then Some 0 else None)"
| "Index (c # s) p = (if HasPrefix (c # s) p then Some 0 else map_option Suc (Index s p))"

definition Contains :: "bytes \<Rightarrow> bytes \<Rightarrow> bool" where
  "Contains s p \<longleftrightarrow> Index s p \<noteq> None"

fun IndexByte :: "bytes \<Rightarrow> byte \<Rightarrow> nat option" where
  "IndexByte [] b = None"
| "IndexByte (c # s) b = (if c = b then Some 0 else map_option Suc (IndexByte s b))"

text \<open>\<open>strings.Split\<close> at a one-byte separator, and \<open>strings.SplitN(s, sep, 2)\<close>.\<close>

fun Split :: "bytes \<Rightarrow> byte \<Rightarrow> bytes list" where
  "Split [] b = [[]]"
| "Split (c # s) b =
     (if c = b then [] # Split s b
      else case Split s b of [] \<Rightarrow> [[c]] | w # ws \<Rightarrow> (c # w) # ws)"

definition SplitN2 :: "bytes \<Rightarrow> byte \<Rightarrow> bytes list" where
  "SplitN2 s b = (case IndexByte s b of None \<Rightarrow> [s] | Some i \<Rightarrow> [take i s, drop (Suc i) s])"

text \<open>\<open>strings.Fields\<close>: the maximal runs without white space.\<close>

function fields_from :: "bytes \<Rightarrow> bytes \<Rightarrow> bytes list" where
  "fields_from w s =
     (if s = [] then (if w = [] then [] else [rev w])
      else if space_len s = 0 then fields_from (hd s # w) (tl s)
      else (if w = [] then [] else [rev w]) @ fields_from [] (drop (space_len s) s))"
  by pat_completeness auto
termination
  by (relation "measure (\<lambda>(w, s). length s)") (auto simp: neq_Nil_conv)

declare fields_from.simps [simp del]

definition Fields :: "bytes \<Rightarrow> bytes list" where
  "Fields s = fields_from [] s"

section \<open>Letter case\<close>

definition ToUpper :: "go_rt \<Rightarrow> bytes \<Rightarrow> bytes" where
  "ToUpper rt s = (if is_ascii s then map upper_byte s else uni_upper rt s)"

definition ToLower :: "go_rt \<Rightarrow> bytes \<Rightarrow> bytes" where
  "ToLower rt s = (if is_ascii s then map lower_byte s else uni_lower rt s)"

fun EqualFold :: "go_rt \<Rightarrow> bytes \<Rightarrow> bytes \<Rightarrow> bool" where
  "EqualFold rt [] [] \<longleftrightarrow> True"
| "EqualFold rt [] (d # t) \<longleftrightarrow> False"
| "EqualFold rt (c # s) [] \<longleftrightarrow> False"
| "EqualFold rt (c # s) (d # t) \<longleftrightarrow>
     (if code c < 128 \<and> code d < 128 then lower_byte c = lower_byte d \<and> EqualFold rt s t
      else uni_fold rt (c # s) (d # t))"

section \<open>Decimal numerals\<close>

definition digit :: "int \<Rightarrow> byte" where
  "digit d = byte_of (48 + d)"

function show_digits :: "int \<Rightarrow> bytes" where
  "show_digits n = (if n < 10 then [digit n] else show_digits (n div 10) @ [digit (n mod 10)])"
  by pat_completeness auto
termination
  by (relation "measure nat") auto

declare show_digits.simps [simp del]

text \<open>\<open>strconv.Itoa\<close>, \<open>strconv.FormatInt(n, 10)\<close> and \<open>%d\<close>.\<close>

definition Itoa :: "int \<Rightarrow> bytes" where
  "Itoa n = (if n < 0 then CHR ''-'' # show_digits (- n) else show_digits n)"

fun read_digits :: "int \<Rightarrow> bytes \<Rightarrow> int option" where
  "read_digits acc [] = Some acc"
| "read_digits acc (c # s) =
     (if is_digit c then read_digits (10 * acc + (code c - 48)) s else None)"

text \<open>
  \<open>strconv.ParseInt(s, 10, w)\<close>, \<open>None\<close> for a syntax or range error; \<open>strconv.Atoi\<close> is the
  case \<open>w = 64\<close>.
\<close>

definition in_range :: "nat \<Rightarrow> int \<Rightarrow> bool" where
  "in_range w n \<longleftrightarrow> - (2 ^ (w - 1)) \<le> n \<and> n < 2 ^ (w - 1)"

definition ParseInt :: "nat \<Rightarrow> bytes \<Rightarrow> int option" where
  "ParseInt w s =
     (let neg = (s \<noteq> [] \<and> hd s = CHR ''-'');
          ds = (if s \<noteq> [] \<and> (hd s = CHR ''-'' \<or> hd s = CHR ''+'') then tl s else s)
      in if ds = [] then None
         else case read_digits 0 ds of
           None \<Rightarrow> None
         | Some n \<Rightarrow> (let v = (if neg then - n else n) in if in_range w v then Some v else None))"

definition Atoi :: "bytes \<Rightarrow> int option" where
  "Atoi s = ParseInt 64 s"

section \<open>Quoting\<close>

definition hex_digit :: "int \<Rightarrow> byte" where
  "hex_digit d = (if d < 10 then byte_of (48 + d) else byte_of (87 + d))"

definition quote_byte :: "byte \<Rightarrow> bytes" where
  "quote_byte c =
     (let n = code c in
      if c = CHR 0x22 then [CHR 0x5C, CHR 0x22]
      else if c = CHR 0x5C then [CHR 0x5C, CHR 0x5C]
      else if 32 \<le> n \<and> n < 127 then [c]
      else if n = 7 then [CHR 0x5C, CHR ''a''] else if n = 8 then [CHR 0x5C, CHR ''b'']
      else if n = 12 then [CHR 0x5C, CHR ''f''] else if n = 10 then [CHR 0x5C, CHR ''n'']
      else if n = 13 then [CHR 0x5C, CHR ''r''] else if n = 9 then [CHR 0x5C, CHR ''t'']
      else if n = 11 then [CHR 0x5C, CHR ''v'']
      else [CHR 0x5C, CHR ''x'', hex_digit (n div 16), hex_digit (n mod 16)])"

text \<open>\<open>%q\<close> of a string.\<close>

definition quoted :: "go_rt \<Rightarrow> bytes \<Rightarrow> bytes" where
  "quoted rt s =
     (if is_ascii s then [CHR 0x22] @ concat (map quote_byte s) @ [CHR 0x22] else uni_quote rt s)"

section \<open>Facts the components share\<close>

lemma space_len_append: "space_len p \<noteq> 0 \<Longrightarrow> space_len (p @ q) = space_len p"
  by (cases p rule: space_len.cases) (auto split: list.splits if_splits)

lemma space_len_trim_left: "space_len (trim_left s) = 0"
proof (induction s rule: trim_left.induct)
  case (1 s)
  then show ?case by (cases "space_len s = 0") (simp_all add: trim_left.simps [of s])
qed

lemma space_len_rev_trim: "space_len_rev (trim_left_rev s) = 0"
proof (induction s rule: trim_left_rev.induct)
  case (1 s)
  then show ?case by (cases "space_len_rev s = 0") (simp_all add: trim_left_rev.simps [of s])
qed

lemma trim_left_id: "space_len s = 0 \<Longrightarrow> trim_left s = s"
  by (simp add: trim_left.simps [of s])

lemma trim_left_rev_id: "space_len_rev s = 0 \<Longrightarrow> trim_left_rev s = s"
  by (simp add: trim_left_rev.simps [of s])

lemma trim_left_rev_suffix: "\<exists>p. s = p @ trim_left_rev s"
proof (induction s rule: trim_left_rev.induct)
  case (1 s)
  show ?case
  proof (cases "space_len_rev s = 0")
    case True
    then show ?thesis by (simp add: trim_left_rev_id)
  next
    case False
    with 1 obtain p where "drop (space_len_rev s) s = p @ trim_left_rev (drop (space_len_rev s) s)"
      by blast
    then have "s = (take (space_len_rev s) s @ p) @ trim_left_rev (drop (space_len_rev s) s)"
      by (metis append_assoc append_take_drop_id)
    moreover have "trim_left_rev s = trim_left_rev (drop (space_len_rev s) s)"
      using False by (simp add: trim_left_rev.simps [of s])
    ultimately show ?thesis by metis
  qed
qed

lemma space_len_TrimSpace: "space_len (TrimSpace s) = 0"
proof -
  obtain p where "rev (trim_left s) = p @ trim_left_rev (rev (trim_left s))"
    using trim_left_rev_suffix by blast
  then have "trim_left s = TrimSpace s @ rev p"
    by (metis TrimSpace_def rev_append rev_rev_ident)
  then show ?thesis
    using space_len_trim_left [of s] space_len_append [of "TrimSpace s" "rev p"] by auto
qed

lemma space_len_rev_TrimSpace: "space_len_rev (rev (TrimSpace s)) = 0"
  by (simp add: TrimSpace_def space_len_rev_trim)

lemma TrimSpace_id: "space_len s = 0 \<Longrightarrow> space_len_rev (rev s) = 0 \<Longrightarrow> TrimSpace s = s"
  by (simp add: TrimSpace_def trim_left_id trim_left_rev_id)

lemma TrimSpace_idem [simp]: "TrimSpace (TrimSpace s) = TrimSpace s"
  by (rule TrimSpace_id [OF space_len_TrimSpace space_len_rev_TrimSpace])

text \<open>Runs of ASCII white space at either end disappear.\<close>

lemma trim_left_spaces: "list_all is_space w \<Longrightarrow> trim_left (w @ s) = trim_left s"
  by (induction w) (simp_all add: trim_left.simps [of "_ # _"])

lemma trim_left_rev_spaces: "list_all is_space w \<Longrightarrow> trim_left_rev (w @ s) = trim_left_rev s"
  by (induction w) (simp_all add: trim_left_rev.simps [of "_ # _"])

lemma is_space_low: "is_space c \<Longrightarrow> code c \<le> 32"
  by (auto simp: is_space_def)

lemma space_low_not_continuation:
  "code b \<le> 32 \<Longrightarrow> \<not> space2 a (code b)"
  "code b \<le> 32 \<Longrightarrow> \<not> space3 a (code b) c"
  "code b \<le> 32 \<Longrightarrow> \<not> space3 a c (code b)"
  by (simp_all add: space2_def space3_def)

lemma space_len_append_spaces:
  assumes "space_len s = 0" and "s \<noteq> []" and "list_all is_space w"
  shows "space_len (s @ w) = 0"
proof (cases w)
  case Nil
  with assms show ?thesis by simp
next
  case (Cons x v)
  with assms(3) have x: "code x \<le> 32" by (simp add: is_space_low)
  consider a where "s = [a]" | a b where "s = [a, b]" | a b c t where "s = a # b # c # t"
    using assms(2) by (metis neq_Nil_conv)
  then show ?thesis
    using assms(1) x Cons
    by cases (simp_all add: space_low_not_continuation split: list.splits if_splits)
qed

lemma TrimSpace_surround:
  "space_len s = 0 \<Longrightarrow> space_len_rev (rev s) = 0 \<Longrightarrow> list_all is_space v \<Longrightarrow>
   list_all is_space w \<Longrightarrow> TrimSpace (v @ s @ w) = s"
proof (cases "s = []")
  case True
  moreover assume "list_all is_space v" "list_all is_space w"
  ultimately show ?thesis
    using trim_left_spaces [of "v @ w" "[]"]
    by (simp add: TrimSpace_def trim_left_id trim_left_rev_id)
next
  case False
  assume "space_len s = 0" "space_len_rev (rev s) = 0" "list_all is_space v" "list_all is_space w"
  then show ?thesis
    using space_len_append_spaces [of s w] False
    by (simp add: TrimSpace_def trim_left_spaces trim_left_id trim_left_rev_spaces
        trim_left_rev_id list_all_rev)
qed

lemma trim_left_append_spaces:
  "list_all is_space w \<Longrightarrow>
   trim_left (s @ w) = (if trim_left s = [] then [] else trim_left s @ w)"
proof (induction s rule: trim_left.induct)
  case (1 s)
  show ?case
  proof (cases "space_len s = 0")
    case True
    then show ?thesis
      using 1 space_len_append_spaces [of s w] trim_left_spaces [of w "[]"]
      by (cases "s = []") (simp_all add: trim_left_id)
  next
    case False
    then have "s \<noteq> []" "space_len s \<le> length s"
      by (cases s rule: space_len.cases; simp split: list.splits if_splits)+
    with False 1 show ?thesis
      using space_len_append [of s w]
      by (simp add: trim_left.simps [of "s @ w"] trim_left.simps [of s])
  qed
qed

lemma TrimSpace_pad:
  assumes "list_all is_space v" and "list_all is_space w"
  shows "TrimSpace (v @ s @ w) = TrimSpace s"
  using assms trim_left_append_spaces [of w s] trim_left_rev_spaces [of "rev w" "rev (trim_left s)"]
  by (simp add: TrimSpace_def trim_left_spaces list_all_rev)

text \<open>Visible bytes are ASCII and not white space; they are never trimmed.\<close>

definition visible :: "byte \<Rightarrow> bool" where
  "visible c \<longleftrightarrow> \<not> is_space c \<and> code c < 128"

lemma space_len_visible: "visible c \<Longrightarrow> space_len (c # s) = 0" "visible c \<Longrightarrow> space_len_rev (c # s) = 0"
  by (auto simp: visible_def space2_def space3_def split: list.splits)

lemma TrimSpace_visible_ends:
  assumes "s = x # t" and "s = u @ [y]" and "visible x" and "visible y"
    and "list_all is_space v" and "list_all is_space w"
  shows "TrimSpace (v @ s @ w) = s"
proof -
  have "space_len s = 0" using assms(1,3) by (simp add: space_len_visible del: space_len.simps)
  moreover have "space_len_rev (rev s) = 0"
    using assms(2,4) by (simp add: space_len_visible del: space_len_rev.simps)
  ultimately show ?thesis using assms(5,6) by (rule TrimSpace_surround)
qed

text \<open>Decimal numerals are read back.\<close>

lemma digit_is_digit: "0 \<le> d \<Longrightarrow> d < 10 \<Longrightarrow> is_digit (digit d) \<and> code (digit d) - 48 = d"
  by (simp add: is_digit_def digit_def)

lemma read_digits_snoc: "read_digits a (s @ [c]) =
   (case read_digits a s of None \<Rightarrow> None
    | Some n \<Rightarrow> if is_digit c then Some (10 * n + (code c - 48)) else None)"
  by (induction a s rule: read_digits.induct) auto

lemma read_show_digits: "0 \<le> n \<Longrightarrow> read_digits 0 (show_digits n) = Some n"
proof (induction n rule: show_digits.induct)
  case (1 n)
  show ?case
  proof (cases "n < 10")
    case True
    with 1 digit_is_digit [of n] show ?thesis by (simp add: show_digits.simps [of n])
  next
    case False
    with 1 digit_is_digit [of "n mod 10"] show ?thesis
      by (simp add: show_digits.simps [of n] read_digits_snoc)
  qed
qed

lemma show_digits_nonempty [simp]: "show_digits n \<noteq> []"
  by (simp add: show_digits.simps [of n])

lemma hd_show_digits: "0 \<le> n \<Longrightarrow> is_digit (hd (show_digits n))"
proof (induction n rule: show_digits.induct)
  case (1 n)
  then show ?case
    using digit_is_digit [of n] by (cases "n < 10") (simp_all add: show_digits.simps [of n])
qed

lemma not_digit_sign: "\<not> is_digit (CHR ''-'')" "\<not> is_digit (CHR ''+'')"
  by (simp_all add: is_digit_def)

lemma ParseInt_Itoa: "in_range w n \<Longrightarrow> ParseInt w (Itoa n) = Some n"
proof -
  have *: "hd (show_digits k) \<noteq> CHR ''-''" "hd (show_digits k) \<noteq> CHR ''+''" if "0 \<le> k" for k
    using hd_show_digits [OF that] not_digit_sign by auto
  show "in_range w n \<Longrightarrow> ParseInt w (Itoa n) = Some n"
    using * [of n] read_show_digits [of n] read_show_digits [of "- n"]
    by (cases "n < 0") (auto simp: ParseInt_def Itoa_def Let_def)
qed

end
