(* ===== verification/Go_Regex.thy ===== *)
theory Go_Regex
  imports Go_Strings
begin

text \<open>
  The fragment of Go's \<open>regexp\<close> that the fixed patterns of \<open>internal/mock\<close> are written in:
  literals under \<open>(?i)\<close>, one-rune classes, their greedy and lazy repetitions, optional groups,
  capturing groups and the end anchor.  A pattern is a list of items; matching is leftmost-first,
  as Go's \<open>regexp\<close> defines it, by trying the alternatives in order of preference.  Patterns that
  users write in rules go through the parameter \<open>re_compile\<close> of \<open>go_rt\<close> instead.
\<close>

section \<open>One rune\<close>

definition cont :: "byte \<Rightarrow> bool" where
  "cont c \<longleftrightarrow> 0x80 \<le> code c \<and> code c \<le> 0xBF"

text \<open>
  The bytes of the UTF-8 rune at the head of a string; a byte that starts no valid encoding is
  a rune of its own (\<open>utf8.RuneError\<close>, width 1).
\<close>

fun rune_len :: "bytes \<Rightarrow> nat" where
  "rune_len [] = 0"
| "rune_len (a # s) =
     (let n = code a in
      if 0xC2 \<le> n \<and> n \<le> 0xDF then (case s of b # _ \<Rightarrow> if cont b then 2 else 1 | _ \<Rightarrow> 1)
      else if 0xE0 \<le> n \<and> n \<le> 0xEF then
        (case s of b # c # _ \<Rightarrow>
           if cont b \<and> cont c \<and> (n = 0xE0 \<longrightarrow> 0xA0 \<le> code b) \<and> (n = 0xED \<longrightarrow> code b \<le> 0x9F)
           then 3 else 1
         | _ \<Rightarrow> 1)
      else if 0xF0 \<le> n \<and> n \<le> 0xF4 then
        (case s of b # c # d # _ \<Rightarrow>
           if cont b \<and> cont c \<and> cont d \<and> (n = 0xF0 \<longrightarrow> 0x90 \<le> code b) \<and>
              (n = 0xF4 \<longrightarrow> code b \<le> 0x8F)
           then 4 else 1
         | _ \<Rightarrow> 1)
      else 1)"

text \<open>
  One-rune items.  Under \<open>(?i)\<close> a letter matches every rune of its simple case folding orbit,
  which for \<open>k\<close> holds U+212A and for \<open>s\<close> U+017F besides the two ASCII cases.
\<close>

datatype atom =
    Fold byte        \<comment> \<open>a literal under \<open>(?i)\<close>\<close>
  | Exact byte       \<comment> \<open>a literal that is not a letter\<close>
  | Blank            \<comment> \<open>\<open>\s\<close>\<close>
  | Ident            \<comment> \<open>\<open>[a-zA-Z0-9_\.]\<close> under \<open>(?i)\<close>\<close>
  | NoneOf "byte list" \<comment> \<open>\<open>[^...]\<close> of ASCII bytes\<close>
  | Dot              \<comment> \<open>\<open>.\<close>: every rune but the newline\<close>

definition blank :: "byte \<Rightarrow> bool" where
  "blank c \<longleftrightarrow> c \<in> set [CHR '' '', CHR 0x09, CHR 0x0A, CHR 0x0C, CHR 0x0D]"

definition ident_byte :: "byte \<Rightarrow> bool" where
  "ident_byte c \<longleftrightarrow> is_lower c \<or> is_upper c \<or> is_digit c \<or> c = CHR ''_'' \<or> c = CHR ''.''"

definition kelvin_len :: "bytes \<Rightarrow> nat" where
  "kelvin_len s = (if take 3 s = [CHR 0xE2, CHR 0x84, CHR 0xAA] then 3 else 0)"

definition long_s_len :: "bytes \<Rightarrow> nat" where
  "long_s_len s = (if take 2 s = [CHR 0xC5, CHR 0xBF] then 2 else 0)"

fun atom_len :: "atom \<Rightarrow> bytes \<Rightarrow> nat" where
  "atom_len a [] = 0"
| "atom_len (Fold c) (d # s) =
     (if lower_byte c = lower_byte d then 1
      else if lower_byte c = CHR ''k'' then kelvin_len (d # s)
      else if lower_byte c = CHR ''s'' then long_s_len (d # s) else 0)"
| "atom_len (Exact c) (d # s) = (if c = d then 1 else 0)"
| "atom_len Blank (d # s) = (if blank d then 1 else 0)"
| "atom_len Ident (d # s) =
     (if ident_byte d then 1 else max (kelvin_len (d # s)) (long_s_len (d # s)))"
| "atom_len (NoneOf cs) (d # s) = (if d \<in> set cs then 0 else rune_len (d # s))"
| "atom_len Dot (d # s) = (if d = CHR 0x0A then 0 else rune_len (d # s))"

section \<open>Patterns and leftmost-first matching\<close>

datatype rx =
    One atom
  | Star atom         \<comment> \<open>greedy \<open>*\<close>\<close>
  | LazyStar atom     \<comment> \<open>\<open>*?\<close>\<close>
  | Opt "rx list"     \<comment> \<open>greedy \<open>(?:...)?\<close>\<close>
  | Open nat          \<comment> \<open>the start of capturing group \<open>n\<close>\<close>
  | Close nat         \<comment> \<open>its end\<close>
  | End               \<comment> \<open>\<open>$\<close>\<close>

fun rx_weight :: "rx \<Rightarrow> nat" where
  "rx_weight (Opt rs) = Suc (sum_list (map rx_weight rs))"
| "rx_weight r = 1"

type_synonym caps = "nat \<Rightarrow> bytes"

text \<open>
  \<open>run rs s st cs\<close> matches the items \<open>rs\<close> at the head of \<open>s\<close>; \<open>st\<close> holds where each open group
  began, \<open>cs\<close> the text of each closed group.  The result is the captures and the unread rest.
\<close>

function run :: "rx list \<Rightarrow> bytes \<Rightarrow> caps \<Rightarrow> caps \<Rightarrow> (caps \<times> bytes) option" where
  "run [] s st cs = Some (cs, s)"
| "run (One a # rs) s st cs =
     (if atom_len a s = 0 then None else run rs (drop (atom_len a s) s) st cs)"
| "run (Star a # rs) s st cs =
     (if atom_len a s = 0 then run rs s st cs
      else case run (Star a # rs) (drop (atom_len a s) s) st cs of
        Some r \<Rightarrow> Some r
      | None \<Rightarrow> run rs s st cs)"
| "run (LazyStar a # rs) s st cs =
     (case run rs s st cs of
        Some r \<Rightarrow> Some r
      | None \<Rightarrow> if atom_len a s = 0 then None
                else run (LazyStar a # rs) (drop (atom_len a s) s) st cs)"
| "run (Opt ps # rs) s st cs =
     (case run (ps @ rs) s st cs of Some r \<Rightarrow> Some r | None \<Rightarrow> run rs s st cs)"
| "run (Open i # rs) s st cs = run rs s (st(i := s)) cs"
| "run (Close i # rs) s st cs = run rs s st (cs(i := take (length (st i) - length s) (st i)))"
| "run (End # rs) s st cs = (if s = [] then run rs s st cs else None)"
  by pat_completeness auto
termination
  by (relation "measures [\<lambda>(rs, s, _). sum_list (map rx_weight rs), \<lambda>(rs, s, _). length s]")
     (auto, (case_tac s; auto)+)

text \<open>
  The equations of the two repetitions unfold for ever on a variable text; in this form they
  stop with the text.
\<close>

declare run.simps [simp del]

lemmas run_simps [simp] = run.simps(1,2,5,6,7,8)

lemma run_Star_simps [simp]:
  "run (Star a # rs) [] st cs = run rs [] st cs"
  "run (Star a # rs) (c # s) st cs =
     (if atom_len a (c # s) = 0 then run rs (c # s) st cs
      else case run (Star a # rs) (drop (atom_len a (c # s)) (c # s)) st cs of
        Some r \<Rightarrow> Some r
      | None \<Rightarrow> run rs (c # s) st cs)"
  by (subst run.simps, simp)+

lemma run_LazyStar_simps [simp]:
  "run (LazyStar a # rs) [] st cs = run rs [] st cs"
  "run (LazyStar a # rs) (c # s) st cs =
     (case run rs (c # s) st cs of
        Some r \<Rightarrow> Some r
      | None \<Rightarrow> if atom_len a (c # s) = 0 then None
                else run (LazyStar a # rs) (drop (atom_len a (c # s)) (c # s)) st cs)"
  by (subst run.simps, simp split: option.splits)+

text \<open>\<open>FindStringSubmatch\<close> of a pattern that starts with \<open>^\<close>.\<close>

definition match_start :: "rx list \<Rightarrow> bytes \<Rightarrow> caps option" where
  "match_start rs s = map_option fst (run rs s (\<lambda>_. []) (\<lambda>_. []))"

text \<open>The leftmost match of a pattern without \<open>^\<close>: text before it, captures, text after it.\<close>

fun find_rx :: "rx list \<Rightarrow> bytes \<Rightarrow> (bytes \<times> caps \<times> bytes) option" where
  "find_rx rs [] = map_option (\<lambda>(c, r). ([], c, r)) (run rs [] (\<lambda>_. []) (\<lambda>_. []))"
| "find_rx rs (a # s) =
     (case run rs (a # s) (\<lambda>_. []) (\<lambda>_. []) of
        Some (c, r) \<Rightarrow> Some ([], c, r)
      | None \<Rightarrow> map_option (\<lambda>(p, c, r). (a # p, c, r)) (find_rx rs s))"

text \<open>
  All non-overlapping matches from left to right, and the text after the last one.  None of the
  program's patterns matches the empty string, so the search resumes right after each match.
\<close>

function find_all :: "rx list \<Rightarrow> bytes \<Rightarrow> (bytes \<times> caps) list \<times> bytes" where
  "find_all rs s =
     (case find_rx rs s of
        Some (p, c, r) \<Rightarrow>
          if length r < length s
          then (let (ms, e) = find_all rs r in ((p, c) # ms, e)) else ([], s)
      | None \<Rightarrow> ([], s))"
  by pat_completeness auto
termination
  by (relation "measure (\<lambda>(rs, s). length s)") auto

declare find_all.simps [simp del]

text \<open>\<open>word ''CREATE''\<close> is the literal \<open>CREATE\<close> under \<open>(?i)\<close>; the other shorthands are \<open>\s+\<close>,
  \<open>\s*\<close> and \<open>([a-zA-Z0-9_\.]+)\<close>.\<close>

definition kw :: "bytes \<Rightarrow> rx list" where
  "kw w = map (One \<circ> Fold) w"

definition plus :: "atom \<Rightarrow> rx list" where
  "plus a = [One a, Star a]"

definition group :: "nat \<Rightarrow> rx list \<Rightarrow> rx list" where
  "group i rs = Open i # rs @ [Close i]"

section \<open>Facts about matching\<close>

text \<open>Captured text and the rest are made of the bytes of the subject.\<close>

lemma run_bytes:
  "run rs s st cs = Some (cs', r) \<Longrightarrow> set s \<subseteq> A \<Longrightarrow> (\<forall>i. set (st i) \<subseteq> A) \<Longrightarrow> (\<forall>i. set (cs i) \<subseteq> A) \<Longrightarrow>
   (\<forall>i. set (cs' i) \<subseteq> A) \<and> set r \<subseteq> A"
proof (induction rs s st cs arbitrary: cs' r rule: run.induct)
  case (1 s st cs)
  then show ?case by simp
next
  case (2 a rs s st cs)
  moreover have "set (drop (atom_len a s) s) \<subseteq> A"
    using "2.prems"(2) set_drop_subset by fast
  ultimately show ?case by (auto split: if_splits)
next
  case (3 a rs s st cs)
  moreover have "set (drop (atom_len a s) s) \<subseteq> A"
    using "3.prems"(2) set_drop_subset by fast
  ultimately show ?case
    by (simp add: run.simps(3) [of a rs s] split: if_splits option.splits)
next
  case (4 a rs s st cs)
  moreover have "set (drop (atom_len a s) s) \<subseteq> A"
    using "4.prems"(2) set_drop_subset by fast
  ultimately show ?case
    by (simp add: run.simps(4) [of a rs s] split: if_splits option.splits)
next
  case (5 ps rs s st cs)
  then show ?case by (auto split: option.splits)
next
  case (6 i rs s st cs)
  then show ?case by (simp add: fun_upd_def)
next
  case (7 i rs s st cs)
  moreover have "set (take (length (st i) - length s) (st i)) \<subseteq> A"
    using "7.prems"(3) set_take_subset by fast
  ultimately show ?case by (simp add: fun_upd_def)
next
  case (8 rs s st cs)
  then show ?case by (auto split: if_splits)
qed

lemma match_start_bytes:
  "match_start rs s = Some m \<Longrightarrow> set (m i) \<subseteq> set s"
  using run_bytes [of rs s "\<lambda>_. []" "\<lambda>_. []" _ _ "set s"] by (fastforce simp: match_start_def)

text \<open>A greedy repetition of a class takes the longest run when the rest then matches.\<close>

lemma run_Star_longest:
  "(\<And>c s. c \<in> set n \<Longrightarrow> atom_len a (c # s) = 1) \<Longrightarrow> t = [] \<or> atom_len a t = 0 \<Longrightarrow>
   run rs t st cs = Some r \<Longrightarrow> run (Star a # rs) (n @ t) st cs = Some r"
proof (induction n)
  case Nil
  then show ?case by (cases t) auto
next
  case (Cons c n)
  then show ?case by simp
qed

lemma atom_len_Ident: "ident_byte c \<Longrightarrow> atom_len Ident (c # s) = 1"
  by simp

lemma match_start_Some: "run rs s (\<lambda>_. []) (\<lambda>_. []) = Some (m, r) \<Longrightarrow> match_start rs s = Some m"
  by (simp add: match_start_def)

end
