(* ===== verification/Wire_Types.thy ===== *)
theory Wire_Types
  imports Go_Strings
begin

text \<open>
  Constants and message types of \<open>internal/protocol/types.go\<close> and \<open>messages.go\<close>.  The Go
  integers keep their width as words and are read with \<open>sint\<close> where the Go type is signed.
\<close>

section \<open>Protocol constants\<close>

definition ProtocolVersion3 :: "32 word" where "ProtocolVersion3 = 196608"
definition SSLRequestCode :: "32 word" where "SSLRequestCode = 80877103"
definition CancelRequestCode :: "32 word" where "CancelRequestCode = 80877102"

text \<open>Frontend message types.\<close>

definition MsgTypeQuery :: byte where "MsgTypeQuery = CHR ''Q''"
definition MsgTypeParse :: byte where "MsgTypeParse = CHR ''P''"
definition MsgTypeBind :: byte where "MsgTypeBind = CHR ''B''"
definition MsgTypeDescribe :: byte where "MsgTypeDescribe = CHR ''D''"
definition MsgTypeExecute :: byte where "MsgTypeExecute = CHR ''E''"
definition MsgTypeSync :: byte where "MsgTypeSync = CHR ''S''"
definition MsgTypeFlush :: byte where "MsgTypeFlush = CHR ''H''"
definition MsgTypeClose :: byte where "MsgTypeClose = CHR ''C''"
definition MsgTypeTerminate :: byte where "MsgTypeTerminate = CHR ''X''"
definition MsgTypePasswordResponse :: byte where "MsgTypePasswordResponse = CHR ''p''"

text \<open>Backend message types.\<close>

definition MsgTypeAuth :: byte where "MsgTypeAuth = CHR ''R''"
definition MsgTypeBackendKeyData :: byte where "MsgTypeBackendKeyData = CHR ''K''"
definition MsgTypeParameterStatus :: byte where "MsgTypeParameterStatus = CHR ''S''"
definition MsgTypeReadyForQuery :: byte where "MsgTypeReadyForQuery = CHR ''Z''"
definition MsgTypeRowDescription :: byte where "MsgTypeRowDescription = CHR ''T''"
definition MsgTypeDataRow :: byte where "MsgTypeDataRow = CHR ''D''"
definition MsgTypeCommandComplete :: byte where "MsgTypeCommandComplete = CHR ''C''"
definition MsgTypeErrorResponse :: byte where "MsgTypeErrorResponse = CHR ''E''"
definition MsgTypeNoticeResponse :: byte where "MsgTypeNoticeResponse = CHR ''N''"
definition MsgTypeParseComplete :: byte where "MsgTypeParseComplete = CHR ''1''"
definition MsgTypeBindComplete :: byte where "MsgTypeBindComplete = CHR ''2''"
definition MsgTypeCloseComplete :: byte where "MsgTypeCloseComplete = CHR ''3''"
definition MsgTypeNoData :: byte where "MsgTypeNoData = CHR ''n''"
definition MsgTypeParameterDescription :: byte where "MsgTypeParameterDescription = CHR ''t''"
definition MsgTypeEmptyQueryResponse :: byte where "MsgTypeEmptyQueryResponse = CHR ''I''"

text \<open>Transaction status indicators of ReadyForQuery.\<close>

definition TxStatusIdle :: byte where "TxStatusIdle = CHR ''I''"
definition TxStatusInBlock :: byte where "TxStatusInBlock = CHR ''T''"
definition TxStatusFailedBlock :: byte where "TxStatusFailedBlock = CHR ''E''"

lemmas frontend_tags =
  MsgTypeQuery_def MsgTypeParse_def MsgTypeBind_def MsgTypeDescribe_def MsgTypeExecute_def
  MsgTypeSync_def MsgTypeFlush_def MsgTypeClose_def MsgTypeTerminate_def
  MsgTypePasswordResponse_def

lemmas backend_tags =
  MsgTypeAuth_def MsgTypeBackendKeyData_def MsgTypeParameterStatus_def MsgTypeReadyForQuery_def
  MsgTypeRowDescription_def MsgTypeDataRow_def MsgTypeCommandComplete_def
  MsgTypeErrorResponse_def MsgTypeNoticeResponse_def MsgTypeParseComplete_def
  MsgTypeBindComplete_def MsgTypeCloseComplete_def MsgTypeNoData_def
  MsgTypeParameterDescription_def MsgTypeEmptyQueryResponse_def

lemmas tx_status_defs = TxStatusIdle_def TxStatusInBlock_def TxStatusFailedBlock_def

text \<open>Data type OIDs.\<close>

definition OIDBool :: "32 word" where "OIDBool = 16"
definition OIDBytea :: "32 word" where "OIDBytea = 17"
definition OIDInt8 :: "32 word" where "OIDInt8 = 20"
definition OIDInt2 :: "32 word" where "OIDInt2 = 21"
definition OIDInt4 :: "32 word" where "OIDInt4 = 23"
definition OIDText :: "32 word" where "OIDText = 25"
definition OIDJSON :: "32 word" where "OIDJSON = 114"
definition OIDXML :: "32 word" where "OIDXML = 142"
definition OIDFloat4 :: "32 word" where "OIDFloat4 = 700"
definition OIDFloat8 :: "32 word" where "OIDFloat8 = 701"
definition OIDVarchar :: "32 word" where "OIDVarchar = 1043"
definition OIDDate :: "32 word" where "OIDDate = 1082"
definition OIDTime :: "32 word" where "OIDTime = 1083"
definition OIDTimestamp :: "32 word" where "OIDTimestamp = 1114"
definition OIDTimestamptz :: "32 word" where "OIDTimestamptz = 1184"
definition OIDInterval :: "32 word" where "OIDInterval = 1186"
definition OIDNumeric :: "32 word" where "OIDNumeric = 1700"
definition OIDUUID :: "32 word" where "OIDUUID = 2950"
definition OIDJSONB :: "32 word" where "OIDJSONB = 3802"

lemmas oid_defs =
  OIDBool_def OIDBytea_def OIDInt8_def OIDInt2_def OIDInt4_def OIDText_def OIDJSON_def OIDXML_def
  OIDFloat4_def OIDFloat8_def OIDVarchar_def OIDDate_def OIDTime_def OIDTimestamp_def
  OIDTimestamptz_def OIDInterval_def OIDNumeric_def OIDUUID_def OIDJSONB_def

definition FormatText :: "16 word" where "FormatText = 0"
definition FormatBinary :: "16 word" where "FormatBinary = 1"

text \<open>Field identifiers of ErrorResponse: the six that the writer uses, and the others of the protocol.\<close>

definition ErrorSeverityNonLocalized :: byte where "ErrorSeverityNonLocalized = CHR ''V''"
definition ErrorSeverity :: byte where "ErrorSeverity = CHR ''S''"
definition ErrorCode :: byte where "ErrorCode = CHR ''C''"
definition ErrorMessage :: byte where "ErrorMessage = CHR ''M''"
definition ErrorDetail :: byte where "ErrorDetail = CHR ''D''"
definition ErrorHint :: byte where "ErrorHint = CHR ''H''"

definition ErrorPosition :: byte where "ErrorPosition = CHR ''P''"
definition ErrorInternalPosition :: byte where "ErrorInternalPosition = CHR ''p''"
definition ErrorInternalQuery :: byte where "ErrorInternalQuery = CHR ''q''"
definition ErrorWhere :: byte where "ErrorWhere = CHR ''W''"
definition ErrorSchema :: byte where "ErrorSchema = CHR ''s''"
definition ErrorTable :: byte where "ErrorTable = CHR ''t''"
definition ErrorColumn :: byte where "ErrorColumn = CHR ''c''"
definition ErrorDataType :: byte where "ErrorDataType = CHR ''d''"
definition ErrorConstraint :: byte where "ErrorConstraint = CHR ''n''"
definition ErrorFile :: byte where "ErrorFile = CHR ''F''"
definition ErrorLine :: byte where "ErrorLine = CHR ''L''"
definition ErrorRoutine :: byte where "ErrorRoutine = CHR ''R''"

lemmas error_field_defs =
  ErrorSeverityNonLocalized_def ErrorSeverity_def ErrorCode_def ErrorMessage_def
  ErrorDetail_def ErrorHint_def
  ErrorPosition_def ErrorInternalPosition_def ErrorInternalQuery_def ErrorWhere_def ErrorSchema_def ErrorTable_def
  ErrorColumn_def ErrorDataType_def ErrorConstraint_def ErrorFile_def ErrorLine_def ErrorRoutine_def

lemma error_fields_distinct:
  "distinct [ErrorSeverityNonLocalized, ErrorSeverity, ErrorCode, ErrorMessage, ErrorDetail, ErrorHint, ErrorPosition,
     ErrorInternalPosition, ErrorInternalQuery, ErrorWhere, ErrorSchema, ErrorTable, ErrorColumn, ErrorDataType,
     ErrorConstraint, ErrorFile, ErrorLine, ErrorRoutine, NUL]"
  by (simp add: error_field_defs NUL_def)

section \<open>Messages\<close>

text \<open>A nil map is \<open>None\<close>; \<open>nil\<close> in a \<open>[][]byte\<close> stands for SQL NULL and is \<open>None\<close> too.\<close>

record StartupMessage =
  ProtocolVersion :: "32 word"
  Parameters :: "(bytes \<rightharpoonup> bytes) option"

definition lookup_string :: "(bytes \<rightharpoonup> bytes) \<Rightarrow> bytes \<Rightarrow> bytes" where
  "lookup_string m k = (case m k of None \<Rightarrow> [] | Some v \<Rightarrow> v)"

definition User :: "StartupMessage \<Rightarrow> bytes" where
  "User s = (case Parameters s of None \<Rightarrow> [] | Some m \<Rightarrow> lookup_string m ''user'')"

definition Database :: "StartupMessage \<Rightarrow> bytes" where
  "Database s = (case Parameters s of None \<Rightarrow> [] | Some m \<Rightarrow> lookup_string m ''database'')"

record QueryMessage =
  q_query :: bytes

record ParseMessage =
  p_statement :: bytes
  p_query :: bytes
  p_oids :: "32 word list"

record BindMessage =
  b_portal :: bytes
  b_statement :: bytes
  b_formats :: "16 word list"
  b_params :: "bytes option list"
  b_results :: "16 word list"

record DescribeMessage =
  d_target :: byte
  d_name :: bytes

record ExecuteMessage =
  e_portal :: bytes
  e_max_rows :: "32 word"

record CloseMessage =
  c_target :: byte
  c_name :: bytes

record FieldDescription =
  f_name :: bytes
  f_table_oid :: "32 word"
  f_attr :: "16 word"
  f_type_oid :: "32 word"
  f_type_size :: "16 word"
  f_type_mod :: "32 word"
  f_format :: "16 word"

definition DefaultTypeSize :: "32 word \<Rightarrow> 16 word" where
  "DefaultTypeSize oid =
     (if oid = OIDBool then 1
      else if oid = OIDInt2 then 2
      else if oid = OIDInt4 \<or> oid = OIDFloat4 then 4
      else if oid = OIDInt8 \<or> oid = OIDFloat8 \<or> oid = OIDTimestamp \<or> oid = OIDTimestamptz then 8
      else if oid = OIDUUID then 16
      else - 1)"

record ErrorField =
  ef_type :: byte
  ef_value :: bytes

record ErrorResponse =
  er_severity :: bytes
  er_code :: bytes
  er_message :: bytes
  er_detail :: bytes
  er_hint :: bytes

end
