(* ===== verification/Wire_Reader.thy ===== *)
theory Wire_Reader
  imports Wire_Types
begin

text \<open>
  The readers of \<open>internal/protocol/reader.go\<close>.  A stream is the list of the bytes it will still
  deliver before its end; a reader returns what it read and the rest of the stream.  Counts and
  lengths that come from the client are signed words, as in the source, so that a negative length
  reaches \<open>make\<close> and panics there.
\<close>

section \<open>Errors\<close>

datatype read_error =
    EOF                          \<comment> \<open>\<open>io.EOF\<close>\<close>
  | UnexpectedEOF                \<comment> \<open>\<open>io.ErrUnexpectedEOF\<close>\<close>
  | ErrInvalidPacketSize
  | InvalidStartupSize "32 word"  \<comment> \<open>\<open>ErrInvalidPacketSize\<close> wrapped with the length\<close>
  | ErrUnsupportedProto "32 word" \<comment> \<open>wrapped with the code\<close>
  | EmptyDescribe
  | EmptyClose

type_synonym 'a read = "(read_error, 'a \<times> bytes) outcome"

fun error_text :: "read_error \<Rightarrow> bytes" where
  "error_text EOF = ''EOF''"
| "error_text UnexpectedEOF = ''unexpected EOF''"
| "error_text ErrInvalidPacketSize = ''invalid pgwire packet size''"
| "error_text (InvalidStartupSize n) = ''invalid pgwire packet size: packetLen='' @ Itoa (uint n)"
| "error_text (ErrUnsupportedProto c) = ''unsupported protocol version: code='' @ Itoa (uint c)"
| "error_text EmptyDescribe = ''empty describe payload''"
| "error_text EmptyClose = ''empty close payload''"

section \<open>Reading from a stream\<close>

text \<open>\<open>io.ReadFull\<close> into a buffer of \<open>n\<close> bytes.\<close>

definition read_full :: "nat \<Rightarrow> bytes \<Rightarrow> bytes read" where
  "read_full n s =
     (if n \<le> length s then Ret (take n s, drop n s)
      else if s = [] then Err EOF else Err UnexpectedEOF)"

text \<open>\<open>binary.Read\<close> of an \<open>int16\<close> or an \<open>int32\<close> in big-endian order.\<close>

definition read_int16 :: "bytes \<Rightarrow> 16 word read" where
  "read_int16 s = and_then (read_full 2 s) (\<lambda>(b, r). Ret (get_u16 b, r))"

definition read_int32 :: "bytes \<Rightarrow> 32 word read" where
  "read_int32 s = and_then (read_full 4 s) (\<lambda>(b, r). Ret (get_u32 b, r))"

fun readNullString :: "bytes \<Rightarrow> bytes read" where
  "readNullString [] = Err EOF"
| "readNullString (b # s) =
     (if b = NUL then Ret ([], s)
      else and_then (readNullString s) (\<lambda>(t, r). Ret (b # t, r)))"

text \<open>The loops \<open>for i := 0; i < n; i++\<close> that read one item per round.\<close>

fun read_seq :: "(bytes \<Rightarrow> 'a read) \<Rightarrow> nat \<Rightarrow> bytes \<Rightarrow> 'a list read" where
  "read_seq item 0 s = Ret ([], s)"
| "read_seq item (Suc n) s =
     and_then (item s) (\<lambda>(x, r). and_then (read_seq item n r) (\<lambda>(xs, r'). Ret (x # xs, r')))"

section \<open>Handshake and message header\<close>

function startup_params :: "bytes \<Rightarrow> (bytes \<rightharpoonup> bytes) \<Rightarrow> (bytes \<rightharpoonup> bytes)" where
  "startup_params buf m =
     (case IndexByte buf NUL of
        None \<Rightarrow> m
      | Some i \<Rightarrow>
          if i = 0 then m
          else let key = take i buf; buf' = drop (i + 1) buf in
            (case IndexByte buf' NUL of
               None \<Rightarrow> m
             | Some j \<Rightarrow> startup_params (drop (j + 1) buf') (m(key \<mapsto> take j buf'))))"
  by pat_completeness auto
termination
  by (relation "measure (\<lambda>(buf, m). length buf)") (auto, case_tac buf, auto)

declare startup_params.simps [simp del]

definition ReadStartupOrSSL :: "bytes \<Rightarrow> (bool \<times> StartupMessage option) read" where
  "ReadStartupOrSSL r =
     and_then (read_full 4 r) (\<lambda>(lenBuf, r).
       let packetLen = get_u32 lenBuf in
       if packetLen < 8 \<or> 10000 < packetLen then Err (InvalidStartupSize packetLen)
       else and_then (read_full 4 r) (\<lambda>(codeBuf, r).
         let cd = get_u32 codeBuf in
         if cd = SSLRequestCode then Ret ((True, None), r)
         else if cd \<noteq> ProtocolVersion3 then Err (ErrUnsupportedProto cd)
         else and_then (read_full (unat (packetLen - 8)) r) (\<lambda>(payload, r).
           Ret ((False, Some \<lparr>ProtocolVersion = cd,
                              Parameters = Some (startup_params payload Map.empty)\<rparr>), r))))"

definition ReadMessageHeader :: "bytes \<Rightarrow> (byte \<times> 32 word) read" where
  "ReadMessageHeader r =
     and_then (read_full 1 r) (\<lambda>(typeBuf, r).
       and_then (read_full 4 r) (\<lambda>(lenBuf, r).
         let rawLen = get_u32 lenBuf in
         if rawLen < 4 then Err ErrInvalidPacketSize
         else Ret ((hd typeBuf, rawLen - 4), r)))"

text \<open>\<open>make([]T, n)\<close> with a signed length panics when it is negative.\<close>

definition make_len :: "int \<Rightarrow> (read_error, nat) outcome" where
  "make_len n = (if n < 0 then Panic else Ret (nat n))"

section \<open>Payloads\<close>

definition ReadQuery :: "bytes \<Rightarrow> (read_error, QueryMessage) outcome" where
  "ReadQuery payload =
     (case IndexByte payload NUL of
        None \<Rightarrow> Ret \<lparr>q_query = payload\<rparr>
      | Some i \<Rightarrow> Ret \<lparr>q_query = take i payload\<rparr>)"

definition ReadParse :: "bytes \<Rightarrow> (read_error, ParseMessage) outcome" where
  "ReadParse payload =
     and_then (readNullString payload) (\<lambda>(stmtName, buf).
     and_then (readNullString buf) (\<lambda>(query, buf).
       case read_int16 buf of
         Err EOF \<Rightarrow> Ret \<lparr>p_statement = stmtName, p_query = query, p_oids = []\<rparr>
       | Err e \<Rightarrow> Err e
       | Panic \<Rightarrow> Panic
       | Ret (numParams, buf) \<Rightarrow>
           if 0 < sint numParams then
             and_then (read_seq read_int32 (nat (sint numParams)) buf) (\<lambda>(oids, buf).
               Ret \<lparr>p_statement = stmtName, p_query = query, p_oids = oids\<rparr>)
           else Ret \<lparr>p_statement = stmtName, p_query = query, p_oids = []\<rparr>))"

text \<open>One parameter of Bind: length -1 is NULL, any other negative length leaves the nil slot.\<close>

definition read_param :: "bytes \<Rightarrow> bytes option read" where
  "read_param buf =
     and_then (read_int32 buf) (\<lambda>(paramLen, buf).
       if sint paramLen = -1 then Ret (None, buf)
       else if 0 \<le> sint paramLen then
         and_then (read_full (nat (sint paramLen)) buf) (\<lambda>(val, buf). Ret (Some val, buf))
       else Ret (None, buf))"

text \<open>The result format codes: none when their count is missing, unreadable or not positive.\<close>

definition read_results :: "bytes \<Rightarrow> (read_error, 16 word list) outcome" where
  "read_results buf =
     (case read_int16 buf of
        Ret (numResultFormats, buf) \<Rightarrow>
          if 0 < sint numResultFormats then
            and_then (read_seq read_int16 (nat (sint numResultFormats)) buf) (\<lambda>(fs, buf). Ret fs)
          else Ret []
      | _ \<Rightarrow> Ret [])"

definition ReadBind :: "bytes \<Rightarrow> (read_error, BindMessage) outcome" where
  "ReadBind payload =
     and_then (readNullString payload) (\<lambda>(portalName, buf).
     and_then (readNullString buf) (\<lambda>(stmtName, buf).
     and_then (read_int16 buf) (\<lambda>(numFormats, buf).
     and_then (make_len (sint numFormats)) (\<lambda>nf.
     and_then (read_seq read_int16 nf buf) (\<lambda>(paramFormats, buf).
     and_then (read_int16 buf) (\<lambda>(numParams, buf).
     and_then (make_len (sint numParams)) (\<lambda>np.
     and_then (read_seq read_param np buf) (\<lambda>(params, buf).
     and_then (read_results buf) (\<lambda>fs.
       Ret \<lparr>b_portal = portalName, b_statement = stmtName, b_formats = paramFormats,
            b_params = params, b_results = fs\<rparr>)))))))))"

definition ReadDescribe :: "bytes \<Rightarrow> (read_error, DescribeMessage) outcome" where
  "ReadDescribe payload =
     (case payload of
        [] \<Rightarrow> Err EmptyDescribe
      | targetType # buf \<Rightarrow>
          and_then (readNullString buf) (\<lambda>(name, buf).
            Ret \<lparr>d_target = targetType, d_name = name\<rparr>))"

definition ReadExecute :: "bytes \<Rightarrow> (read_error, ExecuteMessage) outcome" where
  "ReadExecute payload =
     and_then (readNullString payload) (\<lambda>(portalName, buf).
       case read_int32 buf of
         Ret (maxRows, buf) \<Rightarrow> Ret \<lparr>e_portal = portalName, e_max_rows = maxRows\<rparr>
       | Err EOF \<Rightarrow> Ret \<lparr>e_portal = portalName, e_max_rows = 0\<rparr>
       | Err e \<Rightarrow> Err e
       | Panic \<Rightarrow> Panic)"

definition ReadClose :: "bytes \<Rightarrow> (read_error, CloseMessage) outcome" where
  "ReadClose payload =
     (case payload of
        [] \<Rightarrow> Err EmptyClose
      | targetType # buf \<Rightarrow>
          and_then (readNullString buf) (\<lambda>(name, buf).
            Ret \<lparr>c_target = targetType, c_name = name\<rparr>))"

section \<open>Items that are read back\<close>

text \<open>
  What the readers rely on, item by item: an item reader does not panic (\<open>item_reader\<close>), it reads
  back what the protocol writes for the item (\<open>wire_item\<close>), and it accepts nothing else
  (\<open>exact_item\<close>).  The loops of the readers inherit each law.
\<close>

locale item_reader =
  fixes get :: "bytes \<Rightarrow> 'a read"
  assumes no_panic: "get s \<noteq> Panic"
begin

lemma seq_no_panic: "read_seq get n s \<noteq> Panic"
  by (induction n arbitrary: s) (auto simp: outcome_simps no_panic)

lemma seq_length: "read_seq get n s = Ret (xs, rest) \<Longrightarrow> length xs = n"
  by (induction n arbitrary: s xs) (auto simp: outcome_simps)

end

locale wire_item = item_reader get for get :: "bytes \<Rightarrow> 'a read" +
  fixes put :: "'a \<Rightarrow> bytes" and ok :: "'a \<Rightarrow> bool"
  assumes get_put: "ok x \<Longrightarrow> get (put x @ rest) = Ret (x, rest)"
begin

lemma seq_get_put:
  "list_all ok xs \<Longrightarrow> read_seq get (length xs) (concat (map put xs) @ rest) = Ret (xs, rest)"
  by (induction xs) (simp_all add: get_put)

end

locale exact_item = wire_item +
  assumes put_get: "get s = Ret (x, rest) \<Longrightarrow> ok x \<and> s = put x @ rest"
begin

lemma seq_put_get:
  "read_seq get n s = Ret (xs, rest) \<Longrightarrow> list_all ok xs \<and> s = concat (map put xs) @ rest"
proof (induction n arbitrary: s xs)
  case 0
  then show ?case by simp
next
  case (Suc n)
  then obtain x r ys where "get s = Ret (x, r)" "read_seq get n r = Ret (ys, rest)" "xs = x # ys"
    by (auto simp: outcome_simps)
  with Suc.IH [of r ys] put_get [of s x r] show ?case by simp
qed

lemma get_iff: "get s = Ret (x, rest) \<longleftrightarrow> ok x \<and> s = put x @ rest"
  using get_put put_get by blast

end

definition cstr :: "bytes \<Rightarrow> bytes" where
  "cstr s = s @ [NUL]"

definition no_nul :: "bytes \<Rightarrow> bool" where
  "no_nul s \<longleftrightarrow> NUL \<notin> set s"

definition put_param :: "bytes option \<Rightarrow> bytes" where
  "put_param v = (case v of None \<Rightarrow> put_u32 (- 1) | Some b \<Rightarrow> put_u32 (len32 b) @ b)"

definition param_ok :: "bytes option \<Rightarrow> bool" where
  "param_ok v \<longleftrightarrow> (case v of None \<Rightarrow> True | Some b \<Rightarrow> length b < 2 ^ 31)"

lemma read_full_append [simp]: "length a = n \<Longrightarrow> read_full n (a @ r) = Ret (a, r)"
  by (auto simp: read_full_def)

lemma read_full_iff: "read_full n s = Ret (a, r) \<longleftrightarrow> length a = n \<and> s = a @ r"
  by (auto simp: read_full_def split: if_splits)

lemma read_full_no_panic [simp]: "read_full n s \<noteq> Panic"
  by (simp add: read_full_def)

interpretation int16_item: exact_item read_int16 put_u16 "\<lambda>_. True"
proof unfold_locales
  show "read_int16 s \<noteq> Panic" for s
    by (auto simp: read_int16_def outcome_simps split: prod.splits)
  show "read_int16 (put_u16 x @ rest) = Ret (x, rest)" for x rest
    by (simp add: read_int16_def)
  show "True \<and> s = put_u16 x @ rest" if "read_int16 s = Ret (x, rest)" for s x rest
    using that by (auto simp: read_int16_def outcome_simps read_full_iff put_get_u16)
qed

interpretation int32_item: exact_item read_int32 put_u32 "\<lambda>_. True"
proof unfold_locales
  show "read_int32 s \<noteq> Panic" for s
    by (auto simp: read_int32_def outcome_simps split: prod.splits)
  show "read_int32 (put_u32 x @ rest) = Ret (x, rest)" for x rest
    by (simp add: read_int32_def)
  show "True \<and> s = put_u32 x @ rest" if "read_int32 s = Ret (x, rest)" for s x rest
    using that by (auto simp: read_int32_def outcome_simps read_full_iff put_get_u32)
qed

lemma readNullString_cstr: "no_nul t \<Longrightarrow> readNullString (cstr t @ r) = Ret (t, r)"
  by (induction t) (auto simp: cstr_def no_nul_def)

lemma readNullString_inv: "readNullString s = Ret (t, r) \<Longrightarrow> no_nul t \<and> s = cstr t @ r"
  by (induction s arbitrary: t) (auto simp: outcome_simps cstr_def no_nul_def split: if_splits)

lemma readNullString_no_panic: "readNullString s \<noteq> Panic"
  by (induction s) (auto simp: outcome_simps)

interpretation string_item: exact_item readNullString cstr no_nul
  by unfold_locales
    (auto simp: readNullString_no_panic readNullString_cstr dest: readNullString_inv)

interpretation param_item: wire_item read_param put_param param_ok
proof unfold_locales
  show "read_param s \<noteq> Panic" for s
    by (auto simp: read_param_def outcome_simps int32_item.no_panic)
  show "read_param (put_param x @ rest) = Ret (x, rest)" if "param_ok x" for x rest
    using that
    by (cases x) (simp_all add: read_param_def put_param_def param_ok_def int32_item.get_put
        sint_len32)
qed

lemmas item_simps [wire_simps] =
  int16_item.get_put int32_item.get_put string_item.get_put param_item.get_put
  int16_item.seq_get_put int32_item.seq_get_put param_item.seq_get_put

lemmas never_panics =
  int16_item.no_panic int32_item.no_panic string_item.no_panic param_item.no_panic
  int16_item.seq_no_panic int32_item.seq_no_panic param_item.seq_no_panic

section \<open>Whole messages\<close>

text \<open>The payloads the protocol defines, as a client writes them.\<close>

definition encode_parse :: "ParseMessage \<Rightarrow> bytes" where
  "encode_parse m = cstr (p_statement m) @ cstr (p_query m) @
     put_u16 (len16 (p_oids m)) @ concat (map put_u32 (p_oids m))"

definition encode_bind :: "BindMessage \<Rightarrow> bytes" where
  "encode_bind m = cstr (b_portal m) @ cstr (b_statement m) @
     put_u16 (len16 (b_formats m)) @ concat (map put_u16 (b_formats m)) @
     put_u16 (len16 (b_params m)) @ concat (map put_param (b_params m)) @
     put_u16 (len16 (b_results m)) @ concat (map put_u16 (b_results m))"

definition parse_ok :: "ParseMessage \<Rightarrow> bool" where
  "parse_ok m \<longleftrightarrow> no_nul (p_statement m) \<and> no_nul (p_query m) \<and> length (p_oids m) < 2 ^ 15"

definition bind_ok :: "BindMessage \<Rightarrow> bool" where
  "bind_ok m \<longleftrightarrow> no_nul (b_portal m) \<and> no_nul (b_statement m) \<and> length (b_formats m) < 2 ^ 15 \<and>
     length (b_params m) < 2 ^ 15 \<and> list_all param_ok (b_params m) \<and> length (b_results m) < 2 ^ 15"

lemma read_int16_Nil: "read_int16 [] = Err EOF"
  by (simp add: read_int16_def read_full_def)

lemma read_int16_EOF: "read_int16 s = Err EOF \<longleftrightarrow> s = []"
  by (auto simp: read_int16_def read_full_def outcome_simps)

lemma ReadParse_strings:
  assumes "no_nul a" and "no_nul b"
  shows "ReadParse (cstr a @ cstr b @ tail) =
    (case read_int16 tail of
       Err EOF \<Rightarrow> Ret \<lparr>p_statement = a, p_query = b, p_oids = []\<rparr>
     | Err e \<Rightarrow> Err e
     | Panic \<Rightarrow> Panic
     | Ret (n, buf) \<Rightarrow>
         if 0 < sint n then
           and_then (read_seq read_int32 (nat (sint n)) buf) (\<lambda>(oids, buf).
             Ret \<lparr>p_statement = a, p_query = b, p_oids = oids\<rparr>)
         else Ret \<lparr>p_statement = a, p_query = b, p_oids = []\<rparr>)"
  using assms by (simp add: ReadParse_def string_item.get_put)

text \<open>
  C29. ReadParse returns a message exactly when the payload starts with the two strings of that
  message, followed by its parameter types behind their count; a missing count, or one that is
  not positive, means no types.  Bytes after the last type are ignored.
\<close>

theorem ReadParse_iff:
  "ReadParse payload = Ret m \<longleftrightarrow>
     no_nul (p_statement m) \<and> no_nul (p_query m) \<and>
     (\<exists>tail. payload = cstr (p_statement m) @ cstr (p_query m) @ tail \<and>
        (if p_oids m = []
         then tail = [] \<or> (\<exists>n rest. sint n \<le> 0 \<and> tail = put_u16 n @ rest)
         else \<exists>n rest. sint n = int (length (p_oids m)) \<and>
                tail = put_u16 n @ concat (map put_u32 (p_oids m)) @ rest))"
  (is "?L = ?R")
proof
  assume L: ?L
  then obtain a b r1 r2 where "readNullString payload = Ret (a, r1)" "readNullString r1 = Ret (b, r2)"
    unfolding ReadParse_def and_then_pair_Ret by blast
  then have ab: "no_nul a" "no_nul b" and pay: "payload = cstr a @ cstr b @ r2"
    by (auto simp: string_item.get_iff)
  show ?R
  proof (cases "read_int16 r2")
    case (Err e)
    with L have "e = EOF" "m = \<lparr>p_statement = a, p_query = b, p_oids = []\<rparr>"
      unfolding pay ReadParse_strings [OF ab] by (cases e; simp)+
    with Err ab pay show ?thesis by (simp add: read_int16_EOF)
  next
    case Panic
    then show ?thesis by (simp add: int16_item.no_panic)
  next
    case (Ret nr)
    then obtain n r3 where nr: "read_int16 r2 = Ret (n, r3)" and r2: "r2 = put_u16 n @ r3"
      by (cases nr) (auto simp: int16_item.get_iff)
    show ?thesis
    proof (cases "0 < sint n")
      case True
      with L nr obtain oids r4 where "read_seq read_int32 (nat (sint n)) r3 = Ret (oids, r4)"
        and m: "m = \<lparr>p_statement = a, p_query = b, p_oids = oids\<rparr>"
        unfolding pay ReadParse_strings [OF ab] by (auto simp: and_then_Ret_iff)
      then have "r3 = concat (map put_u32 oids) @ r4" "length oids = nat (sint n)"
        using int32_item.seq_put_get int32_item.seq_length by blast+
      with True m ab pay r2 show ?thesis by auto
    next
      case False
      with L nr have "m = \<lparr>p_statement = a, p_query = b, p_oids = []\<rparr>"
        unfolding pay ReadParse_strings [OF ab] by simp
      with False ab pay r2 show ?thesis by (auto simp: not_less)
    qed
  qed
next
  assume ?R
  then obtain tail where str: "no_nul (p_statement m)" "no_nul (p_query m)"
      "payload = cstr (p_statement m) @ cstr (p_query m) @ tail"
    and alt: "if p_oids m = []
         then tail = [] \<or> (\<exists>n rest. sint n \<le> 0 \<and> tail = put_u16 n @ rest)
         else \<exists>n rest. sint n = int (length (p_oids m)) \<and>
                tail = put_u16 n @ concat (map put_u32 (p_oids m)) @ rest"
    by blast
  show ?L
  proof (cases "tail = []")
    case True
    with alt have "p_oids m = []" by (auto split: if_splits)
    with True str show ?thesis
      using ReadParse_strings [of "p_statement m" "p_query m" "[]"] by (simp add: read_int16_Nil)
  next
    case False
    with alt obtain n rest where "tail = put_u16 n @ concat (map put_u32 (p_oids m)) @ rest"
      "if p_oids m = [] then sint n \<le> 0 else sint n = int (length (p_oids m))"
      by (auto split: if_splits)
    with str show ?thesis
      using int32_item.seq_get_put [of "p_oids m" rest]
      by (auto simp: ReadParse_strings int16_item.get_put split: if_splits)
  qed
qed

lemma ReadParse_iff_witness:
  "ReadParse (''s'' @ [NUL] @ ''q'' @ [NUL] @ put_u16 1 @ put_u32 23)
     = Ret \<lparr>p_statement = ''s'', p_query = ''q'', p_oids = [23]\<rparr>"
  by (rule ReadParse_iff [THEN iffD2])
     (auto simp: no_nul_def NUL_def cstr_def intro!: exI [where x = 1])

lemma read_results_no_panic: "read_results buf \<noteq> Panic"
  by (cases "read_int16 buf")
     (auto simp: read_results_def and_then_pair_Panic never_panics split: if_splits)

lemma read_results_put:
  "length fs < 2 ^ 15 \<Longrightarrow>
   read_results (put_u16 (len16 fs) @ concat (map put_u16 fs) @ rest) = Ret fs"
  using int16_item.seq_get_put [of fs rest]
  by (cases "fs = []") (simp_all add: read_results_def int16_item.get_put sint_len16)

lemma ReadBind_encoded: "bind_ok m \<Longrightarrow> ReadBind (encode_bind m @ rest) = Ret m"
  by (cases m)
     (simp add: bind_ok_def encode_bind_def ReadBind_def wire_simps sint_len16 make_len_def
       read_results_put)

lemma ReadParse_encoded: "parse_ok m \<Longrightarrow> ReadParse (encode_parse m @ rest) = Ret m"
  using int32_item.seq_get_put [of "p_oids m" rest]
  by (cases m; cases "p_oids m = []")
     (simp_all add: parse_ok_def encode_parse_def ReadParse_strings int16_item.get_put sint_len16)

text \<open>
  C28. ReadBind reads back every Bind message the protocol can express: portal, statement, format
  codes, parameters with NULL kept apart from the empty string, and result format codes.
\<close>

theorem ReadBind_encode:
  "bind_ok m \<Longrightarrow> ReadBind (encode_bind m @ rest) = Ret m"
  by (rule ReadBind_encoded)

lemma ReadBind_encode_witness:
  "ReadBind (encode_bind \<lparr>b_portal = ''p'', b_statement = ''s'', b_formats = [1],
      b_params = [Some ''42'', None, Some []], b_results = [0]\<rparr> @ []) =
   Ret \<lparr>b_portal = ''p'', b_statement = ''s'', b_formats = [1],
      b_params = [Some ''42'', None, Some []], b_results = [0]\<rparr>"
  by (rule ReadBind_encode) (simp add: bind_ok_def no_nul_def NUL_def param_ok_def)

lemma ReadBind_strings:
  assumes "no_nul a" and "no_nul b"
  shows "ReadBind (cstr a @ cstr b @ put_u16 n @ tail) = Panic \<longleftrightarrow>
    sint n < 0 \<or> (\<exists>fs k r. length fs = nat (sint n) \<and>
       tail = concat (map put_u16 fs) @ put_u16 k @ r \<and> sint k < 0)"
  (is "?L \<longleftrightarrow> ?R")
proof -
  have "?L \<longleftrightarrow> sint n < 0 \<or> (\<exists>fs r1 k r2. read_seq read_int16 (nat (sint n)) tail = Ret (fs, r1) \<and>
      read_int16 r1 = Ret (k, r2) \<and> sint k < 0)"
    using assms
    by (auto simp: ReadBind_def string_item.get_put int16_item.get_put make_len_def Let_def
        and_then_pair_Panic and_then_Panic_iff never_panics read_results_no_panic
        split: if_splits)
  also have "\<dots> \<longleftrightarrow> ?R"
  proof -
    have "(\<exists>r1 r2. read_seq read_int16 (nat (sint n)) tail = Ret (fs, r1) \<and> read_int16 r1 = Ret (k, r2))
      \<longleftrightarrow> (\<exists>r. length fs = nat (sint n) \<and> tail = concat (map put_u16 fs) @ put_u16 k @ r)" for fs k
      using int16_item.seq_length [of "nat (sint n)" tail fs]
        int16_item.seq_put_get [of "nat (sint n)" tail fs] int16_item.seq_get_put [of fs]
      by (auto simp: int16_item.get_iff)
    then show ?thesis by blast
  qed
  finally show ?thesis .
qed

text \<open>
  A Bind message panics (and so ends the whole server) exactly when one of its two counts, of
  parameter format codes or of parameters, is a negative 16-bit number.
\<close>

theorem ReadBind_panics_iff:
  "ReadBind payload = Panic \<longleftrightarrow>
     (\<exists>a b n tail. no_nul a \<and> no_nul b \<and> payload = cstr a @ cstr b @ put_u16 n @ tail \<and>
        (sint n < 0 \<or> (\<exists>fs k r. length fs = nat (sint n) \<and>
           tail = concat (map put_u16 fs) @ put_u16 k @ r \<and> sint k < 0)))"
  (is "?L \<longleftrightarrow> ?R")
proof
  assume L: ?L
  then obtain a r1 b r2 n tail where "readNullString payload = Ret (a, r1)"
      "readNullString r1 = Ret (b, r2)" "read_int16 r2 = Ret (n, tail)"
    by (auto simp: ReadBind_def and_then_pair_Panic never_panics)
  then have "no_nul a" "no_nul b" "payload = cstr a @ cstr b @ put_u16 n @ tail"
    by (auto simp: string_item.get_iff int16_item.get_iff)
  with L ReadBind_strings [of a b n tail] show ?R by blast
qed (use ReadBind_strings in blast)

text \<open>No other reader of a client message panics, whatever the bytes.\<close>

theorem other_readers_never_panic:
  "ReadStartupOrSSL s \<noteq> Panic \<and> ReadMessageHeader s \<noteq> Panic \<and> ReadQuery s \<noteq> Panic \<and>
   ReadParse s \<noteq> Panic \<and> ReadDescribe s \<noteq> Panic \<and> ReadExecute s \<noteq> Panic \<and> ReadClose s \<noteq> Panic"
  by (auto simp: ReadStartupOrSSL_def ReadMessageHeader_def ReadQuery_def ReadParse_def
      ReadDescribe_def ReadExecute_def ReadClose_def Let_def and_then_pair_Panic never_panics
      split: option.splits list.splits outcome.splits read_error.splits if_splits)

section \<open>Handshake\<close>

definition encode_startup :: "(bytes \<times> bytes) list \<Rightarrow> bytes" where
  "encode_startup ps =
     (let body = put_u32 ProtocolVersion3 @ concat (map (\<lambda>(k, v). cstr k @ cstr v) ps) @ [NUL]
      in put_u32 (word_of_nat (4 + length body)) @ body)"

definition startup_pair_ok :: "bytes \<times> bytes \<Rightarrow> bool" where
  "startup_pair_ok p \<longleftrightarrow> fst p \<noteq> [] \<and> no_nul (fst p) \<and> no_nul (snd p)"

lemma IndexByte_cstr: "no_nul s \<Longrightarrow> IndexByte (cstr s @ r) NUL = Some (length s)"
  by (induction s) (auto simp: cstr_def no_nul_def)

lemma take_drop_cstr: "take (length s) (cstr s @ r) = s" "drop (Suc (length s)) (cstr s @ r) = r"
  by (simp_all add: cstr_def)

lemma startup_params_pair:
  "startup_pair_ok (k, v) \<Longrightarrow>
   startup_params (cstr k @ cstr v @ r) m = startup_params r (m(k \<mapsto> v))"
  by (subst startup_params.simps)
     (simp add: startup_pair_ok_def IndexByte_cstr take_drop_cstr Let_def
       del: take_append drop_append)

lemma startup_params_end: "startup_params [NUL] m = m"
  by (subst startup_params.simps) simp

lemma startup_params_encoded:
  "list_all startup_pair_ok ps \<Longrightarrow>
   startup_params (concat (map (\<lambda>(k, v). cstr k @ cstr v) ps) @ [NUL]) m = m ++ map_of (rev ps)"
proof (induction ps arbitrary: m)
  case Nil
  then show ?case by (simp add: startup_params_end)
next
  case (Cons p ps)
  then show ?case by (cases p) (simp add: startup_params_pair map_add_def fun_eq_iff split: option.splits)
qed

text \<open>
  A startup packet of at most 10000 bytes is decoded to the parameters it lists (a later
  value of a repeated name wins), and the stream is left right after the packet.
\<close>

theorem ReadStartup_encode:
  assumes ok: "list_all startup_pair_ok ps" and size: "length (encode_startup ps) \<le> 10000"
  shows "ReadStartupOrSSL (encode_startup ps @ rest) =
    Ret ((False, Some \<lparr>ProtocolVersion = ProtocolVersion3, Parameters = Some (map_of (rev ps))\<rparr>),
         rest)"
proof -
  define pay where "pay = concat (map (\<lambda>(k, v). cstr k @ cstr v) ps) @ [NUL]"
  define len :: "32 word" where "len = word_of_nat (8 + length pay)"
  have enc: "encode_startup ps = put_u32 len @ put_u32 ProtocolVersion3 @ pay"
    by (simp add: encode_startup_def Let_def pay_def len_def)
  with size have bound: "length pay \<le> 9992" by simp
  then have "unat len = 8 + length pay"
    unfolding len_def by (intro unat_small_32) simp
  then have "\<not> len < 8" "\<not> 10000 < len" "unat (len - 8) = length pay"
    using bound by (simp_all add: word_less_nat_alt unat_sub_if')
  moreover have "ProtocolVersion3 \<noteq> SSLRequestCode"
    by (simp add: ProtocolVersion3_def SSLRequestCode_def)
  moreover have "startup_params pay Map.empty = map_of (rev ps)"
    using startup_params_encoded [OF ok] by (simp add: pay_def)
  ultimately show ?thesis
    by (simp add: enc ReadStartupOrSSL_def)
qed

lemma ReadStartup_encode_witness:
  "ReadStartupOrSSL (encode_startup [(''user'', ''postgres'')] @ []) =
    Ret ((False, Some \<lparr>ProtocolVersion = ProtocolVersion3,
                        Parameters = Some (map_of (rev [(''user'', ''postgres'')]))\<rparr>), [])"
  by (rule ReadStartup_encode)
     (simp_all add: startup_pair_ok_def no_nul_def NUL_def encode_startup_def cstr_def Let_def)

text \<open>
  Whatever the bytes, an accepted handshake packet is a prefix of the stream of at least 8 and
  at most 10000 bytes, and it is an SSL request exactly when no startup message comes with it.
\<close>

theorem ReadStartupOrSSL_bounds:
  assumes "ReadStartupOrSSL s = Ret ((ssl, msg), rest)"
  shows "\<exists>p. s = p @ rest \<and> 8 \<le> length p \<and> length p \<le> 10000 \<and> (ssl \<longleftrightarrow> msg = None)"
proof -
  obtain len r1 cd r2 where h: "s = len @ r1" "length len = 4" "r1 = cd @ r2" "length cd = 4"
    and lo: "\<not> get_u32 len < 8" and hi: "\<not> 10000 < get_u32 len"
    and body: "ssl \<and> msg = None \<and> rest = r2 \<or>
      (\<exists>pay. \<not> ssl \<and> msg \<noteq> None \<and> r2 = pay @ rest \<and> length pay = unat (get_u32 len - 8))"
    using assms
    by (auto simp: ReadStartupOrSSL_def Let_def and_then_pair_Ret read_full_iff split: if_splits)
  have "unat (get_u32 len - 8) = unat (get_u32 len) - 8" "unat (get_u32 len) \<le> 10000"
    using lo hi by (simp_all add: word_less_nat_alt unat_sub_if')
  with h body show ?thesis
    by (auto intro: exI [where x = "len @ cd"] exI [where x = "len @ cd @ _"])
qed

lemma ReadStartupOrSSL_bounds_witness:
  "\<exists>p. put_u32 8 @ put_u32 SSLRequestCode @ ''x'' = p @ ''x'' \<and> 8 \<le> length p \<and>
     length p \<le> 10000 \<and> (True \<longleftrightarrow> (None :: StartupMessage option) = None)"
  by (rule ReadStartupOrSSL_bounds) (simp add: ReadStartupOrSSL_def)

text \<open>
  A message header of type \<open>t\<close> and length field \<open>n\<close>: below 4 it is refused; otherwise the
  payload length is \<open>n - 4\<close>, which is negative as a Go \<open>int32\<close> exactly from \<open>2^31 + 4\<close> on.
\<close>

theorem ReadMessageHeader_cases:
  "ReadMessageHeader (t # put_u32 n @ rest) =
     (if uint n < 4 then Err ErrInvalidPacketSize else Ret ((t, n - 4), rest)) \<and>
   (4 \<le> uint n \<longrightarrow> (sint (n - 4) < 0 \<longleftrightarrow> 2 ^ 31 + 4 \<le> uint n))"
proof
  show "ReadMessageHeader (t # put_u32 n @ rest) =
     (if uint n < 4 then Err ErrInvalidPacketSize else Ret ((t, n - 4), rest))"
    using read_full_append [of "[t]" 1 "put_u32 n @ rest"]
    by (simp add: ReadMessageHeader_def word_less_def)
  show "4 \<le> uint n \<longrightarrow> (sint (n - 4) < 0 \<longleftrightarrow> 2 ^ 31 + 4 \<le> uint n)"
  proof
    assume n: "4 \<le> uint n"
    then have "uint (n - 4) = uint n - 4" by (simp add: uint_sub_if')
    then show "sint (n - 4) < 0 \<longleftrightarrow> 2 ^ 31 + 4 \<le> uint n"
      using sint_negative_iff [of "n - 4"] by linarith
  qed
qed

end
