(* ===== verification/Wire_Writer.thy ===== *)
theory Wire_Writer
  imports Wire_Reader
begin

text \<open>
  The writers of \<open>internal/protocol/writer.go\<close>.  A writer is the list of its \<open>w.Write\<close> calls, in
  order, each with the bytes it passes; the error of a failing connection is handled where the
  calls are made.  The locale \<open>backend_message\<close> is what every writer promises: one packet, a tag
  byte, a length that counts itself and the body, and the body.
\<close>

section \<open>The writers\<close>

definition packet_len :: "bytes \<Rightarrow> 32 word" where
  "packet_len body = word_of_nat (4 + length body)"

definition WriteSSLRefusal :: "bytes list" where
  "WriteSSLRefusal = [[CHR ''N'']]"

definition WriteAuthOK :: "bytes list" where
  "WriteAuthOK = [[MsgTypeAuth] @ put_u32 8 @ put_u32 0]"

definition WriteParameterStatus :: "bytes \<Rightarrow> bytes \<Rightarrow> bytes list" where
  "WriteParameterStatus name value =
     (let payloadLen = 4 + length name + 1 + length value + 1 in
      [[MsgTypeParameterStatus] @ put_u32 (word_of_nat payloadLen) @ name @ [NUL] @ value @ [NUL]])"

definition StandardParameters :: "(bytes \<times> bytes) list" where
  "StandardParameters =
     [(''server_version'', ''16.2 (PGWire-Mock)''),
      (''server_encoding'', ''UTF8''),
      (''client_encoding'', ''UTF8''),
      (''application_name'', ''pgwire-mock''),
      (''is_superuser'', ''on''),
      (''session_authorization'', ''postgres''),
      (''standard_conforming_strings'', ''on''),
      (''DateStyle'', ''ISO, MDY''),
      (''IntervalStyle'', ''postgres''),
      (''TimeZone'', ''UTC''),
      (''integer_datetimes'', ''on'')]"

text \<open>Go ranges over the map in any order: \<open>order\<close> is a permutation of the entries.\<close>

definition WriteStandardParameterStatuses :: "(bytes \<times> bytes) list \<Rightarrow> bytes list" where
  "WriteStandardParameterStatuses order = concat (map (\<lambda>(k, v). WriteParameterStatus k v) order)"

definition WriteBackendKeyData :: "32 word \<Rightarrow> 32 word \<Rightarrow> bytes list" where
  "WriteBackendKeyData pid secretKey =
     [[MsgTypeBackendKeyData] @ put_u32 12 @ put_u32 pid @ put_u32 secretKey]"

definition WriteReadyForQuery :: "byte \<Rightarrow> bytes list" where
  "WriteReadyForQuery txStatus =
     [[MsgTypeReadyForQuery, NUL, NUL, NUL, CHR 0x05, txStatus]]"

definition put_field :: "FieldDescription \<Rightarrow> bytes" where
  "put_field f = f_name f @ [NUL] @ put_u32 (f_table_oid f) @ put_u16 (f_attr f) @
     put_u32 (f_type_oid f) @ put_u16 (f_type_size f) @ put_u32 (f_type_mod f) @
     put_u16 (f_format f)"

definition row_description_body :: "FieldDescription list \<Rightarrow> bytes" where
  "row_description_body flds = put_u16 (len16 flds) @ concat (map put_field flds)"

definition WriteRowDescription :: "FieldDescription list \<Rightarrow> bytes list" where
  "WriteRowDescription flds =
     (let body = row_description_body flds in
      [[MsgTypeRowDescription] @ put_u32 (packet_len body), body])"

definition data_row_body :: "bytes option list \<Rightarrow> bytes" where
  "data_row_body values = put_u16 (len16 values) @
     concat (map (\<lambda>v. case v of None \<Rightarrow> put_u32 (- 1) | Some b \<Rightarrow> put_u32 (len32 b) @ b) values)"

definition WriteDataRow :: "bytes option list \<Rightarrow> bytes list" where
  "WriteDataRow values =
     (let body = data_row_body values in
      [[MsgTypeDataRow] @ put_u32 (packet_len body), body])"

definition WriteCommandComplete :: "bytes \<Rightarrow> bytes list" where
  "WriteCommandComplete tag =
     (let payloadLen = 4 + length tag + 1 in
      [[MsgTypeCommandComplete] @ put_u32 (word_of_nat payloadLen) @ tag @ [NUL]])"

definition WriteEmptyQueryResponse :: "bytes list" where
  "WriteEmptyQueryResponse = [[MsgTypeEmptyQueryResponse, NUL, NUL, NUL, CHR 0x04]]"

definition error_body :: "ErrorResponse \<Rightarrow> bytes" where
  "error_body resp =
     (let severity = (if er_severity resp = [] then ''ERROR'' else er_severity resp);
          sqlstate = (if er_code resp = [] then ''XX000'' else er_code resp)
      in [ErrorSeverity] @ severity @ [NUL] @
         [ErrorSeverityNonLocalized] @ severity @ [NUL] @
         [ErrorCode] @ sqlstate @ [NUL] @
         [ErrorMessage] @ er_message resp @ [NUL] @
         (if er_detail resp \<noteq> [] then [ErrorDetail] @ er_detail resp @ [NUL] else []) @
         (if er_hint resp \<noteq> [] then [ErrorHint] @ er_hint resp @ [NUL] else []) @
         [NUL])"

definition WriteErrorResponse :: "ErrorResponse \<Rightarrow> bytes list" where
  "WriteErrorResponse resp =
     (let body = error_body resp in
      [[MsgTypeErrorResponse] @ put_u32 (packet_len body), body])"

definition WriteParseComplete :: "bytes list" where
  "WriteParseComplete = [[MsgTypeParseComplete, NUL, NUL, NUL, CHR 0x04]]"

definition WriteBindComplete :: "bytes list" where
  "WriteBindComplete = [[MsgTypeBindComplete, NUL, NUL, NUL, CHR 0x04]]"

definition WriteCloseComplete :: "bytes list" where
  "WriteCloseComplete = [[MsgTypeCloseComplete, NUL, NUL, NUL, CHR 0x04]]"

definition WriteNoData :: "bytes list" where
  "WriteNoData = [[MsgTypeNoData, NUL, NUL, NUL, CHR 0x04]]"

definition param_description_body :: "32 word list \<Rightarrow> bytes" where
  "param_description_body paramOIDs = put_u16 (len16 paramOIDs) @ concat (map put_u32 paramOIDs)"

definition WriteParameterDescription :: "32 word list \<Rightarrow> bytes list" where
  "WriteParameterDescription paramOIDs =
     (let body = param_description_body paramOIDs in
      [[MsgTypeParameterDescription] @ put_u32 (packet_len body), body])"

section \<open>Packets\<close>

definition packet :: "byte \<Rightarrow> bytes \<Rightarrow> bytes" where
  "packet tag body = tag # put_u32 (packet_len body) @ body"

text \<open>Reading one packet the way a client does, and a whole stream of packets.\<close>

definition read_packet :: "bytes \<Rightarrow> (byte \<times> bytes) read" where
  "read_packet s =
     and_then (ReadMessageHeader s) (\<lambda>((t, n), r).
     and_then (read_full (unat n) r) (\<lambda>(b, r). Ret ((t, b), r)))"

lemma read_packet_shorter: "read_packet s = Ret (p, r) \<Longrightarrow> length r < length s"
  by (auto simp: read_packet_def ReadMessageHeader_def and_then_pair_Ret read_full_iff Let_def
      split: if_splits)

function read_stream :: "bytes \<Rightarrow> (byte \<times> bytes) list option" where
  "read_stream s =
     (if s = [] then Some []
      else case read_packet s of
        Ret (p, r) \<Rightarrow> map_option (\<lambda>ps. p # ps) (read_stream r)
      | _ \<Rightarrow> None)"
  by pat_completeness auto
termination
  by (relation "measure length") (auto dest: read_packet_shorter)

declare read_stream.simps [simp del]

locale backend_message =
  fixes wr :: "'m \<Rightarrow> bytes list" and tag :: byte and body :: "'m \<Rightarrow> bytes"
  assumes framed: "concat (wr m) = packet tag (body m)"
begin

lemma size: "length (concat (wr m)) = 5 + length (body m)"
  by (simp add: framed packet_def)

lemma not_Nil: "concat (wr m) \<noteq> []"
  by (simp add: framed packet_def)

text \<open>The program's own header reader finds the tag and the length of the body.\<close>

lemma header_read_back:
  assumes "length (body m) < 2 ^ 32 - 4"
  shows "ReadMessageHeader (concat (wr m) @ rest) =
    Ret ((tag, word_of_nat (length (body m))), body m @ rest)"
proof -
  have "uint (packet_len (body m)) = 4 + int (length (body m))"
    using assms unat_small_32 [of "4 + length (body m)"]
    by (simp add: packet_len_def uint_nat)
  then have "\<not> uint (packet_len (body m)) < 4" by simp
  then show ?thesis
    using ReadMessageHeader_cases [of tag "packet_len (body m)" "body m @ rest"]
    by (simp add: framed packet_def packet_len_def)
qed

lemma read_back:
  assumes "length (body m) < 2 ^ 32 - 4"
  shows "read_packet (concat (wr m) @ rest) = Ret ((tag, body m), rest)"
  using header_read_back [OF assms, of rest] assms unat_small_32 [of "length (body m)"]
  by (simp add: read_packet_def)

end

lemma small_packets: "put_u32 4 = [NUL, NUL, NUL, CHR 0x04]" "put_u32 5 = [NUL, NUL, NUL, CHR 0x05]"
  by (simp_all add: put_u32_def be_eval NUL_def)

interpretation auth_ok: backend_message "\<lambda>_. WriteAuthOK" MsgTypeAuth "\<lambda>_. put_u32 0"
  by unfold_locales (simp add: WriteAuthOK_def packet_def packet_len_def)

interpretation parameter_status:
  backend_message "\<lambda>(k, v). WriteParameterStatus k v" MsgTypeParameterStatus
    "\<lambda>(k, v). cstr k @ cstr v"
  by unfold_locales (auto simp: WriteParameterStatus_def packet_def packet_len_def cstr_def
      Let_def algebra_simps)

interpretation backend_key_data:
  backend_message "\<lambda>(pid, key). WriteBackendKeyData pid key" MsgTypeBackendKeyData
    "\<lambda>(pid, key). put_u32 pid @ put_u32 key"
  by unfold_locales (auto simp: WriteBackendKeyData_def packet_def packet_len_def)

interpretation ready_for_query:
  backend_message WriteReadyForQuery MsgTypeReadyForQuery "\<lambda>tx. [tx]"
  by unfold_locales (simp add: WriteReadyForQuery_def packet_def packet_len_def small_packets)

interpretation row_description:
  backend_message WriteRowDescription MsgTypeRowDescription row_description_body
  by unfold_locales (simp add: WriteRowDescription_def packet_def Let_def)

interpretation data_row: backend_message WriteDataRow MsgTypeDataRow data_row_body
  by unfold_locales (simp add: WriteDataRow_def packet_def Let_def)

interpretation command_complete: backend_message WriteCommandComplete MsgTypeCommandComplete cstr
  by unfold_locales (simp add: WriteCommandComplete_def packet_def packet_len_def cstr_def Let_def
      algebra_simps)

interpretation error_response:
  backend_message WriteErrorResponse MsgTypeErrorResponse error_body
  by unfold_locales (simp add: WriteErrorResponse_def packet_def Let_def)

interpretation parameter_description:
  backend_message WriteParameterDescription MsgTypeParameterDescription param_description_body
  by unfold_locales (simp add: WriteParameterDescription_def packet_def Let_def)

interpretation empty_query:
  backend_message "\<lambda>_. WriteEmptyQueryResponse" MsgTypeEmptyQueryResponse "\<lambda>_. []"
  by unfold_locales (simp add: WriteEmptyQueryResponse_def packet_def packet_len_def small_packets)

interpretation parse_complete:
  backend_message "\<lambda>_. WriteParseComplete" MsgTypeParseComplete "\<lambda>_. []"
  by unfold_locales (simp add: WriteParseComplete_def packet_def packet_len_def small_packets)

interpretation bind_complete:
  backend_message "\<lambda>_. WriteBindComplete" MsgTypeBindComplete "\<lambda>_. []"
  by unfold_locales (simp add: WriteBindComplete_def packet_def packet_len_def small_packets)

interpretation close_complete:
  backend_message "\<lambda>_. WriteCloseComplete" MsgTypeCloseComplete "\<lambda>_. []"
  by unfold_locales (simp add: WriteCloseComplete_def packet_def packet_len_def small_packets)

interpretation no_data: backend_message "\<lambda>_. WriteNoData" MsgTypeNoData "\<lambda>_. []"
  by unfold_locales (simp add: WriteNoData_def packet_def packet_len_def small_packets)

lemmas framed_packets =
  auth_ok.framed parameter_status.framed backend_key_data.framed ready_for_query.framed
  row_description.framed data_row.framed command_complete.framed error_response.framed
  parameter_description.framed empty_query.framed parse_complete.framed bind_complete.framed
  close_complete.framed no_data.framed

section \<open>What a client reads back\<close>

text \<open>
  The client's side of the wire format: the value list of a DataRow, a column of a RowDescription
  and the fields of an ErrorResponse.
\<close>

definition decode_data_row :: "bytes \<Rightarrow> bytes option list read" where
  "decode_data_row b = and_then (read_int16 b) (\<lambda>(n, r). read_seq read_param (nat (sint n)) r)"

definition read_field :: "bytes \<Rightarrow> FieldDescription read" where
  "read_field s =
     and_then (readNullString s) (\<lambda>(name, s).
     and_then (read_int32 s) (\<lambda>(table, s).
     and_then (read_int16 s) (\<lambda>(attr, s).
     and_then (read_int32 s) (\<lambda>(oid, s).
     and_then (read_int16 s) (\<lambda>(size, s).
     and_then (read_int32 s) (\<lambda>(tmod, s).
     and_then (read_int16 s) (\<lambda>(format, s).
       Ret (\<lparr>f_name = name, f_table_oid = table, f_attr = attr, f_type_oid = oid,
             f_type_size = size, f_type_mod = tmod, f_format = format\<rparr>, s))))))))"

definition decode_row_description :: "bytes \<Rightarrow> FieldDescription list read" where
  "decode_row_description b =
     and_then (read_int16 b) (\<lambda>(n, r). read_seq read_field (nat (sint n)) r)"

function decode_error_fields :: "bytes \<Rightarrow> (byte \<times> bytes) list option" where
  "decode_error_fields s =
     (case s of [] \<Rightarrow> None
      | t # r \<Rightarrow> if t = NUL then (if r = [] then Some [] else None)
        else (case IndexByte r NUL of None \<Rightarrow> None
          | Some i \<Rightarrow> map_option (\<lambda>fs. (t, take i r) # fs) (decode_error_fields (drop (Suc i) r))))"
  by pat_completeness auto
termination
  by (relation "measure length") auto

declare decode_error_fields.simps [simp del]

interpretation field_item: wire_item read_field put_field "\<lambda>f. no_nul (f_name f)"
proof unfold_locales
  show "read_field s \<noteq> Panic" for s
    by (auto simp: read_field_def and_then_pair_Panic never_panics)
  show "read_field (put_field x @ rest) = Ret (x, rest)" if "no_nul (f_name x)" for x rest
    using that string_item.get_put [of "f_name x", unfolded cstr_def]
    by (cases x) (simp add: read_field_def put_field_def wire_simps)
qed

definition data_row_ok :: "bytes option list \<Rightarrow> bool" where
  "data_row_ok vs \<longleftrightarrow> length vs < 2 ^ 15 \<and> list_all param_ok vs \<and>
     length (data_row_body vs) < 2 ^ 32 - 4"

lemma data_row_body_params:
  "data_row_body vs = put_u16 (len16 vs) @ concat (map put_param vs)"
proof -
  have "(\<lambda>v. case v of None \<Rightarrow> put_u32 (- 1) | Some b \<Rightarrow> put_u32 (len32 b) @ b) = put_param"
    by (auto simp: put_param_def fun_eq_iff)
  then show ?thesis by (simp only: data_row_body_def)
qed

text \<open>
  C30. A client that reads the packet WriteDataRow writes gets the row back: every column value, with
  NULL and the empty string told apart, and the stream after the packet untouched.
\<close>

theorem WriteDataRow_read_back:
  assumes "data_row_ok vs"
  shows "read_packet (concat (WriteDataRow vs) @ rest) = Ret ((MsgTypeDataRow, data_row_body vs), rest) \<and>
    decode_data_row (data_row_body vs) = Ret (vs, [])"
  using assms data_row.read_back [of vs rest] param_item.seq_get_put [of vs "[]"]
  by (simp add: data_row_ok_def data_row_body_params decode_data_row_def int16_item.get_put sint_len16)

lemma WriteDataRow_read_back_witness:
  "read_packet (concat (WriteDataRow [Some ''42'', None, Some []]) @ ''Z'') =
     Ret ((MsgTypeDataRow, data_row_body [Some ''42'', None, Some []]), ''Z'') \<and>
   decode_data_row (data_row_body [Some ''42'', None, Some []]) = Ret ([Some ''42'', None, Some []], [])"
  by (rule WriteDataRow_read_back) (simp add: data_row_ok_def param_ok_def data_row_body_def)

text \<open>The same for the columns of a RowDescription.\<close>

theorem WriteRowDescription_read_back:
  assumes "length fs < 2 ^ 15" and "list_all (\<lambda>f. no_nul (f_name f)) fs"
    and "length (row_description_body fs) < 2 ^ 32 - 4"
  shows "read_packet (concat (WriteRowDescription fs) @ rest) =
      Ret ((MsgTypeRowDescription, row_description_body fs), rest) \<and>
    decode_row_description (row_description_body fs) = Ret (fs, [])"
  using assms row_description.read_back [of fs rest] field_item.seq_get_put [of fs "[]"]
  by (simp add: row_description_body_def decode_row_description_def int16_item.get_put sint_len16)

lemma WriteRowDescription_read_back_witness:
  "read_packet (concat (WriteRowDescription
      [\<lparr>f_name = ''id'', f_table_oid = 0, f_attr = 1, f_type_oid = 23, f_type_size = 4,
        f_type_mod = - 1, f_format = 0\<rparr>]) @ []) =
      Ret ((MsgTypeRowDescription, row_description_body
      [\<lparr>f_name = ''id'', f_table_oid = 0, f_attr = 1, f_type_oid = 23, f_type_size = 4,
        f_type_mod = - 1, f_format = 0\<rparr>]), []) \<and>
    decode_row_description (row_description_body
      [\<lparr>f_name = ''id'', f_table_oid = 0, f_attr = 1, f_type_oid = 23, f_type_size = 4,
        f_type_mod = - 1, f_format = 0\<rparr>]) =
      Ret ([\<lparr>f_name = ''id'', f_table_oid = 0, f_attr = 1, f_type_oid = 23, f_type_size = 4,
        f_type_mod = - 1, f_format = 0\<rparr>], [])"
  by (rule WriteRowDescription_read_back)
     (simp_all add: no_nul_def NUL_def row_description_body_def put_field_def)

lemma decode_error_field:
  "t \<noteq> NUL \<Longrightarrow> no_nul v \<Longrightarrow>
   decode_error_fields (t # v @ NUL # r) = map_option (\<lambda>fs. (t, v) # fs) (decode_error_fields r)"
  using IndexByte_cstr [of v r] take_drop_cstr [of v r]
  by (simp add: decode_error_fields.simps [of "t # v @ NUL # r"] cstr_def)

lemma decode_error_end: "decode_error_fields [NUL] = Some []"
  by (simp add: decode_error_fields.simps)

text \<open>
  The fields a client finds in an ErrorResponse packet: severity (twice, \<open>ERROR\<close> when the rule
  gives none), SQLSTATE (\<open>XX000\<close> when it gives none), message, and detail and hint when present.
\<close>

theorem WriteErrorResponse_fields:
  assumes "no_nul (er_severity e)" "no_nul (er_code e)" "no_nul (er_message e)"
    "no_nul (er_detail e)" "no_nul (er_hint e)" and "length (error_body e) < 2 ^ 32 - 4"
  shows "read_packet (concat (WriteErrorResponse e) @ rest) =
      Ret ((MsgTypeErrorResponse, error_body e), rest) \<and>
    decode_error_fields (error_body e) =
      (let sev = (if er_severity e = [] then ''ERROR'' else er_severity e);
           st = (if er_code e = [] then ''XX000'' else er_code e)
       in Some ([(ErrorSeverity, sev), (ErrorSeverityNonLocalized, sev), (ErrorCode, st),
                 (ErrorMessage, er_message e)] @
                (if er_detail e = [] then [] else [(ErrorDetail, er_detail e)]) @
                (if er_hint e = [] then [] else [(ErrorHint, er_hint e)])))"
proof -
  have "ErrorSeverity \<noteq> NUL" "ErrorSeverityNonLocalized \<noteq> NUL" "ErrorCode \<noteq> NUL"
    "ErrorMessage \<noteq> NUL" "ErrorDetail \<noteq> NUL" "ErrorHint \<noteq> NUL"
    "no_nul ''ERROR''" "no_nul ''XX000''"
    by (simp_all add: error_field_defs NUL_def no_nul_def)
  then show ?thesis
    using assms error_response.read_back [of e rest]
    by (simp add: error_body_def Let_def decode_error_field decode_error_end
        decode_error_field [of _ "''ERROR''", simplified] decode_error_field [of _ "''XX000''", simplified])
qed

lemma WriteErrorResponse_fields_witness:
  "decode_error_fields (error_body \<lparr>er_severity = [], er_code = ''42P01'', er_message = ''m'',
      er_detail = [], er_hint = ''h''\<rparr>) =
    Some [(ErrorSeverity, ''ERROR''), (ErrorSeverityNonLocalized, ''ERROR''), (ErrorCode, ''42P01''),
          (ErrorMessage, ''m''), (ErrorHint, ''h'')]"
  using WriteErrorResponse_fields [of "\<lparr>er_severity = [], er_code = ''42P01'', er_message = ''m'',
      er_detail = [], er_hint = ''h''\<rparr>" "[]"]
  by (simp add: no_nul_def NUL_def error_body_def Let_def)

end
