(* ===== verification/Wire_Binary.thy ===== *)
theory Wire_Binary
  imports Wire_Reader
begin

text \<open>
  \<open>internal/protocol/binary.go\<close>: a text value in PostgreSQL's binary format for its type.  Floating
  point numerals and calendar layouts are read by the standard library (fields \<open>parse_f32\<close>,
  \<open>parse_f64\<close> and \<open>parse_time\<close> of \<open>go_rt\<close>); everything else is computed here.
\<close>

text \<open>Unix nanoseconds of \<open>2000-01-01 00:00:00 UTC\<close>, and \<open>Time.Sub\<close>, which saturates.\<close>

definition pgEpoch :: int where
  "pgEpoch = 946684800 * 10 ^ 9"

definition time_sub :: "int \<Rightarrow> int \<Rightarrow> int" where
  "time_sub t u = max (- (2 ^ 63)) (min (2 ^ 63 - 1) (t - u))"

text \<open>Go's integer division, and the conversion of a float to an integer, drop the fraction.\<close>

definition trunc_div :: "int \<Rightarrow> int \<Rightarrow> int" where
  "trunc_div a b = sgn a * (\<bar>a\<bar> div b)"

text \<open>\<open>hex.DecodeString\<close>.\<close>

definition hex_value :: "byte \<Rightarrow> int option" where
  "hex_value c =
     (let n = code c in
      if 48 \<le> n \<and> n \<le> 57 then Some (n - 48)
      else if 97 \<le> n \<and> n \<le> 102 then Some (n - 87)
      else if 65 \<le> n \<and> n \<le> 70 then Some (n - 55)
      else None)"

fun hex_decode :: "bytes \<Rightarrow> bytes option" where
  "hex_decode [] = Some []"
| "hex_decode [c] = None"
| "hex_decode (c # d # s) =
     (case (hex_value c, hex_value d, hex_decode s) of
        (Some a, Some b, Some r) \<Rightarrow> Some (byte_of (16 * a + b) # r)
      | _ \<Rightarrow> None)"

definition timestamp_layouts :: "bytes list" where
  "timestamp_layouts =
     [''2006-01-02 15:04:05.999999-07'',
      ''2006-01-02 15:04:05.999999+00'',
      ''2006-01-02 15:04:05.999999'',
      ''2006-01-02 15:04:05'',
      ''2006-01-02T15:04:05Z07:00'']"

fun try_layouts :: "go_rt \<Rightarrow> bytes list \<Rightarrow> bytes \<Rightarrow> int option" where
  "try_layouts rt [] s = None"
| "try_layouts rt (l # ls) s =
     (case parse_time rt l s of Some t \<Rightarrow> Some t | None \<Rightarrow> try_layouts rt ls s)"

definition EncodeBinaryValue :: "go_rt \<Rightarrow> 32 word \<Rightarrow> bytes \<Rightarrow> bytes" where
  "EncodeBinaryValue rt oid textVal =
     (if oid = OIDBool then
        (let lower = ToLower rt (TrimSpace textVal) in
         if lower = ''true'' \<or> lower = ''t'' \<or> lower = ''1'' \<or> lower = ''yes''
         then [CHR 0x01] else [CHR 0x00])
      else if oid = OIDInt2 then
        (case ParseInt 16 (TrimSpace textVal) of
           None \<Rightarrow> textVal | Some n \<Rightarrow> put_u16 (word_of_int n))
      else if oid = OIDInt4 then
        (case ParseInt 32 (TrimSpace textVal) of
           None \<Rightarrow> textVal | Some n \<Rightarrow> put_u32 (word_of_int n))
      else if oid = OIDInt8 then
        (case ParseInt 64 (TrimSpace textVal) of
           None \<Rightarrow> textVal | Some n \<Rightarrow> put_u64 (word_of_int n))
      else if oid = OIDFloat4 then
        (case parse_f32 rt (TrimSpace textVal) of None \<Rightarrow> textVal | Some b \<Rightarrow> put_u32 b)
      else if oid = OIDFloat8 then
        (case parse_f64 rt (TrimSpace textVal) of None \<Rightarrow> textVal | Some b \<Rightarrow> put_u64 b)
      else if oid = OIDBytea then
        (let trimmed = TrimSpace textVal in
         if HasPrefix trimmed [CHR 0x5C, CHR ''x''] then
           (case hex_decode (drop 2 trimmed) of Some decoded \<Rightarrow> decoded | None \<Rightarrow> textVal)
         else textVal)
      else if oid = OIDDate then
        (case parse_time rt ''2006-01-02'' (TrimSpace textVal) of
           Some t \<Rightarrow>
             (let days = word_of_int (trunc_div (time_sub t pgEpoch) (86400 * 10 ^ 9))
              in put_u32 days)
         | None \<Rightarrow> textVal)
      else if oid = OIDTimestamp \<or> oid = OIDTimestamptz then
        (case try_layouts rt timestamp_layouts (TrimSpace textVal) of
           Some t \<Rightarrow>
             (let micros = trunc_div (time_sub t pgEpoch) 1000 in put_u64 (word_of_int micros))
         | None \<Rightarrow> textVal)
      else textVal)"

section \<open>Properties\<close>

lemma sint_of_int_64: "- (2 ^ 63) \<le> k \<Longrightarrow> k < 2 ^ 63 \<Longrightarrow> sint (word_of_int k :: 64 word) = k"
  by (simp add: signed_of_int signed_take_bit_int_eq_self)

lemma digit_not_space: "is_digit c \<Longrightarrow> \<not> is_space c \<and> code c < 128"
  by (auto simp: is_digit_def is_space_def)

lemma digits_show_digits: "0 \<le> n \<Longrightarrow> list_all is_digit (show_digits n)"
proof (induction n rule: show_digits.induct)
  case (1 n)
  then show ?case
    using digit_is_digit [of n] digit_is_digit [of "n mod 10"]
    by (cases "n < 10") (simp_all add: show_digits.simps [of n])
qed

lemma visible_Itoa: "list_all visible (Itoa n)"
proof -
  have "list_all visible (show_digits k)" if "0 \<le> k" for k
    using digits_show_digits [OF that] by (auto simp: list_all_iff visible_def dest: digit_not_space)
  then show ?thesis by (simp add: Itoa_def) (simp add: visible_def is_space_def)
qed

lemma TrimSpace_visible:
  assumes "list_all visible s" and "s \<noteq> []" and "list_all is_space v" and "list_all is_space w"
  shows "TrimSpace (v @ s @ w) = s"
proof (rule TrimSpace_surround)
  show "space_len s = 0"
    using assms(1,2) by (cases s) (simp_all add: space_len_visible del: space_len.simps)
  show "space_len_rev (rev s) = 0"
    using assms(1,2) by (cases s rule: rev_cases) (simp_all add: space_len_visible del: space_len_rev.simps)
qed (use assms in auto)

lemma Itoa_nonempty [simp]: "Itoa n \<noteq> []"
  by (simp add: Itoa_def)

text \<open>
  A decimal numeral in range, with any ASCII white space around it, becomes the big-endian two's
  complement integer of the width of its type, and is read back as the number it denotes.
\<close>

theorem EncodeBinaryValue_integers:
  assumes "list_all is_space v" and "list_all is_space w"
  shows "(in_range 16 n \<longrightarrow> (let b = EncodeBinaryValue rt OIDInt2 (v @ Itoa n @ w)
            in length b = 2 \<and> sint (get_u16 b) = n)) \<and>
         (in_range 32 n \<longrightarrow> (let b = EncodeBinaryValue rt OIDInt4 (v @ Itoa n @ w)
            in length b = 4 \<and> sint (get_u32 b) = n)) \<and>
         (in_range 64 n \<longrightarrow> (let b = EncodeBinaryValue rt OIDInt8 (v @ Itoa n @ w)
            in length b = 8 \<and> sint (get_u64 b) = n))"
proof -
  have t: "TrimSpace (v @ Itoa n @ w) = Itoa n"
    by (rule TrimSpace_visible [OF visible_Itoa Itoa_nonempty assms])
  show ?thesis
    using sint_of_int_16 [of n] sint_of_int_32 [of n] sint_of_int_64 [of n]
    by (auto simp: EncodeBinaryValue_def oid_defs t ParseInt_Itoa Let_def)
       (auto simp: in_range_def)
qed

lemma EncodeBinaryValue_integers_witness:
  "sint (get_u32 (EncodeBinaryValue ascii_rt OIDInt4 ('' '' @ Itoa (-123456) @ []))) = -123456"
  using EncodeBinaryValue_integers [of "'' ''" "[]" "-123456" ascii_rt]
  by (simp add: is_space_def in_range_def Let_def)

lemma hex_value_digit: "0 \<le> d \<Longrightarrow> d < 16 \<Longrightarrow> hex_value (hex_digit d) = Some d"
  by (auto simp: hex_value_def hex_digit_def Let_def)

definition hex_encode :: "bytes \<Rightarrow> bytes" where
  "hex_encode bs = concat (map (\<lambda>c. [hex_digit (code c div 16), hex_digit (code c mod 16)]) bs)"

lemma hex_decode_encode: "hex_decode (hex_encode bs) = Some bs"
proof (induction bs)
  case Nil
  then show ?case by (simp add: hex_encode_def)
next
  case (Cons c bs)
  have "code c div 16 < 16" "0 \<le> code c div 16"
    using code_bounds [of c] by linarith+
  then have "hex_value (hex_digit (code c div 16)) = Some (code c div 16)"
    "hex_value (hex_digit (code c mod 16)) = Some (code c mod 16)"
    by (simp_all add: hex_value_digit)
  moreover have "byte_of (16 * (code c div 16) + code c mod 16) = c"
    by simp
  ultimately show ?case using Cons by (simp add: hex_encode_def)
qed

lemma visible_hex_encode: "list_all visible (hex_encode bs)"
proof -
  have "visible (hex_digit d)" if "0 \<le> d" "d < 16" for d
    using that by (auto simp: visible_def hex_digit_def is_space_def)
  moreover have "0 \<le> code c div 16" "code c div 16 < 16" for c :: byte
    using code_bounds [of c] by linarith+
  ultimately show ?thesis
    by (induction bs) (simp_all add: hex_encode_def)
qed

text \<open>A \<open>bytea\<close> written as \<open>\x\<close> and hexadecimal digits is sent as the bytes it denotes.\<close>

theorem EncodeBinaryValue_bytea:
  assumes "list_all is_space v" and "list_all is_space w"
  shows "EncodeBinaryValue rt OIDBytea (v @ [CHR 0x5C, CHR ''x''] @ hex_encode bs @ w) = bs"
proof -
  have "TrimSpace (v @ ([CHR 0x5C, CHR ''x''] @ hex_encode bs) @ w) =
      [CHR 0x5C, CHR ''x''] @ hex_encode bs"
    by (rule TrimSpace_visible)
       (use assms visible_hex_encode in \<open>simp_all add: visible_def is_space_def\<close>)
  then show ?thesis
    by (simp add: EncodeBinaryValue_def oid_defs Let_def HasPrefix_def hex_decode_encode)
qed

lemma EncodeBinaryValue_bytea_witness:
  "EncodeBinaryValue ascii_rt OIDBytea
     ([] @ [CHR 0x5C, CHR ''x''] @ hex_encode [CHR 0xDE, CHR 0xAD] @ '' '') = [CHR 0xDE, CHR 0xAD]"
  by (rule EncodeBinaryValue_bytea) (simp_all add: is_space_def)

text \<open>
  A value sent in binary format has the size RowDescription announces for its type, or it is the
  unconverted text.  Two types break the agreement: \<open>uuid\<close> announces 16 bytes and always gets the
  text, and \<open>date\<close> announces a variable length although a converted date has 4 bytes.
\<close>

theorem EncodeBinaryValue_size:
  "(EncodeBinaryValue rt oid t = t \<or>
    (0 < sint (DefaultTypeSize oid) \<longrightarrow>
       int (length (EncodeBinaryValue rt oid t)) = sint (DefaultTypeSize oid))) \<and>
   EncodeBinaryValue rt OIDUUID t = t \<and> sint (DefaultTypeSize OIDUUID) = 16 \<and>
   (parse_time rt ''2006-01-02'' (TrimSpace t) \<noteq> None \<longrightarrow>
      length (EncodeBinaryValue rt OIDDate t) = 4 \<and> sint (DefaultTypeSize OIDDate) = -1)"
proof (intro conjI)
  show "EncodeBinaryValue rt oid t = t \<or>
    (0 < sint (DefaultTypeSize oid) \<longrightarrow>
       int (length (EncodeBinaryValue rt oid t)) = sint (DefaultTypeSize oid))"
    by (simp add: EncodeBinaryValue_def DefaultTypeSize_def oid_defs Let_def split: option.split)
qed (auto simp: EncodeBinaryValue_def DefaultTypeSize_def oid_defs Let_def)

lemma EncodeBinaryValue_size_witness:
  "length (EncodeBinaryValue (ascii_rt\<lparr>parse_time := \<lambda>_ _. Some 0\<rparr>) OIDDate ''1970-01-01'') = 4"
  using EncodeBinaryValue_size [of "ascii_rt\<lparr>parse_time := \<lambda>_ _. Some 0\<rparr>" OIDDate "''1970-01-01''"]
  by simp

end
