(* ===== verification/Rules.thy ===== *)
theory Rules
  imports Wire_Types
begin

text \<open>
  \<open>internal/mock/rules.go\<close>: rules, their hit counter, and the defaults a rules file is completed
  with.  Reading the file and parsing JSON or YAML are parameters; a null list entry of the file
  is a nil pointer and is \<open>None\<close>.
\<close>

record MockError =
  me_code :: bytes
  me_message :: bytes
  me_severity :: bytes
  me_detail :: bytes
  me_hint :: bytes

record Rule =
  r_id :: bytes
  r_query :: bytes
  r_pattern :: bytes
  r_params :: "bytes list"
  r_columns :: "bytes list"
  r_types :: "32 word list"
  r_rows :: "bytes list list"
  r_tag :: bytes
  r_error :: "MockError option"
  r_latency :: int
  r_jitter :: int
  r_drop :: bool
  r_fail_after :: int
  r_hits :: int

text \<open>The zero value of the struct, from which composite literals start.\<close>

definition empty_rule :: Rule where
  "empty_rule = \<lparr>r_id = [], r_query = [], r_pattern = [], r_params = [], r_columns = [], r_types = [],
     r_rows = [], r_tag = [], r_error = None, r_latency = 0, r_jitter = 0, r_drop = False,
     r_fail_after = 0, r_hits = 0\<rparr>"

definition IncrementHits :: "Rule \<Rightarrow> Rule" where
  "IncrementHits r = r\<lparr>r_hits := r_hits r + 1\<rparr>"

definition Hits :: "Rule \<Rightarrow> int" where
  "Hits r = r_hits r"

section \<open>Completing a rule\<close>

definition default_tag :: "Rule \<Rightarrow> bytes" where
  "default_tag r =
     (if r_columns r \<noteq> [] then ''SELECT '' @ Itoa (int (length (r_rows r))) else ''OK'')"

text \<open>The type of every column: the one given, and text where it is missing or 0.\<close>

definition fill_types :: "'c list \<Rightarrow> 32 word list \<Rightarrow> 32 word list" where
  "fill_types cols ts =
     map (\<lambda>i. if i < length ts \<and> ts ! i \<noteq> 0 then ts ! i else 25) [0..<length cols]"

definition complete_tag :: "Rule \<Rightarrow> Rule" where
  "complete_tag r = (if r_tag r = [] then r\<lparr>r_tag := default_tag r\<rparr> else r)"

definition complete_types :: "Rule \<Rightarrow> Rule" where
  "complete_types r =
     (if length (r_types r) < length (r_columns r)
      then r\<lparr>r_types := fill_types (r_columns r) (r_types r)\<rparr> else r)"

definition complete_id :: "nat \<Rightarrow> Rule \<Rightarrow> Rule" where
  "complete_id i r = (if r_id r = [] then r\<lparr>r_id := ''rule-'' @ Itoa (int i + 1)\<rparr> else r)"

definition complete_rule :: "nat \<Rightarrow> Rule \<Rightarrow> Rule" where
  "complete_rule i r = complete_types (complete_tag (complete_id i r))"

fun complete_rules :: "nat \<Rightarrow> Rule option list \<Rightarrow> (bytes, Rule list) outcome" where
  "complete_rules i [] = Ret []"
| "complete_rules i (None # rs) = Panic"
| "complete_rules i (Some r # rs) =
     and_then (complete_rules (Suc i) rs) (\<lambda>rs'. Ret (complete_rule i r # rs'))"

text \<open>\<open>filepath.Ext\<close>: from the last dot of the last path element.\<close>

fun ext_rev :: "bytes \<Rightarrow> bytes \<Rightarrow> bytes" where
  "ext_rev [] acc = []"
| "ext_rev (c # s) acc =
     (if c = CHR ''/'' then [] else if c = CHR ''.'' then c # acc else ext_rev s (c # acc))"

definition Ext :: "bytes \<Rightarrow> bytes" where
  "Ext path = ext_rev (rev path) []"

text \<open>
  \<open>LoadRulesFile\<close>; \<open>ReadFile\<close>, \<open>json_rules\<close> and \<open>yaml_rules\<close> return their result or the text of
  their error.  A null entry of the list is \<open>None\<close>, a nil pointer, whose completion panics.
\<close>

definition LoadRulesFile ::
  "go_rt \<Rightarrow> (bytes \<Rightarrow> bytes + bytes) \<Rightarrow> (bytes \<Rightarrow> bytes + Rule option list) \<Rightarrow>
   (bytes \<Rightarrow> bytes + Rule option list) \<Rightarrow> bytes \<Rightarrow> (bytes, Rule list) outcome" where
  "LoadRulesFile rt ReadFile json_rules yaml_rules path =
     (case ReadFile path of
        Inl e \<Rightarrow> Err (''failed to read rules file '' @ path @ '': '' @ e)
      | Inr data \<Rightarrow>
          if ToLower rt (Ext path) = ''.json'' then
            (case json_rules data of
               Inl e \<Rightarrow> Err (''failed to parse JSON rules: '' @ e)
             | Inr rs \<Rightarrow> complete_rules 0 rs)
          else
            (case yaml_rules data of
               Inl e \<Rightarrow> Err (''failed to parse YAML rules: '' @ e)
             | Inr rs \<Rightarrow> complete_rules 0 rs))"

section \<open>Properties\<close>

text \<open>What the rest of the program may expect of a loaded rule.\<close>

definition rule_ready :: "Rule \<Rightarrow> bool" where
  "rule_ready r \<longleftrightarrow> r_id r \<noteq> [] \<and> r_tag r \<noteq> [] \<and> length (r_columns r) \<le> length (r_types r)"

lemma default_tag_nonempty: "default_tag r \<noteq> []"
  by (simp add: default_tag_def)

lemma length_fill_types [simp]: "length (fill_types cols ts) = length cols"
  by (simp add: fill_types_def)

lemma fill_types_nonzero: "t \<in> set (fill_types cols ts) \<Longrightarrow> t \<noteq> 0"
  by (auto simp: fill_types_def split: if_splits)

lemma complete_rule_ready: "rule_ready (complete_rule i r)"
  by (simp add: rule_ready_def complete_rule_def complete_types_def complete_tag_def complete_id_def
      default_tag_nonempty)

lemma complete_rule_keeps:
  "r_query (complete_rule i r) = r_query r \<and> r_pattern (complete_rule i r) = r_pattern r \<and>
   r_params (complete_rule i r) = r_params r \<and> r_columns (complete_rule i r) = r_columns r \<and>
   r_rows (complete_rule i r) = r_rows r \<and> r_error (complete_rule i r) = r_error r \<and>
   r_hits (complete_rule i r) = r_hits r"
  by (simp add: complete_rule_def complete_types_def complete_tag_def complete_id_def)

lemma complete_rule_id: "rule_ready r \<Longrightarrow> complete_rule i r = r"
  by (simp add: rule_ready_def complete_rule_def complete_types_def complete_tag_def complete_id_def)

lemma complete_rules_Ret:
  "complete_rules i rs = Ret rs' \<Longrightarrow>
   length rs' = length rs \<and> (\<forall>k < length rs. \<exists>r. rs ! k = Some r \<and> rs' ! k = complete_rule (i + k) r)"
proof (induction i rs arbitrary: rs' rule: complete_rules.induct)
  case (3 i r rs)
  then obtain t where t: "complete_rules (Suc i) rs = Ret t" "rs' = complete_rule i r # t"
    by (auto simp: outcome_simps)
  with "3.IH" [of t] show ?case
    by (auto simp: nth_Cons split: nat.splits)
qed auto

text \<open>
  Loading a rules file keeps the rules and their order; every loaded rule has an identifier, a
  command tag and a type for each column, a rule that already had them is unchanged, and the load
  panics exactly when the file lists a null rule.
\<close>

theorem LoadRulesFile_complete:
  assumes "ReadFile path = Inr data"
    and "(if ToLower rt (Ext path) = ''.json'' then json data else yaml data) = Inr rs"
  shows "(LoadRulesFile rt ReadFile json yaml path = Panic \<longleftrightarrow> None \<in> set rs) \<and>
    (\<forall>rs'. LoadRulesFile rt ReadFile json yaml path = Ret rs' \<longrightarrow>
       length rs' = length rs \<and>
       (\<forall>k < length rs. \<exists>r. rs ! k = Some r \<and> rs' ! k = complete_rule k r \<and> rule_ready (rs' ! k) \<and>
          (rule_ready r \<longrightarrow> rs' ! k = r)))"
proof -
  have load: "LoadRulesFile rt ReadFile json yaml path = complete_rules 0 rs"
    using assms by (simp add: LoadRulesFile_def split: if_splits)
  have panic: "complete_rules i rs = Panic \<longleftrightarrow> None \<in> set rs" for i
    by (induction i rs rule: complete_rules.induct) (auto simp: outcome_simps)
  have each: "\<exists>r. rs ! k = Some r \<and> rs' ! k = complete_rule k r \<and> rule_ready (rs' ! k) \<and>
      (rule_ready r \<longrightarrow> rs' ! k = r)" if "complete_rules 0 rs = Ret rs'" "k < length rs" for rs' k
  proof -
    from complete_rules_Ret [OF that(1)] that(2)
    obtain r where "rs ! k = Some r" "rs' ! k = complete_rule k r" by auto
    then show ?thesis using complete_rule_ready complete_rule_id by metis
  qed
  show ?thesis
  proof (intro conjI allI impI)
    show "LoadRulesFile rt ReadFile json yaml path = Panic \<longleftrightarrow> None \<in> set rs"
      by (simp only: load panic)
  next
    fix rs' assume "LoadRulesFile rt ReadFile json yaml path = Ret rs'"
    then have R: "complete_rules 0 rs = Ret rs'" by (simp only: load)
    show "length rs' = length rs" using complete_rules_Ret [OF R] by (rule conjunct1)
    show "\<exists>r. rs ! k = Some r \<and> rs' ! k = complete_rule k r \<and> rule_ready (rs' ! k) \<and>
        (rule_ready r \<longrightarrow> rs' ! k = r)" if "k < length rs" for k
      using R that by (rule each)
  qed
qed

lemma LoadRulesFile_complete_witness:
  "LoadRulesFile ascii_rt (\<lambda>_. Inr []) (\<lambda>_. Inr [Some empty_rule, None]) (\<lambda>_. Inl []) ''a.JSON'' = Panic"
  using LoadRulesFile_complete [of "\<lambda>_. Inr []" "''a.JSON''" "[]" ascii_rt
      "\<lambda>_. Inr [Some empty_rule, None]" "\<lambda>_. Inl []" "[Some empty_rule, None]"]
  by (simp add: Ext_def ToLower_def is_ascii_def lower_byte_def is_upper_def char_of_def bit_iff_odd)

end
