(* ===== verification/Matcher.thy ===== *)
theory Matcher
  imports Rules Go_Regex
begin

text \<open>
  \<open>internal/mock/matcher.go\<close>: normalised SQL text, the decision whether a rule matches a query with
  its parameters, and the process-wide cache of compiled patterns.
\<close>

section \<open>Normalised SQL\<close>

text \<open>\<open>spaceRegex\<close> is \<open>\s+\<close>; \<open>ReplaceAllString\<close> puts one blank for each match.\<close>

definition spaceRegex :: "rx list" where
  "spaceRegex = plus Blank"

definition replace_all :: "rx list \<Rightarrow> bytes \<Rightarrow> bytes \<Rightarrow> bytes" where
  "replace_all rx s new =
     (let (ms, e) = find_all rx s in concat (map (\<lambda>(p, c). p @ new) ms) @ e)"

definition NormalizeSQL :: "bytes \<Rightarrow> bytes" where
  "NormalizeSQL sql =
     (let s = TrimSpace sql;
          s = TrimSuffix s '';'';
          s = TrimSpace s
      in replace_all spaceRegex s '' '')"

section \<open>Matching a rule\<close>

type_synonym regex_cache = "bytes \<rightharpoonup> (bytes \<Rightarrow> bool)"

definition getOrCompileRegex ::
  "go_rt \<Rightarrow> regex_cache \<Rightarrow> bytes \<Rightarrow> (bytes \<Rightarrow> bool) option \<times> regex_cache" where
  "getOrCompileRegex rt cache pattern =
     (case cache pattern of
        Some re \<Rightarrow> (Some re, cache)
      | None \<Rightarrow>
          (case re_compile rt (''(?i)'' @ pattern) of
             None \<Rightarrow> (None, cache)
           | Some re \<Rightarrow> (Some re, cache(pattern \<mapsto> re))))"

text \<open>One expected parameter against the bound value.\<close>

definition param_matches :: "bytes \<Rightarrow> bytes option \<Rightarrow> bool" where
  "param_matches expected actual =
     (if expected = ''*'' \<or> expected = ''ANY'' then True
      else if expected = ''NULL'' then actual = None
      else case actual of None \<Rightarrow> False | Some v \<Rightarrow> expected = v)"

fun params_match :: "bytes list \<Rightarrow> bytes option list \<Rightarrow> bool" where
  "params_match (e # es) (a # as) \<longleftrightarrow> param_matches e a \<and> params_match es as"
| "params_match [] [] \<longleftrightarrow> True"
| "params_match _ _ \<longleftrightarrow> False"

text \<open>The textual part: normalised equality, then the prefix forms \<open>...\<close> and \<open>%\<close>.\<close>

definition text_matches :: "go_rt \<Rightarrow> bytes \<Rightarrow> bytes \<Rightarrow> bool" where
  "text_matches rt ruleQuery incomingQuery =
     (let normalizedRule = NormalizeSQL ruleQuery;
          normalizedIncoming = NormalizeSQL incomingQuery
      in if EqualFold rt normalizedRule normalizedIncoming then True
         else if HasSuffix normalizedRule ''...'' \<and>
           HasPrefix (ToUpper rt normalizedIncoming) (ToUpper rt (TrimSuffix normalizedRule ''...''))
         then True
         else if HasSuffix normalizedRule ''%'' \<and>
           HasPrefix (ToUpper rt normalizedIncoming) (ToUpper rt (TrimSuffix normalizedRule ''%''))
         then True
         else False)"

definition Matches ::
  "go_rt \<Rightarrow> regex_cache \<Rightarrow> Rule \<Rightarrow> bytes \<Rightarrow> bytes option list \<Rightarrow> bool \<times> regex_cache" where
  "Matches rt cache rule incomingQuery incomingParams =
     (if r_params rule \<noteq> [] \<and> \<not> params_match (r_params rule) incomingParams then (False, cache)
      else
        let (hit, cache) =
          (if r_pattern rule \<noteq> [] then
             (case getOrCompileRegex rt cache (r_pattern rule) of
                (Some re, c) \<Rightarrow> (re incomingQuery, c)
              | (None, c) \<Rightarrow> (False, c))
           else (False, cache))
        in if hit then (True, cache)
           else (text_matches rt (r_query rule) incomingQuery, cache))"

section \<open>White space does not matter\<close>

text \<open>\<open>replace_all spaceRegex\<close> as a recursion on the text.\<close>

fun squeeze :: "bool \<Rightarrow> bytes \<Rightarrow> bytes" where
  "squeeze b [] = []"
| "squeeze b (c # s) =
     (if blank c then (if b then squeeze True s else CHR '' '' # squeeze True s)
      else c # squeeze False s)"

lemma run_star_blank: "run [Star Blank] s st cs = Some (cs, dropWhile blank s)"
  by (induction s) simp_all

lemma run_spaces:
  "run spaceRegex s st cs =
     (case s of [] \<Rightarrow> None | c # t \<Rightarrow> if blank c then Some (cs, dropWhile blank t) else None)"
  by (cases s) (simp_all add: spaceRegex_def plus_def run_star_blank)

lemma find_spaces:
  "find_rx spaceRegex s =
     (case dropWhile (\<lambda>c. \<not> blank c) s of
        [] \<Rightarrow> None
      | c # t \<Rightarrow> Some (takeWhile (\<lambda>c. \<not> blank c) s, (\<lambda>_. []), dropWhile blank t))"
proof (induction s)
  case Nil
  then show ?case by (simp add: run_spaces)
next
  case (Cons a s)
  then show ?case
    by (cases "blank a")
       (simp_all add: run_spaces del: dropWhile_eq_Nil_conv split: list.splits)
qed

lemma squeeze_skip: "squeeze True s = squeeze False (dropWhile blank s)"
  by (induction s) simp_all

lemma squeeze_first:
  "squeeze False s = takeWhile (\<lambda>c. \<not> blank c) s @
     (case dropWhile (\<lambda>c. \<not> blank c) s of
        [] \<Rightarrow> [] | c # t \<Rightarrow> CHR '' '' # squeeze False (dropWhile blank t))"
  by (induction s) (simp_all add: squeeze_skip)

lemma replace_spaces: "replace_all spaceRegex s '' '' = squeeze False s"
proof (induction s rule: length_induct)
  case (1 s)
  show ?case
  proof (cases "dropWhile (\<lambda>c. \<not> blank c) s")
    case Nil
    have "find_rx spaceRegex s = None" by (simp only: find_spaces Nil list.case)
    moreover have "squeeze False s = takeWhile (\<lambda>c. \<not> blank c) s"
      by (subst squeeze_first) (simp only: Nil list.case append_Nil2)
    moreover have "takeWhile (\<lambda>c. \<not> blank c) s = s"
      using takeWhile_dropWhile_id [of "\<lambda>c. \<not> blank c" s] by (simp only: Nil append_Nil2)
    ultimately show ?thesis by (simp add: replace_all_def find_all.simps)
  next
    case (Cons c t)
    let ?r = "dropWhile blank t"
    have "length (c # t) \<le> length s"
      unfolding Cons [symmetric] by (rule length_dropWhile_le)
    moreover have "length ?r \<le> length t" by (rule length_dropWhile_le)
    ultimately have shorter: "length ?r < length s" by simp
    with 1 have "replace_all spaceRegex ?r '' '' = squeeze False ?r" by blast
    with Cons shorter show ?thesis
      by (simp add: replace_all_def find_all.simps [of _ s] find_spaces squeeze_first [of s]
          split: prod.splits)
  qed
qed

text \<open>No blank but the space, and never two of them in a row.\<close>

fun single_spaced :: "bytes \<Rightarrow> bool" where
  "single_spaced [] \<longleftrightarrow> True"
| "single_spaced (c # s) \<longleftrightarrow>
     (blank c \<longrightarrow> c = CHR '' '' \<and> (case s of [] \<Rightarrow> True | d # _ \<Rightarrow> \<not> blank d)) \<and> single_spaced s"

lemma squeeze_single_spaced:
  "single_spaced (squeeze b s) \<and> (b \<longrightarrow> squeeze b s = [] \<or> \<not> blank (hd (squeeze b s)))"
  by (induction b s rule: squeeze.induct) (auto simp: blank_def split: list.splits)

text \<open>A statement laid out as words, each but the last followed by a run of blanks.\<close>

definition layout :: "(bytes \<times> bytes) list \<Rightarrow> bytes \<Rightarrow> bytes" where
  "layout ps lst = concat (map (\<lambda>(w, sep). w @ sep) ps) @ lst"

definition word_ok :: "bytes \<Rightarrow> bool" where
  "word_ok w \<longleftrightarrow> w \<noteq> [] \<and> list_all visible w"

definition sep_ok :: "bytes \<Rightarrow> bool" where
  "sep_ok s \<longleftrightarrow> s \<noteq> [] \<and> list_all blank s"

lemma visible_not_blank: "visible c \<Longrightarrow> \<not> blank c"
  by (auto simp: visible_def blank_def is_space_def)

lemma squeeze_word: "list_all visible w \<Longrightarrow> squeeze False (w @ s) = w @ squeeze False s"
  by (induction w) (simp_all add: visible_not_blank)

lemma squeeze_blanks: "list_all blank u \<Longrightarrow> squeeze True (u @ s) = squeeze True s"
  by (induction u) simp_all

lemma squeeze_sep: "sep_ok u \<Longrightarrow> squeeze False (u @ s) = CHR '' '' # squeeze True s"
  by (cases u) (simp_all add: sep_ok_def squeeze_blanks)

lemma squeeze_layout:
  "list_all (\<lambda>(w, u). word_ok w \<and> sep_ok u) ps \<Longrightarrow> word_ok lst \<Longrightarrow>
   squeeze b (layout ps lst) = concat (map (\<lambda>(w, u). w @ '' '') ps) @ lst"
proof (induction ps arbitrary: b)
  case Nil
  then show ?case
    using squeeze_word [of "lst" "[]"]
    by (cases "lst"; cases b) (auto simp: layout_def word_ok_def visible_not_blank squeeze_skip)
next
  case (Cons p ps)
  obtain w u where p: "p = (w, u)" by (cases p)
  with Cons.prems have wu: "word_ok w" "sep_ok u" by auto
  have "squeeze b (w @ s) = w @ squeeze False s" for s
    using squeeze_word [of w s] wu(1)
    by (cases w; cases b) (auto simp: word_ok_def visible_not_blank)
  with Cons wu show ?case
    by (simp add: p layout_def squeeze_sep)
qed

lemma NormalizeSQL_squeeze:
  "NormalizeSQL s = squeeze False (TrimSpace (TrimSuffix (TrimSpace s) '';''))"
  by (simp add: NormalizeSQL_def replace_spaces Let_def)

lemma blank_is_space: "blank c \<Longrightarrow> is_space c"
  by (auto simp: blank_def is_space_def)

lemma TrimSuffix_append [simp]: "TrimSuffix (s @ p) p = s"
  by (simp add: TrimSuffix_def HasSuffix_def)

lemma TrimSuffix_none: "s = u @ [c] \<Longrightarrow> c \<noteq> d \<Longrightarrow> TrimSuffix s [d] = s"
  by (auto simp: TrimSuffix_def HasSuffix_def)

lemma layout_ends:
  assumes "list_all (\<lambda>(w, u). word_ok w \<and> sep_ok u) ps" and "word_ok lst"
  shows "\<exists>x t. layout ps lst = x # t \<and> visible x"
    and "\<exists>u. layout ps lst = u @ [last lst] \<and> visible (last lst)"
proof -
  show "\<exists>x t. layout ps lst = x # t \<and> visible x"
  proof (cases ps)
    case Nil
    with assms(2) show ?thesis by (cases "lst") (auto simp: layout_def word_ok_def)
  next
    case (Cons p qs)
    with assms(1) show ?thesis
      by (cases p; cases "fst p") (auto simp: layout_def word_ok_def)
  qed
  have "lst = butlast lst @ [last lst]" "visible (last lst)"
    using assms(2) by (auto simp: word_ok_def list_all_iff)
  then show "\<exists>u. layout ps lst = u @ [last lst] \<and> visible (last lst)"
    by (metis append_assoc layout_def)
qed

text \<open>
  Layout does not matter: a statement whose words are separated by any runs of blanks and line
  breaks, with white space before and after it and possibly one semicolon, is normalised to the
  words separated by single spaces.  Normalised text is always single-spaced.
\<close>

theorem NormalizeSQL_layout:
  assumes words: "list_all (\<lambda>(w, u). word_ok w \<and> sep_ok u) ps" "word_ok lst"
    and semi: "last lst \<noteq> CHR '';''"
    and pad: "list_all is_space v" "list_all is_space w1" "list_all is_space w2"
    and trail: "trail = w1 \<or> trail = w1 @ '';'' @ w2"
  shows "NormalizeSQL (v @ layout ps lst @ trail) = concat (map (\<lambda>(w, u). w @ '' '') ps) @ lst \<and>
    single_spaced (NormalizeSQL q)"
proof
  obtain x t where xt: "layout ps lst = x # t" "visible x"
    using layout_ends(1) [OF words] by blast
  obtain u where u: "layout ps lst = u @ [last lst]" "visible (last lst)"
    using layout_ends(2) [OF words] by blast
  have sp: "visible (CHR '';'')" by (simp add: visible_def is_space_def)
  have "TrimSpace (TrimSuffix (TrimSpace (v @ layout ps lst @ trail)) '';'') = layout ps lst"
    using trail
  proof
    assume "trail = w1"
    then have "TrimSpace (v @ layout ps lst @ trail) = layout ps lst"
      using TrimSpace_visible_ends [OF xt(1) u(1) xt(2) u(2) pad(1,2)] by simp
    moreover have "TrimSuffix (layout ps lst) '';'' = layout ps lst"
      using u(1) semi by (rule TrimSuffix_none)
    ultimately show ?thesis
      using TrimSpace_visible_ends [OF xt(1) u(1) xt(2) u(2), of "[]" "[]"] by simp
  next
    assume trail2: "trail = w1 @ '';'' @ w2"
    have "TrimSpace (v @ (layout ps lst @ w1 @ '';'') @ w2) = layout ps lst @ w1 @ '';''"
      by (rule TrimSpace_visible_ends [where x = x and y = "CHR '';''"])
         (use xt sp pad in auto)
    then have "TrimSpace (v @ layout ps lst @ trail) = (layout ps lst @ w1) @ '';''"
      by (simp add: trail2)
    moreover have "TrimSpace (layout ps lst @ w1) = layout ps lst"
      using TrimSpace_visible_ends [OF xt(1) u(1) xt(2) u(2), of "[]" w1] pad by simp
    ultimately show ?thesis by (simp only: TrimSuffix_append)
  qed
  then show "NormalizeSQL (v @ layout ps lst @ trail) = concat (map (\<lambda>(w, u). w @ '' '') ps) @ lst"
    by (simp add: NormalizeSQL_squeeze squeeze_layout [OF words])
  show "single_spaced (NormalizeSQL q)"
    using squeeze_single_spaced by (simp add: NormalizeSQL_squeeze)
qed

lemma NormalizeSQL_layout_witness:
  "NormalizeSQL ('' '' @ layout [(''SELECT'', [CHR 0x0A, CHR '' ''])] ''1'' @ '' ;'') = ''SELECT 1''"
  using NormalizeSQL_layout [of "[(''SELECT'', [CHR 0x0A, CHR '' ''])]" "''1''" "'' ''" "'' ''" "[]"
      "'' ;''" "[]"]
  by (simp add: word_ok_def sep_ok_def visible_def blank_def is_space_def)

section \<open>What a match means\<close>

text \<open>The cache holds compiled patterns only, so that it can be forgotten.\<close>

definition cache_ok :: "go_rt \<Rightarrow> regex_cache \<Rightarrow> bool" where
  "cache_ok rt cache \<longleftrightarrow> (\<forall>p re. cache p = Some re \<longrightarrow> re_compile rt (''(?i)'' @ p) = Some re)"

definition rule_matches :: "go_rt \<Rightarrow> Rule \<Rightarrow> bytes \<Rightarrow> bytes option list \<Rightarrow> bool" where
  "rule_matches rt r q ps \<longleftrightarrow>
     (r_params r = [] \<or> list_all2 param_matches (r_params r) ps) \<and>
     ((r_pattern r \<noteq> [] \<and> (\<exists>re. re_compile rt (''(?i)'' @ r_pattern r) = Some re \<and> re q)) \<or>
      text_matches rt (r_query r) q)"

lemma params_match_all2: "params_match es as \<longleftrightarrow> list_all2 param_matches es as"
  by (induction es as rule: params_match.induct) auto

lemma getOrCompileRegex_ok:
  assumes "cache_ok rt cache"
  shows "fst (getOrCompileRegex rt cache p) = re_compile rt (''(?i)'' @ p) \<and>
    cache_ok rt (snd (getOrCompileRegex rt cache p))"
  using assms by (auto simp: getOrCompileRegex_def cache_ok_def split: option.split)

lemma Matches_means:
  assumes "cache_ok rt cache"
  shows "fst (Matches rt cache r q ps) = rule_matches rt r q ps \<and>
    cache_ok rt (snd (Matches rt cache r q ps))"
  using assms getOrCompileRegex_ok [OF assms, of "r_pattern r"]
  by (cases "getOrCompileRegex rt cache (r_pattern r)"; cases "fst (getOrCompileRegex rt cache (r_pattern r))")
     (auto simp: Matches_def rule_matches_def params_match_all2 Let_def split: if_splits)

text \<open>
  C14. Whatever was compiled before, a rule matches exactly when its parameters agree (if it lists
  any) and either its pattern, compiled case-insensitively, or its normalised text does; a pattern
  that does not compile never matches, and the cache keeps holding compiled patterns only.
\<close>

theorem Matches_spec:
  assumes "cache_ok rt cache"
  shows "fst (Matches rt cache r q ps) = rule_matches rt r q ps \<and>
    cache_ok rt (snd (Matches rt cache r q ps))"
  using assms by (rule Matches_means)

lemma Matches_spec_witness:
  "fst (Matches ascii_rt Map.empty (empty_rule\<lparr>r_query := ''select 1''\<rparr>) ''SELECT 1'' [])
     = rule_matches ascii_rt (empty_rule\<lparr>r_query := ''select 1''\<rparr>) ''SELECT 1'' []"
  using Matches_spec [of ascii_rt Map.empty] by (simp add: cache_ok_def)

text \<open>
  A rule without query text, as a rule with only a pattern is, also matches every query that
  normalises to nothing, whatever its pattern.
\<close>

theorem text_matches_empty_rule:
  "text_matches rt [] q \<longleftrightarrow> NormalizeSQL q = []"
proof -
  have n: "NormalizeSQL [] = []"
    by (simp add: NormalizeSQL_squeeze TrimSpace_def trim_left_id trim_left_rev_id TrimSuffix_def
        HasSuffix_def)
  have "EqualFold rt [] t \<longleftrightarrow> t = []" for t by (cases t) auto
  then show ?thesis by (simp add: text_matches_def n HasSuffix_def Let_def)
qed

end
