(* ===== verification/Store.thy ===== *)
theory Store
  imports Rules Go_Regex "HOL-Library.AList"
begin

text \<open>
  \<open>internal/mock/state_store.go\<close>: the in-memory tables behind \<open>--stateful\<close>.  A statement is
  recognised by the first of seven patterns that matches it and executed on the map of tables;
  the result is the rule that answers the query, together with the new tables.  Every operation
  runs under the store's lock, so an execution is one step.
\<close>

section \<open>Tables\<close>

record InMemTable =
  t_name :: bytes
  t_columns :: "bytes list"
  t_types :: "32 word list"
  t_rows :: "bytes list list"

type_synonym tables = "bytes \<rightharpoonup> InMemTable"

definition NewStateStore :: tables where
  "NewStateStore = Map.empty"

definition Reset :: "tables \<Rightarrow> tables" where
  "Reset s = Map.empty"

section \<open>The patterns\<close>

definition ident :: "nat \<Rightarrow> rx list" where
  "ident i = group i (plus Ident)"

definition createTableRegex :: "rx list" where
  "createTableRegex =
     kw ''CREATE'' @ plus Blank @ kw ''TABLE'' @ plus Blank @
     [Opt (kw ''IF'' @ plus Blank @ kw ''NOT'' @ plus Blank @ kw ''EXISTS'' @ plus Blank)] @
     ident 1 @ [Star Blank, One (Exact (CHR ''(''))] @ group 2 (plus Dot) @ [One (Exact (CHR '')''))]"

definition dropTableRegex :: "rx list" where
  "dropTableRegex =
     kw ''DROP'' @ plus Blank @ kw ''TABLE'' @ plus Blank @
     [Opt (kw ''IF'' @ plus Blank @ kw ''EXISTS'' @ plus Blank)] @ ident 1"

definition truncateRegex :: "rx list" where
  "truncateRegex = kw ''TRUNCATE'' @ plus Blank @ [Opt (kw ''TABLE'' @ plus Blank)] @ ident 1"

definition insertRegex :: "rx list" where
  "insertRegex =
     kw ''INSERT'' @ plus Blank @ kw ''INTO'' @ plus Blank @ ident 1 @
     [Opt ([Star Blank, One (Exact (CHR ''(''))] @ group 2 (plus (NoneOf '')'')) @
           [One (Exact (CHR '')''))])] @
     plus Blank @ kw ''VALUES'' @ [Star Blank] @ group 3 (plus Dot)"

definition where_part :: "nat \<Rightarrow> rx" where
  "where_part i = Opt (plus Blank @ kw ''WHERE'' @ plus Blank @ group i (plus Dot))"

definition selectRegex :: "rx list" where
  "selectRegex =
     kw ''SELECT'' @ plus Blank @ group 1 [One Dot, LazyStar Dot] @ plus Blank @ kw ''FROM'' @
     plus Blank @ ident 2 @ [where_part 3]"

definition updateRegex :: "rx list" where
  "updateRegex =
     kw ''UPDATE'' @ plus Blank @ ident 1 @ plus Blank @ kw ''SET'' @ plus Blank @
     group 2 [One Dot, LazyStar Dot] @ [where_part 3, End]"

definition deleteRegex :: "rx list" where
  "deleteRegex =
     kw ''DELETE'' @ plus Blank @ kw ''FROM'' @ plus Blank @ ident 1 @ [where_part 2]"

definition tupleRegex :: "rx list" where
  "tupleRegex = [One (Exact (CHR ''(''))] @ group 1 (plus (NoneOf '')'')) @ [One (Exact (CHR '')''))]"

section \<open>Names, values and conditions\<close>

definition quotes :: bytes where
  "quotes = [CHR 0x22, CHR 0x27]"

definition sanitizeName :: "go_rt \<Rightarrow> bytes \<Rightarrow> bytes" where
  "sanitizeName rt n =
     (let n = TrimSpace n;
          n = Trim n (quotes @ [CHR 0x60]);
          n = rev (takeWhile (\<lambda>c. c \<noteq> CHR ''.'') (rev n))
      in ToLower rt n)"

fun col_index :: "go_rt \<Rightarrow> bytes list \<Rightarrow> bytes \<Rightarrow> nat option" where
  "col_index rt [] target = None"
| "col_index rt (c # cs) target =
     (if ToLower rt c = target then Some 0 else map_option Suc (col_index rt cs target))"

definition findColIndex :: "go_rt \<Rightarrow> bytes list \<Rightarrow> bytes \<Rightarrow> nat option" where
  "findColIndex rt cols target = col_index rt cols (ToLower rt target)"

text \<open>The value bound to \<open>$n\<close>, if the text is such a reference to a parameter that exists.\<close>

definition param_ref :: "bytes \<Rightarrow> bytes option list \<Rightarrow> bytes option" where
  "param_ref v params =
     (if HasPrefix v ''$'' then
        (case Atoi (TrimPrefix v ''$'') of
           None \<Rightarrow> None
         | Some i \<Rightarrow>
             if 0 < i \<and> i \<le> int (length params) then
               (case params ! nat (i - 1) of None \<Rightarrow> Some ''NULL'' | Some b \<Rightarrow> Some b)
             else None)
      else None)"

definition parseValue :: "bytes option list \<Rightarrow> bytes \<Rightarrow> bytes" where
  "parseValue params v =
     (let trimmed = TrimSpace v in
      case param_ref trimmed params of Some b \<Rightarrow> b | None \<Rightarrow> Trim trimmed quotes)"

definition parseValuesTuples :: "bytes \<Rightarrow> bytes option list \<Rightarrow> bytes list list" where
  "parseValuesTuples valuesStr params =
     map (\<lambda>(p, c). map (parseValue params) (Split (c 1) (CHR '','')))
       (fst (find_all tupleRegex valuesStr))"

text \<open>The map of assignments, with its keys in the order of their first occurrence.\<close>

definition parseSetAssignments ::
  "go_rt \<Rightarrow> bytes \<Rightarrow> bytes option list \<Rightarrow> (bytes \<times> bytes) list" where
  "parseSetAssignments rt setExpr params =
     fold (\<lambda>p res. case SplitN2 p (CHR ''='') of
         [k, v] \<Rightarrow> AList.update (sanitizeName rt k) (parseValue params v) res
       | _ \<Rightarrow> res)
       (Split setExpr (CHR '','')) []"

definition where_value :: "bytes \<Rightarrow> bytes option list \<Rightarrow> bytes" where
  "where_value targetVal params =
     (if HasPrefix targetVal ''$'' then
        (case param_ref targetVal params of Some b \<Rightarrow> b | None \<Rightarrow> targetVal)
      else Trim targetVal quotes)"

definition evaluateWhere ::
  "go_rt \<Rightarrow> bytes \<Rightarrow> bytes list \<Rightarrow> bytes list \<Rightarrow> bytes option list \<Rightarrow> bool" where
  "evaluateWhere rt whr cols row params =
     (if whr = [] then True
      else case SplitN2 whr (CHR ''='') of
        [l, r] \<Rightarrow>
          (let targetCol = sanitizeName rt l;
               targetVal = where_value (TrimSpace r) params
           in case findColIndex rt cols targetCol of
                Some i \<Rightarrow> if i < length row then EqualFold rt (row ! i) targetVal else True
              | None \<Rightarrow> True)
      | _ \<Rightarrow> True)"

section \<open>The statements\<close>

definition exec_create :: "go_rt \<Rightarrow> bytes \<Rightarrow> caps \<Rightarrow> tables \<Rightarrow> Rule \<times> tables" where
  "exec_create rt query m s =
     (let tableName = sanitizeName rt (m 1);
          colNames = concat (map (\<lambda>colDef.
            (case Fields (TrimSpace colDef) of
               [] \<Rightarrow> []
             | part # _ \<Rightarrow>
                 (let colName = sanitizeName rt part in
                  if EqualFold rt colName ''PRIMARY'' \<or> EqualFold rt colName ''FOREIGN'' \<or>
                     EqualFold rt colName ''CONSTRAINT'' \<or> EqualFold rt colName ''UNIQUE''
                  then [] else [colName])))
            (Split (m 2) (CHR '','')))
      in (empty_rule\<lparr>r_id := ''stateful-create-table'', r_query := query, r_tag := ''CREATE TABLE''\<rparr>,
          s(tableName \<mapsto> \<lparr>t_name = tableName, t_columns = colNames,
                          t_types = map (\<lambda>_. 25) colNames, t_rows = []\<rparr>)))"

definition exec_drop :: "go_rt \<Rightarrow> bytes \<Rightarrow> caps \<Rightarrow> tables \<Rightarrow> Rule \<times> tables" where
  "exec_drop rt query m s =
     (let tableName = sanitizeName rt (m 1) in
      (empty_rule\<lparr>r_id := ''stateful-drop-table'', r_query := query, r_tag := ''DROP TABLE''\<rparr>,
       s(tableName := None)))"

definition exec_truncate :: "go_rt \<Rightarrow> bytes \<Rightarrow> caps \<Rightarrow> tables \<Rightarrow> Rule \<times> tables" where
  "exec_truncate rt query m s =
     (let tableName = sanitizeName rt (m 1) in
      (empty_rule\<lparr>r_id := ''stateful-truncate-table'', r_query := query,
         r_tag := ''TRUNCATE TABLE''\<rparr>,
       (case s tableName of
          Some tbl \<Rightarrow> s(tableName \<mapsto> tbl\<lparr>t_rows := []\<rparr>)
        | None \<Rightarrow> s)))"

text \<open>The row stored for a parsed tuple: cut to the columns, or filled up with \<open>NULL\<close>.\<close>

definition full_row :: "'c list \<Rightarrow> bytes list \<Rightarrow> bytes list" where
  "full_row cols r = map (\<lambda>i. if i < length r then r ! i else ''NULL'') [0..<length cols]"

definition auto_columns :: "go_rt \<Rightarrow> bytes \<Rightarrow> bytes list list \<Rightarrow> bytes list" where
  "auto_columns rt colListStr parsedRows =
     (if colListStr \<noteq> [] then map (sanitizeName rt) (Split colListStr (CHR '',''))
      else case parsedRows of
        [] \<Rightarrow> []
      | r # _ \<Rightarrow> map (\<lambda>i. ''col_'' @ Itoa (int i + 1)) [0..<length r])"

text \<open>
  The position of \<open> RETURNING \<close> is found in the upper-case text and used to cut the text itself;
  a position beyond its end is a slice error.
\<close>

definition split_returning :: "go_rt \<Rightarrow> bytes \<Rightarrow> (unit, bytes \<times> bytes) outcome" where
  "split_returning rt valuesRest =
     (case Index (ToUpper rt valuesRest) '' RETURNING '' of
        None \<Rightarrow> Ret (valuesRest, [])
      | Some i \<Rightarrow>
          if length valuesRest < i + 11 then Panic
          else Ret (TrimSpace (take i valuesRest), TrimSpace (drop (i + 11) valuesRest)))"

definition exec_insert ::
  "go_rt \<Rightarrow> bytes \<Rightarrow> bytes option list \<Rightarrow> caps \<Rightarrow> tables \<Rightarrow> (unit, Rule \<times> tables) outcome" where
  "exec_insert rt query params m s =
     and_then (split_returning rt (m 3)) (\<lambda>(valuesRest, returningClause).
       let tableName = sanitizeName rt (m 1);
           parsedRows = parseValuesTuples valuesRest params;
           tbl = (case s tableName of
              Some t \<Rightarrow> t
            | None \<Rightarrow>
                (let cols = auto_columns rt (m 2) parsedRows in
                 \<lparr>t_name = tableName, t_columns = cols, t_types = map (\<lambda>_. 25) cols,
                  t_rows = []\<rparr>));
           tbl = tbl\<lparr>t_rows := t_rows tbl @ map (full_row (t_columns tbl)) parsedRows\<rparr>;
           rule = empty_rule\<lparr>r_id := ''stateful-insert'', r_query := query,
                    r_tag := ''INSERT 0 '' @ Itoa (int (length parsedRows))\<rparr>;
           rule = (if returningClause \<noteq> [] then
                     rule\<lparr>r_columns := t_columns tbl, r_types := t_types tbl, r_rows := parsedRows\<rparr>
                   else rule)
       in Ret (rule, s(tableName \<mapsto> tbl)))"

definition missing_table :: "go_rt \<Rightarrow> bytes \<Rightarrow> bytes \<Rightarrow> Rule" where
  "missing_table rt query tableName =
     empty_rule\<lparr>r_id := ''stateful-table-missing'', r_query := query,
       r_error := Some \<lparr>me_code = ''42P01'',
         me_message = ''relation '' @ quoted rt tableName @ '' does not exist'',
         me_severity = ''ERROR'', me_detail = [], me_hint = []\<rparr>\<rparr>"

definition project_row :: "nat option list \<Rightarrow> bytes list \<Rightarrow> bytes list" where
  "project_row idxs r =
     map (\<lambda>ix. case ix of
        Some i \<Rightarrow> if i < length r then r ! i else ''NULL''
      | None \<Rightarrow> ''NULL'') idxs"

definition exec_select ::
  "go_rt \<Rightarrow> bytes \<Rightarrow> bytes option list \<Rightarrow> caps \<Rightarrow> tables \<Rightarrow> Rule \<times> tables" where
  "exec_select rt query params m s =
     (let colsExpr = TrimSpace (m 1);
          tableName = sanitizeName rt (m 2);
          whereClause = TrimSpace (m 3)
      in case s tableName of
           None \<Rightarrow> (missing_table rt query tableName, s)
         | Some tbl \<Rightarrow>
             (let matchedRows =
                    filter (\<lambda>row. evaluateWhere rt whereClause (t_columns tbl) row params) (t_rows tbl);
                  answer = (\<lambda>cols ts rows.
                    empty_rule\<lparr>r_id := ''stateful-select'', r_query := query, r_columns := cols,
                      r_types := ts, r_rows := rows,
                      r_tag := ''SELECT '' @ Itoa (int (length rows))\<rparr>)
              in if colsExpr \<noteq> ''*'' \<and> \<not> Contains colsExpr ''count('' \<and> \<not> Contains colsExpr ''COUNT(''
                 then
                   (let projCols = map (sanitizeName rt) (Split colsExpr (CHR '',''));
                        projIndices = map (findColIndex rt (t_columns tbl)) projCols
                    in (answer projCols (map (\<lambda>_. 25) projCols)
                          (map (project_row projIndices) matchedRows), s))
                 else if EqualFold rt colsExpr ''COUNT(*)'' \<or> EqualFold rt colsExpr ''COUNT(1)''
                 then
                   (empty_rule\<lparr>r_id := ''stateful-select-count'', r_query := query,
                      r_columns := [''count''], r_types := [20],
                      r_rows := [[Itoa (int (length matchedRows))]], r_tag := ''SELECT 1''\<rparr>, s)
                 else (answer (t_columns tbl) (t_types tbl) matchedRows, s)))"

text \<open>One row under the assignments, in the given order of the map's keys.\<close>

definition assign_cell ::
  "go_rt \<Rightarrow> bytes list \<Rightarrow> bytes \<times> bytes \<Rightarrow> bytes list \<Rightarrow> bytes list" where
  "assign_cell rt cols kv row =
     (case findColIndex rt cols (fst kv) of
        Some i \<Rightarrow> if i < length row then row[i := snd kv] else row
      | None \<Rightarrow> row)"

definition assign_row ::
  "go_rt \<Rightarrow> bytes list \<Rightarrow> (bytes \<times> bytes) list \<Rightarrow> bytes list \<Rightarrow> bytes list" where
  "assign_row rt cols kvs row = fold (assign_cell rt cols) kvs row"

definition exec_update ::
  "go_rt \<Rightarrow> bytes \<Rightarrow> bytes option list \<Rightarrow> caps \<Rightarrow> tables \<Rightarrow> Rule \<times> tables" where
  "exec_update rt query params m s =
     (let tableName = sanitizeName rt (m 1);
          setExpr = TrimSpace (m 2);
          whereClause = TrimSpace (m 3)
      in case s tableName of
           None \<Rightarrow> (missing_table rt query tableName, s)
         | Some tbl \<Rightarrow>
             (let setAssignments = parseSetAssignments rt setExpr params;
                  hit = (\<lambda>row. evaluateWhere rt whereClause (t_columns tbl) row params);
                  rows = map (\<lambda>row. if hit row then assign_row rt (t_columns tbl) setAssignments row
                                    else row) (t_rows tbl)
              in (empty_rule\<lparr>r_id := ''stateful-update'', r_query := query,
                    r_tag := ''UPDATE '' @ Itoa (int (length (filter hit (t_rows tbl))))\<rparr>,
                  s(tableName \<mapsto> tbl\<lparr>t_rows := rows\<rparr>))))"

definition exec_delete ::
  "go_rt \<Rightarrow> bytes \<Rightarrow> bytes option list \<Rightarrow> caps \<Rightarrow> tables \<Rightarrow> Rule \<times> tables" where
  "exec_delete rt query params m s =
     (let tableName = sanitizeName rt (m 1);
          whereClause = TrimSpace (m 2)
      in case s tableName of
           None \<Rightarrow> (missing_table rt query tableName, s)
         | Some tbl \<Rightarrow>
             (let hit = (\<lambda>row. evaluateWhere rt whereClause (t_columns tbl) row params)
              in (empty_rule\<lparr>r_id := ''stateful-delete'', r_query := query,
                    r_tag := ''DELETE '' @ Itoa (int (length (filter hit (t_rows tbl))))\<rparr>,
                  s(tableName \<mapsto> tbl\<lparr>t_rows := filter (\<lambda>row. \<not> hit row) (t_rows tbl)\<rparr>))))"

text \<open>\<open>None\<close> is \<open>(nil, false)\<close>: not a statement the store handles.\<close>

definition MatchAndExecute ::
  "go_rt \<Rightarrow> bytes \<Rightarrow> bytes option list \<Rightarrow> tables \<Rightarrow> (unit, Rule option \<times> tables) outcome" where
  "MatchAndExecute rt query params s =
     (let trimmed = TrimRight (TrimSpace query) '';'';
          done = (\<lambda>(r, s'). Ret (Some r, s'))
      in case match_start createTableRegex trimmed of
           Some m \<Rightarrow> done (exec_create rt query m s)
         | None \<Rightarrow>
         case match_start dropTableRegex trimmed of
           Some m \<Rightarrow> done (exec_drop rt query m s)
         | None \<Rightarrow>
         case match_start truncateRegex trimmed of
           Some m \<Rightarrow> done (exec_truncate rt query m s)
         | None \<Rightarrow>
         case match_start insertRegex trimmed of
           Some m \<Rightarrow> and_then (exec_insert rt query params m s) done
         | None \<Rightarrow>
         case match_start selectRegex trimmed of
           Some m \<Rightarrow> done (exec_select rt query params m s)
         | None \<Rightarrow>
         case match_start updateRegex trimmed of
           Some m \<Rightarrow> done (exec_update rt query params m s)
         | None \<Rightarrow>
         case match_start deleteRegex trimmed of
           Some m \<Rightarrow> done (exec_delete rt query params m s)
         | None \<Rightarrow> Ret (None, s))"

end
