(* ===== verification/Store_Laws.thy ===== *)
theory Store_Laws
  imports Store "HOL-Library.Multiset"
begin

text \<open>
  What the in-memory tables of \<open>internal/mock/state_store.go\<close> promise.  Every statement works on
  the one table it names (locale \<open>table_statement\<close>); from that contract, which each of the seven
  statements provides, follow the well-formedness of the store and the independence of statements
  on different tables.  The rest of the theory says what each statement does to the rows.
\<close>

section \<open>Well-formed tables and the contract of a statement\<close>

definition table_wf :: "bytes \<Rightarrow> InMemTable \<Rightarrow> bool" where
  "table_wf k t \<longleftrightarrow> t_name t = k \<and> length (t_types t) = length (t_columns t) \<and>
     (\<forall>r \<in> set (t_rows t). length r = length (t_columns t))"

definition store_wf :: "tables \<Rightarrow> bool" where
  "store_wf s \<longleftrightarrow> (\<forall>k t. s k = Some t \<longrightarrow> table_wf k t)"

lemma store_wf_table: "store_wf s \<Longrightarrow> s k = Some t \<Longrightarrow> table_wf k t"
  by (simp add: store_wf_def)

lemma store_wf_put [simp, intro]: "store_wf s \<Longrightarrow> table_wf k t \<Longrightarrow> store_wf (s(k \<mapsto> t))"
  by (simp add: store_wf_def)

lemma store_wf_remove [simp, intro]: "store_wf s \<Longrightarrow> store_wf (s(k := None))"
  by (simp add: store_wf_def)

lemma table_wf_rows [simp, intro]:
  "table_wf k t \<Longrightarrow> \<forall>r \<in> set rs. length r = length (t_columns t) \<Longrightarrow> table_wf k (t\<lparr>t_rows := rs\<rparr>)"
  by (simp add: table_wf_def)

lemma table_wf_row: "table_wf k t \<Longrightarrow> \<forall>r \<in> set (t_rows t). length r = length (t_columns t)"
  by (simp add: table_wf_def)

lemma table_wf_fresh [simp, intro]:
  "length ts = length cols \<Longrightarrow> table_wf k \<lparr>t_name = k, t_columns = cols, t_types = ts, t_rows = []\<rparr>"
  by (simp add: table_wf_def)

locale table_statement =
  fixes op :: "tables \<Rightarrow> (unit, Rule \<times> tables) outcome" and target :: bytes
  assumes local: "s2 target = s target \<Longrightarrow>
      op s2 = map_ret (\<lambda>(r, s'). (r, s2(target := s' target))) (op s)"
    and wf_step: "store_wf s \<Longrightarrow> op s = Ret (r, s') \<Longrightarrow> store_wf s'"
begin

lemma frame: "op s = Ret (r, s') \<Longrightarrow> s' = s(target := s' target)"
  using local [of s s] by simp

lemma other_tables: "op s = Ret (r, s') \<Longrightarrow> k \<noteq> target \<Longrightarrow> s' k = s k"
  using frame [of s r s'] by (metis fun_upd_other)

lemma same_answer: "op s = Ret (r, s') \<Longrightarrow> s2 target = s target \<Longrightarrow>
    op s2 = Ret (r, s2(target := s' target))"
  by (simp add: local [of s2 s])

end

text \<open>Two statements on different tables can be exchanged.\<close>

locale two_statements =
  a: table_statement op1 target1 + b: table_statement op2 target2
  for op1 target1 op2 target2 +
  assumes apart: "target1 \<noteq> target2"
begin

lemma exchange:
  assumes "op1 s = Ret (r1, s1)" and "op2 s1 = Ret (r2, s12)"
  shows "\<exists>s2. op2 s = Ret (r2, s2) \<and> op1 s2 = Ret (r1, s12)"
proof -
  have "s target2 = s1 target2"
    using a.other_tables [OF assms(1)] apart by metis
  then have 2: "op2 s = Ret (r2, s(target2 := s12 target2))"
    using b.same_answer [OF assms(2)] by simp
  have "op1 (s(target2 := s12 target2)) = Ret (r1, s(target2 := s12 target2, target1 := s1 target1))"
    using a.same_answer [OF assms(1)] apart by simp
  moreover have "s(target2 := s12 target2, target1 := s1 target1) = s12"
    using a.frame [OF assms(1)] b.frame [OF assms(2)] apart by (metis fun_upd_other fun_upd_twist fun_upd_same)
  ultimately show ?thesis using 2 by simp
qed

end

section \<open>Every statement keeps the contract\<close>

lemma length_full_row [simp]: "length (full_row cols r) = length cols"
  by (simp add: full_row_def)

lemma length_assign_cell [simp]: "length (assign_cell rt cols kv row) = length row"
  by (simp add: assign_cell_def split: option.split)

lemma length_assign_row [simp]: "length (assign_row rt cols kvs row) = length row"
  unfolding assign_row_def by (induction kvs arbitrary: row) simp_all

lemma length_project_row [simp]: "length (project_row ixs r) = length ixs"
  by (simp add: project_row_def)

interpretation create_statement:
  table_statement "\<lambda>s. Ret (exec_create rt q m s)" "sanitizeName rt (m 1)" for rt q m
  by unfold_locales (auto simp: exec_create_def Let_def)

interpretation drop_statement:
  table_statement "\<lambda>s. Ret (exec_drop rt q m s)" "sanitizeName rt (m 1)" for rt q m
  by unfold_locales (auto simp: exec_drop_def Let_def)

interpretation truncate_statement:
  table_statement "\<lambda>s. Ret (exec_truncate rt q m s)" "sanitizeName rt (m 1)" for rt q m
proof unfold_locales
  show "store_wf s \<Longrightarrow> Ret (exec_truncate rt q m s) = Ret (r, s') \<Longrightarrow> store_wf s'" for s r s'
    using store_wf_table [of s "sanitizeName rt (m 1)"] by (cases "s (sanitizeName rt (m 1))") (auto simp: exec_truncate_def table_wf_def)
qed (auto simp: exec_truncate_def Let_def split: option.splits)

text \<open>The table an INSERT works on: the stored one, or the one it creates.\<close>

definition insert_table :: "go_rt \<Rightarrow> caps \<Rightarrow> bytes list list \<Rightarrow> tables \<Rightarrow> InMemTable" where
  "insert_table rt m parsedRows s =
     (case s (sanitizeName rt (m 1)) of
        Some t \<Rightarrow> t
      | None \<Rightarrow> \<lparr>t_name = sanitizeName rt (m 1), t_columns = auto_columns rt (m 2) parsedRows,
          t_types = map (\<lambda>_. 25) (auto_columns rt (m 2) parsedRows), t_rows = []\<rparr>)"

lemma insert_table_wf: "store_wf s \<Longrightarrow> table_wf (sanitizeName rt (m 1)) (insert_table rt m rs s)"
  using store_wf_table [of s "sanitizeName rt (m 1)"] by (auto simp: insert_table_def split: option.split)

lemma exec_insert_steps:
  "exec_insert rt q ps m s =
     and_then (split_returning rt (m 3)) (\<lambda>(vs, ret).
       let rows = parseValuesTuples vs ps; t = insert_table rt m rows s in
       Ret (empty_rule\<lparr>r_id := ''stateful-insert'', r_query := q,
              r_tag := ''INSERT 0 '' @ Itoa (int (length rows)),
              r_columns := if ret \<noteq> [] then t_columns t else [],
              r_types := if ret \<noteq> [] then t_types t else [],
              r_rows := if ret \<noteq> [] then rows else []\<rparr>,
            s(sanitizeName rt (m 1) \<mapsto>
              t\<lparr>t_rows := t_rows t @ map (full_row (t_columns t)) rows\<rparr>)))"
  by (cases "split_returning rt (m 3)")
    (auto simp: exec_insert_def insert_table_def Let_def empty_rule_def split: option.splits)

interpretation insert_statement:
  table_statement "exec_insert rt q ps m" "sanitizeName rt (m 1)" for rt q ps m
proof unfold_locales
  fix s s2 :: tables
  assume "s2 (sanitizeName rt (m 1)) = s (sanitizeName rt (m 1))"
  then show "exec_insert rt q ps m s2 = map_ret (\<lambda>(r, s'). (r, s2(sanitizeName rt (m 1) :=
      s' (sanitizeName rt (m 1))))) (exec_insert rt q ps m s)"
    by (cases "split_returning rt (m 3)")
      (auto simp: exec_insert_steps insert_table_def Let_def split: option.splits)
next
  fix s s' r
  assume wf: "store_wf s" and "exec_insert rt q ps m s = Ret (r, s')"
  then obtain rs where "s' = s(sanitizeName rt (m 1) \<mapsto> (insert_table rt m rs s)
      \<lparr>t_rows := t_rows (insert_table rt m rs s) @
        map (full_row (t_columns (insert_table rt m rs s))) rs\<rparr>)"
    by (auto simp: exec_insert_steps and_then_pair_Ret Let_def)
  with insert_table_wf [OF wf, of rt m rs] wf show "store_wf s'"
    using table_wf_row [OF insert_table_wf [OF wf]] by (simp add: ball_Un)
qed

interpretation select_statement:
  table_statement "\<lambda>s. Ret (exec_select rt q ps m s)" "sanitizeName rt (m 2)" for rt q ps m
proof unfold_locales
  have keep: "snd (exec_select rt q ps m s) = s" for s
    by (simp add: exec_select_def Let_def split: option.split)
  show "store_wf s \<Longrightarrow> Ret (exec_select rt q ps m s) = Ret (r, s') \<Longrightarrow> store_wf s'" for s r s'
    using keep [of s] by simp
  have answer: "fst (exec_select rt q ps m s2) = fst (exec_select rt q ps m s)"
    if "s2 (sanitizeName rt (m 2)) = s (sanitizeName rt (m 2))" for s s2
    using that by (simp add: exec_select_def Let_def split: option.split)
  show "Ret (exec_select rt q ps m s2) = map_ret (\<lambda>(r, s'). (r, s2(sanitizeName rt (m 2) :=
      s' (sanitizeName rt (m 2))))) (Ret (exec_select rt q ps m s))"
    if "s2 (sanitizeName rt (m 2)) = s (sanitizeName rt (m 2))" for s s2
    using that keep [of s] keep [of s2] answer [of s2 s]
    by (cases "exec_select rt q ps m s"; cases "exec_select rt q ps m s2") auto
qed

interpretation update_statement:
  table_statement "\<lambda>s. Ret (exec_update rt q ps m s)" "sanitizeName rt (m 1)" for rt q ps m
proof unfold_locales
  show "store_wf s \<Longrightarrow> Ret (exec_update rt q ps m s) = Ret (r, s') \<Longrightarrow> store_wf s'" for s r s'
  proof (cases "s (sanitizeName rt (m 1))")
    case (Some t)
    assume wf: "store_wf s" and r: "Ret (exec_update rt q ps m s) = Ret (r, s')"
    let ?row = "\<lambda>row. if evaluateWhere rt (TrimSpace (m 3)) (t_columns t) row ps
      then assign_row rt (t_columns t) (parseSetAssignments rt (TrimSpace (m 2)) ps) row else row"
    have "table_wf (sanitizeName rt (m 1)) (t\<lparr>t_rows := map ?row (t_rows t)\<rparr>)"
      using store_wf_table [OF wf Some] by (auto simp: table_wf_def)
    with wf r Some show ?thesis by (auto simp: exec_update_def Let_def)
  qed (auto simp: exec_update_def Let_def)
qed (auto simp: exec_update_def Let_def split: option.split)

interpretation delete_statement:
  table_statement "\<lambda>s. Ret (exec_delete rt q ps m s)" "sanitizeName rt (m 1)" for rt q ps m
proof unfold_locales
  show "store_wf s \<Longrightarrow> Ret (exec_delete rt q ps m s) = Ret (r, s') \<Longrightarrow> store_wf s'" for s r s'
    using store_wf_table [of s "sanitizeName rt (m 1)"] by (cases "s (sanitizeName rt (m 1))")
      (auto simp: exec_delete_def Let_def table_wf_def)
qed (auto simp: exec_delete_def Let_def split: option.split)

text \<open>The statement a query is recognised as, and the table it names.\<close>

definition statement_of ::
  "go_rt \<Rightarrow> bytes \<Rightarrow> bytes option list \<Rightarrow>
    ((tables \<Rightarrow> (unit, Rule \<times> tables) outcome) \<times> bytes) option" where
  "statement_of rt q ps =
     (let t = TrimRight (TrimSpace q) '';'';
          on = (\<lambda>i op m. Some (op m, sanitizeName rt (m i)))
      in case match_start createTableRegex t of
           Some m \<Rightarrow> on 1 (\<lambda>m s. Ret (exec_create rt q m s)) m
         | None \<Rightarrow> case match_start dropTableRegex t of
           Some m \<Rightarrow> on 1 (\<lambda>m s. Ret (exec_drop rt q m s)) m
         | None \<Rightarrow> case match_start truncateRegex t of
           Some m \<Rightarrow> on 1 (\<lambda>m s. Ret (exec_truncate rt q m s)) m
         | None \<Rightarrow> case match_start insertRegex t of
           Some m \<Rightarrow> on 1 (exec_insert rt q ps) m
         | None \<Rightarrow> case match_start selectRegex t of
           Some m \<Rightarrow> on 2 (\<lambda>m s. Ret (exec_select rt q ps m s)) m
         | None \<Rightarrow> case match_start updateRegex t of
           Some m \<Rightarrow> on 1 (\<lambda>m s. Ret (exec_update rt q ps m s)) m
         | None \<Rightarrow> case match_start deleteRegex t of
           Some m \<Rightarrow> on 1 (\<lambda>m s. Ret (exec_delete rt q ps m s)) m
         | None \<Rightarrow> None)"

definition perform ::
  "tables \<Rightarrow> ((tables \<Rightarrow> (unit, Rule \<times> tables) outcome) \<times> bytes) option \<Rightarrow>
    (unit, Rule option \<times> tables) outcome" where
  "perform s st =
     (case st of
        None \<Rightarrow> Ret (None, s)
      | Some (op, _) \<Rightarrow> map_ret (\<lambda>(r, s'). (Some r, s')) (op s))"

lemma dispatch_step:
  "(\<And>m. f m = perform s (f' m)) \<Longrightarrow> g = perform s g' \<Longrightarrow>
   (case x of Some m \<Rightarrow> f m | None \<Rightarrow> g) = perform s (case x of Some m \<Rightarrow> f' m | None \<Rightarrow> g')"
  by (cases x) auto

lemma perform_done:
  "(case x of (r, s') \<Rightarrow> Ret (Some r, s')) = map_ret (\<lambda>(r, s'). (Some r, s')) (Ret x)"
  by (cases x) simp

lemma perform_then:
  "and_then x (\<lambda>(r, s'). Ret (Some r, s')) = map_ret (\<lambda>(r, s'). (Some r, s')) x"
  by (cases x) auto

lemma MatchAndExecute_perform: "MatchAndExecute rt q ps s = perform s (statement_of rt q ps)"
  unfolding MatchAndExecute_def statement_of_def Let_def
  by (intro dispatch_step) (simp_all only: perform_def option.case prod.case perform_done perform_then)

lemma contract_step:
  "(\<And>m. table_statement (op m) (t m)) \<Longrightarrow> (g = Some y \<Longrightarrow> table_statement (fst y) (snd y)) \<Longrightarrow>
   (case x of Some m \<Rightarrow> Some (op m, t m) | None \<Rightarrow> g) = Some y \<Longrightarrow> table_statement (fst y) (snd y)"
  by (cases x) auto

lemma statement_of_contract:
  assumes "statement_of rt q ps = Some (op, t)"
  shows "table_statement op t"
proof -
  note step = create_statement.table_statement_axioms
    drop_statement.table_statement_axioms truncate_statement.table_statement_axioms
    insert_statement.table_statement_axioms select_statement.table_statement_axioms
    update_statement.table_statement_axioms delete_statement.table_statement_axioms
  have "statement_of rt q ps = Some y \<Longrightarrow> table_statement (fst y) (snd y)" for y
    unfolding statement_of_def Let_def by (elim contract_step [rotated 2]; (rule step)?) simp
  from this [of "(op, t)"] assms show ?thesis by simp
qed

section \<open>The store as a whole\<close>

text \<open>The table a statement names, if the query is one the store handles.\<close>

definition named_table :: "go_rt \<Rightarrow> bytes \<Rightarrow> bytes option" where
  "named_table rt q = map_option snd (statement_of rt q [])"

lemma named_table_params: "map_option snd (statement_of rt q ps) = named_table rt q"
  by (simp add: named_table_def statement_of_def Let_def split: option.split)

lemma MatchAndExecute_handled:
  assumes "named_table rt q = Some t"
  obtains op where "table_statement op t"
    and "\<And>s. MatchAndExecute rt q ps s = map_ret (\<lambda>(r, s'). (Some r, s')) (op s)"
proof -
  from assms named_table_params [of rt q ps] obtain op where "statement_of rt q ps = Some (op, t)"
    by (cases "statement_of rt q ps") auto
  with statement_of_contract [OF this] that show thesis
    by (simp add: MatchAndExecute_perform perform_def)
qed

lemma MatchAndExecute_unhandled: "named_table rt q = None \<Longrightarrow> MatchAndExecute rt q ps s = Ret (None, s)"
  using named_table_params [of rt q ps]
  by (cases "statement_of rt q ps") (auto simp: MatchAndExecute_perform perform_def)

text \<open>An ASCII statement cannot panic: only the position of \<open> RETURNING \<close> could.\<close>

lemma Index_bound: "Index s t = Some i \<Longrightarrow> i + length t \<le> length s"
  by (induction s t arbitrary: i rule: Index.induct)
    (auto simp: HasPrefix_def split: if_splits dest: arg_cong [where f = length])

lemma split_returning_fits:
  "length (ToUpper rt v) \<le> length v \<Longrightarrow> \<exists>x. split_returning rt v = Ret x"
  using Index_bound [of "ToUpper rt v" "'' RETURNING ''"]
  by (auto simp: split_returning_def split: option.split)

lemma set_TrimRight: "set (TrimRight s cs) \<subseteq> set s"
  by (auto simp: TrimRight_def dest: set_dropWhileD)

lemma set_trim_left: "set (trim_left s) \<subseteq> set s"
proof (induction s rule: trim_left.induct)
  case (1 s)
  then show ?case by (subst trim_left.simps) (auto dest: in_set_dropD)
qed

lemma set_trim_left_rev: "set (trim_left_rev s) \<subseteq> set s"
  by (metis Un_iff set_append subsetI trim_left_rev_suffix)

lemma set_TrimSpace: "set (TrimSpace s) \<subseteq> set s"
  unfolding TrimSpace_def using set_trim_left set_trim_left_rev by fastforce

lemma exec_insert_returned:
  "split_returning rt (m 3) = Ret x \<Longrightarrow> returned (exec_insert rt q ps m s)"
  by (cases x) (simp add: exec_insert_steps Let_def)

lemma MatchAndExecute_fits:
  assumes "\<And>v. set v \<subseteq> set q \<Longrightarrow> length (ToUpper rt v) \<le> length v"
  shows "returned (MatchAndExecute rt q ps s)"
proof -
  have cap: "length (ToUpper rt (m i)) \<le> length (m i)"
    if "match_start insertRegex (TrimRight (TrimSpace q) '';'') = Some m" for m i
    using assms match_start_bytes [OF that] set_TrimRight set_TrimSpace by (meson subset_trans)
  have "statement_of rt q ps = Some (op, t) \<Longrightarrow> returned (op s)" for op t
    using split_returning_fits [OF cap, of _ 3] exec_insert_returned
    unfolding statement_of_def Let_def
    by (auto split: option.splits)
  then show ?thesis
    by (auto simp: MatchAndExecute_perform perform_def elim!: returnedE split: option.split)
qed

lemma ascii_upper_length: "is_ascii v \<Longrightarrow> length (ToUpper rt v) = length v"
  by (simp add: ToUpper_def)

lemma is_ascii_subset: "set v \<subseteq> set q \<Longrightarrow> is_ascii q \<Longrightarrow> is_ascii v"
  by (auto simp: is_ascii_def list_all_iff)

lemma MatchAndExecute_ascii: "is_ascii q \<Longrightarrow> returned (MatchAndExecute rt q ps s)"
  by (rule MatchAndExecute_fits) (simp add: ascii_upper_length is_ascii_subset)

lemma store_step:
  assumes "store_wf s" and "MatchAndExecute rt q ps s = Ret (r, s')"
  shows "store_wf s' \<and> (\<forall>k. named_table rt q \<noteq> Some k \<longrightarrow> s' k = s k) \<and>
    (r = None \<longleftrightarrow> named_table rt q = None)"
proof (cases "named_table rt q")
  case None
  with assms MatchAndExecute_unhandled [of rt q ps s] show ?thesis by simp
next
  case (Some t)
  from MatchAndExecute_handled [OF this] obtain op where op: "table_statement op t"
    "MatchAndExecute rt q ps s = map_ret (\<lambda>(r, s'). (Some r, s')) (op s)" by metis
  with assms(2) obtain r' where r: "op s = Ret (r', s')" "r = Some r'"
    by (auto simp: map_ret_Ret_iff)
  show ?thesis
    using table_statement.wf_step [OF op(1) assms(1) r(1)] table_statement.other_tables [OF op(1) r(1)]
      r(2) Some by auto
qed

lemma store_step_wf: "store_wf s \<Longrightarrow> MatchAndExecute rt q ps s = Ret (r, s') \<Longrightarrow> store_wf s'"
  using store_step by blast

text \<open>
  C5. A statement keeps every table of the store well-formed (a type and, in every row, a value
  for each column) and leaves all tables but the one it names as they were; a query the store does
  not handle changes nothing.
\<close>

theorem MatchAndExecute_keeps_store:
  assumes "store_wf s" and "MatchAndExecute rt q ps s = Ret (r, s')"
  shows "store_wf s' \<and> (\<forall>k. named_table rt q \<noteq> Some k \<longrightarrow> s' k = s k) \<and>
    (r = None \<longleftrightarrow> named_table rt q = None)"
  using assms by (rule store_step)

lemma MatchAndExecute_keeps_store_witness:
  "\<exists>r s'. MatchAndExecute ascii_rt ''CREATE TABLE a (x int)'' [] Map.empty = Ret (r, s') \<and> store_wf s' \<and>
     s' ''b'' = None"
proof -
  have "returned (MatchAndExecute ascii_rt ''CREATE TABLE a (x int)'' [] Map.empty)"
    by (rule MatchAndExecute_ascii) code_simp
  moreover have "named_table ascii_rt ''CREATE TABLE a (x int)'' = Some ''a''" by code_simp
  moreover have "store_wf Map.empty" by (simp add: store_wf_def)
  ultimately show ?thesis
    using MatchAndExecute_keeps_store [of Map.empty ascii_rt "''CREATE TABLE a (x int)''" "[]"]
    by (auto elim!: returnedE)
qed

text \<open>
  C33. Statements that name different tables can be exchanged: run in either order they give the
  same answers and the same store, so concurrent clients on different tables do not see each other.
\<close>

theorem MatchAndExecute_exchange:
  assumes "named_table rt q1 = Some t1" and "named_table rt q2 = Some t2" and "t1 \<noteq> t2"
    and "MatchAndExecute rt q1 ps1 s = Ret (r1, s1)" and "MatchAndExecute rt q2 ps2 s1 = Ret (r2, s12)"
  shows "\<exists>s2. MatchAndExecute rt q2 ps2 s = Ret (r2, s2) \<and> MatchAndExecute rt q1 ps1 s2 = Ret (r1, s12)"
proof -
  from MatchAndExecute_handled [OF assms(1)] obtain op1 where 1: "table_statement op1 t1"
    "\<And>s. MatchAndExecute rt q1 ps1 s = map_ret (\<lambda>(r, s'). (Some r, s')) (op1 s)" by metis
  from MatchAndExecute_handled [OF assms(2)] obtain op2 where 2: "table_statement op2 t2"
    "\<And>s. MatchAndExecute rt q2 ps2 s = map_ret (\<lambda>(r, s'). (Some r, s')) (op2 s)" by metis
  from assms(4,5) obtain a1 a2 where
    "op1 s = Ret (a1, s1)" "op2 s1 = Ret (a2, s12)" "r1 = Some a1" "r2 = Some a2"
    by (auto simp: 1(2) 2(2) map_ret_Ret_iff)
  moreover have "two_statements op1 t1 op2 t2"
    using 1(1) 2(1) assms(3) by (intro two_statements.intro two_statements_axioms.intro)
  ultimately show ?thesis
    using two_statements.exchange [of op1 t1 op2 t2 s a1 s1 a2 s12] by (auto simp: 1(2) 2(2))
qed

lemma MatchAndExecute_exchange_witness:
  "\<exists>r1 r2 s1 s2 s12.
     MatchAndExecute ascii_rt ''CREATE TABLE a (x int)'' [] Map.empty = Ret (r1, s1) \<and>
     MatchAndExecute ascii_rt ''SELECT * FROM b'' [] s1 = Ret (r2, s12) \<and>
     MatchAndExecute ascii_rt ''SELECT * FROM b'' [] Map.empty = Ret (r2, s2) \<and>
     MatchAndExecute ascii_rt ''CREATE TABLE a (x int)'' [] s2 = Ret (r1, s12)"
proof -
  have "returned (MatchAndExecute ascii_rt ''CREATE TABLE a (x int)'' [] Map.empty)"
    by (rule MatchAndExecute_ascii) code_simp
  then obtain r1 s1 where 1: "MatchAndExecute ascii_rt ''CREATE TABLE a (x int)'' [] Map.empty = Ret (r1, s1)"
    by (auto elim!: returnedE)
  have n: "named_table ascii_rt ''CREATE TABLE a (x int)'' = Some ''a''"
    "named_table ascii_rt ''SELECT * FROM b'' = Some ''b''" by code_simp+
  have "returned (MatchAndExecute ascii_rt ''SELECT * FROM b'' [] s1)"
    by (rule MatchAndExecute_ascii) code_simp
  then obtain r2 s12 where 2: "MatchAndExecute ascii_rt ''SELECT * FROM b'' [] s1 = Ret (r2, s12)"
    by (auto elim!: returnedE)
  show ?thesis
    using MatchAndExecute_exchange [OF n(1) n(2) _ 1 2] 1 2 by auto
qed

text \<open>
  C37. The store answers every statement, whatever its tables and parameters hold, if the statement
  is ASCII or upper-casing never makes a text longer.
\<close>

theorem MatchAndExecute_answers:
  assumes "is_ascii q \<or> (\<forall>v. length (uni_upper rt v) \<le> length v)"
  shows "\<exists>r s'. MatchAndExecute rt q ps s = Ret (r, s')"
proof -
  have "length (ToUpper rt v) \<le> length v" if "set v \<subseteq> set q" for v
    using assms ascii_upper_length [of v] is_ascii_subset [OF that] by (auto simp: ToUpper_def)
  then show ?thesis using MatchAndExecute_fits [of q rt ps s] by (auto elim!: returnedE)
qed

lemma MatchAndExecute_answers_witness:
  "\<exists>r s'. MatchAndExecute ascii_rt ''INSERT INTO t VALUES (1) RETURNING id'' [] Map.empty = Ret (r, s')"
  by (rule MatchAndExecute_answers) (simp add: ascii_rt_def)

text \<open>Twelve letters U+0250, of two bytes each; their upper-case forms U+2C6F have three.\<close>

definition wide_values :: bytes where
  "wide_values = ''('' @ concat (replicate 12 [CHR 0xC9, CHR 0x90]) @ '') RETURNING id''"

definition wide_upper :: bytes where
  "wide_upper = ''('' @ concat (replicate 12 [CHR 0xE2, CHR 0xB1, CHR 0xAF]) @ '') RETURNING ID''"

text \<open>
  The restriction is needed: the position of \<open> RETURNING \<close> is searched in the upper-case text
  and used in the text itself, so an INSERT of letters whose upper-case forms are longer panics.
\<close>

theorem RETURNING_panics:
  assumes "uni_upper rt wide_values = wide_upper"
  shows "MatchAndExecute rt (''INSERT INTO t VALUES '' @ wide_values) ps s = Panic"
proof -
  let ?q = "''INSERT INTO t VALUES '' @ wide_values"
  have trim: "TrimRight (TrimSpace ?q) '';'' = ?q"
    by code_simp
  have none: "match_start createTableRegex ?q = None" "match_start dropTableRegex ?q = None"
    "match_start truncateRegex ?q = None" by code_simp+
  have "map_option (\<lambda>m. m 3) (match_start insertRegex ?q) = Some wide_values" by code_simp
  then obtain m where m: "match_start insertRegex ?q = Some m" "m 3 = wide_values" by auto
  have "ToUpper rt wide_values = wide_upper"
    using assms by (simp add: ToUpper_def) code_simp
  moreover have "Index wide_upper '' RETURNING '' = Some 38" by code_simp
  moreover have "length wide_values < 49" by code_simp
  ultimately have "split_returning rt (m 3) = Panic"
    by (simp add: split_returning_def m(2))
  then have "exec_insert rt ?q ps m s = Panic" by (simp add: exec_insert_steps)
  then show ?thesis by (simp add: MatchAndExecute_def Let_def trim none m(1) del: append_Cons)
qed

lemma RETURNING_panics_witness:
  "MatchAndExecute (ascii_rt\<lparr>uni_upper := \<lambda>_. wide_upper\<rparr>) (''INSERT INTO t VALUES '' @ wide_values) []
     Map.empty = Panic"
  by (rule RETURNING_panics) simp

section \<open>UPDATE\<close>

lemma col_index_bound: "col_index rt cols t = Some i \<Longrightarrow> i < length cols \<and> ToLower rt (cols ! i) = t"
  by (induction cols arbitrary: i) (auto split: if_splits)

lemma col_index_first:
  "col_index rt cols (ToLower rt (cols ! j)) = Some j \<Longrightarrow> col_index rt cols t = Some j \<longleftrightarrow> t = ToLower rt (cols ! j)"
  using col_index_bound by metis

text \<open>The assignments form a map: one value per lower-case name.\<close>

definition assignment_map :: "go_rt \<Rightarrow> (bytes \<times> bytes) list \<Rightarrow> bool" where
  "assignment_map rt kvs \<longleftrightarrow> distinct (map fst kvs) \<and> (\<forall>k \<in> fst ` set kvs. \<exists>x. k = ToLower rt x)"

lemma sanitizeName_lower: "\<exists>x. sanitizeName rt k = ToLower rt x"
  by (auto simp: sanitizeName_def Let_def)

lemma assignment_map_update:
  "assignment_map rt kvs \<Longrightarrow> assignment_map rt (AList.update (sanitizeName rt k) v kvs)"
  using sanitizeName_lower [of rt k]
  by (auto simp: assignment_map_def distinct_update update_keys simp flip: set_map split: if_splits)

lemma assignments_map: "assignment_map rt (parseSetAssignments rt e ps)"
proof -
  have "assignment_map rt res \<Longrightarrow> assignment_map rt (fold (\<lambda>p res. case SplitN2 p b of
      [k, v] \<Rightarrow> AList.update (sanitizeName rt k) (parseValue ps v) res | _ \<Rightarrow> res) xs res)" for b xs res
    by (induction xs arbitrary: res) (auto simp: assignment_map_update split: list.split)
  moreover have "assignment_map rt []" by (simp add: assignment_map_def)
  ultimately show ?thesis by (simp add: parseSetAssignments_def)
qed

text \<open>The value a row has in column \<open>j\<close> after the assignments.\<close>

definition assigned_cell :: "go_rt \<Rightarrow> bytes list \<Rightarrow> (bytes \<rightharpoonup> bytes) \<Rightarrow> bytes list \<Rightarrow> nat \<Rightarrow> bytes" where
  "assigned_cell rt cols new row j =
     (case (if findColIndex rt cols (cols ! j) = Some j then new (ToLower rt (cols ! j)) else None) of
        Some v \<Rightarrow> v
      | None \<Rightarrow> row ! j)"

lemma assign_cell_nth:
  assumes "j < length row" and "length row = length cols" and "ToLower rt k = k"
  shows "assign_cell rt cols (k, v) row ! j =
    (if findColIndex rt cols (cols ! j) = Some j \<and> k = ToLower rt (cols ! j) then v else row ! j)"
proof (cases "col_index rt cols k")
  case None
  then have "\<not> (col_index rt cols (ToLower rt (cols ! j)) = Some j \<and> k = ToLower rt (cols ! j))"
    by auto
  then show ?thesis by (simp add: assign_cell_def findColIndex_def assms(3) None) blast
next
  case (Some i)
  then have i: "i < length row" "k = ToLower rt (cols ! i)"
    using col_index_bound [OF Some] assms(2) by auto
  show ?thesis
  proof (cases "i = j")
    case True
    with Some i(1) i(2) [symmetric] show ?thesis
      by (simp add: assign_cell_def findColIndex_def assms(3))
  next
    case False
    with Some have "\<not> (col_index rt cols (ToLower rt (cols ! j)) = Some j \<and> k = ToLower rt (cols ! j))"
      by (metis option.inject)
    with Some False i(1) show ?thesis
      by (simp add: assign_cell_def findColIndex_def assms(3)) blast
  qed
qed

lemma assign_row_nth:
  assumes "\<And>x. ToLower rt (ToLower rt x) = ToLower rt x"
  shows "assignment_map rt kvs \<Longrightarrow> j < length row \<Longrightarrow> length row = length cols \<Longrightarrow>
    assign_row rt cols kvs row ! j = assigned_cell rt cols (map_of kvs) row j"
proof (induction kvs arbitrary: row)
  case Nil
  then show ?case by (simp add: assign_row_def assigned_cell_def)
next
  case (Cons kv kvs)
  obtain k v where kv: "kv = (k, v)" by (cases kv)
  have k: "ToLower rt k = k" "map_of kvs k = None" "assignment_map rt kvs"
    using Cons.prems(1) assms by (auto simp: assignment_map_def kv map_of_eq_None_iff)
  have "assign_row rt cols (kv # kvs) row = assign_row rt cols kvs (assign_cell rt cols kv row)"
    by (simp add: assign_row_def)
  then have "assign_row rt cols (kv # kvs) row ! j =
      assigned_cell rt cols (map_of kvs) (assign_cell rt cols kv row) j"
    using Cons.IH [OF k(3)] Cons.prems(2,3) by simp
  also have "\<dots> = assigned_cell rt cols (map_of (kv # kvs)) row j"
    using assign_cell_nth [OF Cons.prems(2,3) k(1)] k(2) by (auto simp: assigned_cell_def kv split: option.split)
  finally show ?case .
qed

lemma assign_row_order:
  assumes "\<And>x. ToLower rt (ToLower rt x) = ToLower rt x" and "assignment_map rt kvs"
    and "mset kvs' = mset kvs" and "length row = length cols"
  shows "assign_row rt cols kvs' row = assign_row rt cols kvs row"
proof (rule nth_equalityI)
  have m: "assignment_map rt kvs'"
    using assms(2,3) by (metis assignment_map_def mset_eq_imp_distinct_iff mset_map set_mset_mset)
  have "map_of kvs' = map_of kvs"
    using m assms(2,3) by (metis assignment_map_def map_of_inject_set mset_eq_setD)
  then show "assign_row rt cols kvs' row ! j = assign_row rt cols kvs row ! j"
    if "j < length (assign_row rt cols kvs' row)" for j
    using that assign_row_nth [OF assms(1) m] assign_row_nth [OF assms(1,2)] assms(4) by simp
qed simp

text \<open>
  C34. UPDATE gives every row that meets the condition the assigned values, in the first column of
  each assigned name, and keeps every other cell and row, in whatever order Go walks the map of
  assignments; the tag counts the rows that met the condition.
\<close>

theorem exec_update_cells:
  assumes "\<forall>x. ToLower rt (ToLower rt x) = ToLower rt x"
    and "s (sanitizeName rt (m 1)) = Some tbl" and "table_wf (sanitizeName rt (m 1)) tbl"
    and "mset kvs = mset (parseSetAssignments rt (TrimSpace (m 2)) ps)"
  shows "exec_update rt q ps m s =
     (let hit = (\<lambda>row. evaluateWhere rt (TrimSpace (m 3)) (t_columns tbl) row ps) in
      (empty_rule\<lparr>r_id := ''stateful-update'', r_query := q,
         r_tag := ''UPDATE '' @ Itoa (int (length (filter hit (t_rows tbl))))\<rparr>,
       s(sanitizeName rt (m 1) \<mapsto> tbl\<lparr>t_rows :=
         map (\<lambda>row. if hit row then assign_row rt (t_columns tbl) kvs row else row) (t_rows tbl)\<rparr>))) \<and>
    (\<forall>row \<in> set (t_rows tbl). \<forall>j < length (t_columns tbl).
       assign_row rt (t_columns tbl) kvs row ! j = assigned_cell rt (t_columns tbl) (map_of kvs) row j)"
proof -
  have m: "assignment_map rt kvs"
    using assignments_map [of rt "TrimSpace (m 2)" ps] assms(4)
    by (metis assignment_map_def mset_eq_imp_distinct_iff mset_map set_mset_mset)
  have len: "length row = length (t_columns tbl)" if "row \<in> set (t_rows tbl)" for row
    using table_wf_row [OF assms(3)] that by blast
  have same: "assign_row rt (t_columns tbl) (parseSetAssignments rt (TrimSpace (m 2)) ps) row =
      assign_row rt (t_columns tbl) kvs row" if "row \<in> set (t_rows tbl)" for row
    using assign_row_order [of rt kvs _ row "t_columns tbl"] assms(1) m len [OF that] assms(4) by metis
  have "assign_row rt (t_columns tbl) kvs row ! j = assigned_cell rt (t_columns tbl) (map_of kvs) row j"
    if "row \<in> set (t_rows tbl)" "j < length (t_columns tbl)" for row j
    using assign_row_nth [OF _ m] assms(1) that len by metis
  note cells = this
  have "map (\<lambda>row. if h row then assign_row rt (t_columns tbl)
        (parseSetAssignments rt (TrimSpace (m 2)) ps) row else row) (t_rows tbl) =
      map (\<lambda>row. if h row then assign_row rt (t_columns tbl) kvs row else row) (t_rows tbl)" for h
    by (simp add: same)
  note rows = this
  have "exec_update rt q ps m s =
     (let hit = (\<lambda>row. evaluateWhere rt (TrimSpace (m 3)) (t_columns tbl) row ps) in
      (empty_rule\<lparr>r_id := ''stateful-update'', r_query := q,
         r_tag := ''UPDATE '' @ Itoa (int (length (filter hit (t_rows tbl))))\<rparr>,
       s(sanitizeName rt (m 1) \<mapsto> tbl\<lparr>t_rows :=
         map (\<lambda>row. if hit row then assign_row rt (t_columns tbl) kvs row else row) (t_rows tbl)\<rparr>)))"
    unfolding exec_update_def Let_def assms(2) option.case by (simp only: rows)
  with cells show ?thesis by blast
qed

lemma exec_update_cells_witness:
  "assign_row ascii_rt [''a'', ''b''] [(''b'', ''2''), (''a'', ''1'')] [''x'', ''y''] ! 1 = ''2''"
proof -
  let ?m = "(\<lambda>_. [])(1 := ''t'', 2 := ''a=1,b=2'') :: caps"
  let ?t = "\<lparr>t_name = ''t'', t_columns = [''a'', ''b''], t_types = [25, 25], t_rows = [[''x'', ''y'']]\<rparr>"
  have idem: "\<forall>x. ToLower ascii_rt (ToLower ascii_rt x) = ToLower ascii_rt x"
    by (auto simp: ToLower_def ascii_rt_def is_ascii_def list_all_iff lower_byte_def is_upper_def)
  have name: "sanitizeName ascii_rt (?m 1) = ''t''" by code_simp
  have kvs: "parseSetAssignments ascii_rt (TrimSpace (?m 2)) [] = [(''a'', ''1''), (''b'', ''2'')]"
    by code_simp
  have "assign_row ascii_rt [''a'', ''b''] [(''b'', ''2''), (''a'', ''1'')] [''x'', ''y''] ! 1 =
      assigned_cell ascii_rt [''a'', ''b''] (map_of [(''b'', ''2''), (''a'', ''1'')]) [''x'', ''y''] 1"
    using exec_update_cells [of ascii_rt "[''t'' \<mapsto> ?t]" ?m ?t "[(''b'', ''2''), (''a'', ''1'')]" "[]" "[]",
        OF idem, unfolded name kvs]
    by (simp add: table_wf_def)
  also have "\<dots> = ''2''" by code_simp
  finally show ?thesis .
qed

section \<open>SELECT, DELETE and INSERT\<close>

text \<open>
  A SELECT leaves the store alone.  On a missing table it answers SQLSTATE 42P01, otherwise
  with a rectangular result: a type and, in every row, a value for each column.
\<close>

theorem exec_select_rectangular:
  assumes "store_wf s"
  shows "snd (exec_select rt q ps m s) = s \<and>
    (case r_error (fst (exec_select rt q ps m s)) of
       Some e \<Rightarrow> s (sanitizeName rt (m 2)) = None \<and> me_code e = ''42P01''
     | None \<Rightarrow> s (sanitizeName rt (m 2)) \<noteq> None \<and>
         (let r = fst (exec_select rt q ps m s) in length (r_types r) = length (r_columns r) \<and>
           (\<forall>row \<in> set (r_rows r). length row = length (r_columns r))))"
proof (cases "s (sanitizeName rt (m 2))")
  case None
  then show ?thesis by (simp add: exec_select_def Let_def missing_table_def)
next
  case (Some tbl)
  with assms have "table_wf (sanitizeName rt (m 2)) tbl" by (rule store_wf_table)
  with Some show ?thesis
    by (auto simp: exec_select_def Let_def table_wf_def empty_rule_def)
qed

lemma exec_select_rectangular_witness:
  "r_error (fst (exec_select ascii_rt ''q'' [] (\<lambda>_. ''t'') Map.empty)) \<noteq> None"
  using exec_select_rectangular [of Map.empty ascii_rt "''q''" "[]" "\<lambda>_. ''t''"]
  by (auto simp: store_wf_def split: option.splits)

lemma EqualFold_star: "\<not> EqualFold rt ''*'' ''COUNT(*)''" "\<not> EqualFold rt ''*'' ''COUNT(1)''"
  by (simp_all add: lower_byte_def is_upper_def char_of_def bit_iff_odd)

text \<open>
  After a DELETE a \<open>SELECT *\<close> returns, in their order, the rows of before that did not meet the
  condition of the DELETE and meet that of the SELECT; the tag of the DELETE counts the others.
\<close>

theorem delete_then_select:
  assumes "s (sanitizeName rt (m 1)) = Some tbl"
    and "sanitizeName rt (m' 2) = sanitizeName rt (m 1)" and "TrimSpace (m' 1) = ''*''"
  shows "(let (answer, s') = exec_delete rt q ps m s;
              hit = (\<lambda>row. evaluateWhere rt (TrimSpace (m 2)) (t_columns tbl) row ps)
          in r_tag answer = ''DELETE '' @ Itoa (int (length (filter hit (t_rows tbl)))) \<and>
             r_rows (fst (exec_select rt q' ps' m' s')) =
               filter (\<lambda>row. \<not> hit row \<and> evaluateWhere rt (TrimSpace (m' 3)) (t_columns tbl) row ps')
                 (t_rows tbl))"
  using assms EqualFold_star by (simp add: exec_delete_def exec_select_def Let_def conj_commute)

lemma delete_then_select_witness:
  "r_rows (fst (exec_select ascii_rt [] [] ((\<lambda>_. [])(1 := ''*'', 2 := ''t''))
     (snd (exec_delete ascii_rt [] [] ((\<lambda>_. [])(1 := ''t'', 2 := ''a = x''))
       [''t'' \<mapsto> \<lparr>t_name = ''t'', t_columns = [''a''], t_types = [25], t_rows = [[''X''], [''y'']]\<rparr>])))) = [[''y'']]"
proof -
  have name: "sanitizeName ascii_rt ''t'' = ''t''" by code_simp
  have star: "TrimSpace ''*'' = ''*''" by code_simp
  have hit: "evaluateWhere ascii_rt (TrimSpace ''a = x'') [''a''] [''X''] []"
    "\<not> evaluateWhere ascii_rt (TrimSpace ''a = x'') [''a''] [''y''] []"
    "evaluateWhere ascii_rt (TrimSpace []) [''a''] r []" for r by code_simp+
  show ?thesis
    using delete_then_select [of "[''t'' \<mapsto> \<lparr>t_name = ''t'', t_columns = [''a''], t_types = [25], t_rows = [[''X''], [''y'']]\<rparr>]"
        ascii_rt "(\<lambda>_. [])(1 := ''t'', 2 := ''a = x'')"
        "\<lparr>t_name = ''t'', t_columns = [''a''], t_types = [25], t_rows = [[''X''], [''y'']]\<rparr>"
        "(\<lambda>_. [])(1 := ''*'', 2 := ''t'')" "[]" "[]" "[]" "[]"]
    by (simp add: name star hit Let_def split: prod.splits)
qed

lemma insert_existing:
  assumes "s (sanitizeName rt (m 1)) = Some tbl" and "split_returning rt (m 3) = Ret (vs, ret)"
  shows "exec_insert rt q ps m s =
    (let rows = parseValuesTuples vs ps in
     Ret (empty_rule\<lparr>r_id := ''stateful-insert'', r_query := q,
            r_tag := ''INSERT 0 '' @ Itoa (int (length rows)),
            r_columns := if ret \<noteq> [] then t_columns tbl else [],
            r_types := if ret \<noteq> [] then t_types tbl else [],
            r_rows := if ret \<noteq> [] then rows else []\<rparr>,
          s(sanitizeName rt (m 1) \<mapsto>
            tbl\<lparr>t_rows := t_rows tbl @ map (full_row (t_columns tbl)) rows\<rparr>)))"
  using assms by (simp add: exec_insert_steps insert_table_def)

text \<open>
  After an INSERT into an existing table a \<open>SELECT *\<close> returns the old rows and then the new
  ones, in the order of their tuples, each cut or filled with \<open>NULL\<close> to the table's columns.
  The values go by position: the column list of the INSERT has no effect at all.
\<close>

theorem insert_then_select:
  assumes "s (sanitizeName rt (m 1)) = Some tbl" and "split_returning rt (m 3) = Ret (vs, ret)"
    and "sanitizeName rt (m' 2) = sanitizeName rt (m 1)" and "TrimSpace (m' 1) = ''*''"
  shows "(\<exists>answer s'. exec_insert rt q ps m s = Ret (answer, s') \<and>
      r_tag answer = ''INSERT 0 '' @ Itoa (int (length (parseValuesTuples vs ps))) \<and>
      r_rows (fst (exec_select rt q' ps' m' s')) =
        filter (\<lambda>row. evaluateWhere rt (TrimSpace (m' 3)) (t_columns tbl) row ps')
          (t_rows tbl @ map (full_row (t_columns tbl)) (parseValuesTuples vs ps))) \<and>
    exec_insert rt q ps (m(2 := cols)) s = exec_insert rt q ps m s"
proof -
  have "exec_insert rt q ps (m(2 := cols)) s = exec_insert rt q ps m s"
    using insert_existing [of s rt "m(2 := cols)" tbl vs ret q ps]
      insert_existing [of s rt m tbl vs ret q ps] assms(1,2) by simp
  then show ?thesis
    using EqualFold_star assms(3,4)
    by (simp add: insert_existing [of s rt m tbl vs ret q ps, OF assms(1,2)] exec_select_def Let_def)
qed

lemma insert_then_select_witness:
  "\<exists>answer s'. exec_insert ascii_rt [] [] ((\<lambda>_. [])(1 := ''t'', 3 := ''(x), (y, z)''))
     [''t'' \<mapsto> \<lparr>t_name = ''t'', t_columns = [''a''], t_types = [25], t_rows = []\<rparr>] = Ret (answer, s') \<and>
   r_rows (fst (exec_select ascii_rt [] [] ((\<lambda>_. [])(1 := ''*'', 2 := ''t'')) s')) = [[''x''], [''y'']]"
proof -
  have name: "sanitizeName ascii_rt ''t'' = ''t''" by code_simp
  have star: "TrimSpace ''*'' = ''*''" by code_simp
  have ret: "split_returning ascii_rt ''(x), (y, z)'' = Ret (''(x), (y, z)'', [])"
    by code_simp
  have rows: "parseValuesTuples ''(x), (y, z)'' [] = [[''x''], [''y'', ''z'']]" by code_simp
  have hit: "evaluateWhere ascii_rt (TrimSpace []) [''a''] r []" for r by code_simp
  show ?thesis
    using insert_then_select [of "[''t'' \<mapsto> \<lparr>t_name = ''t'', t_columns = [''a''], t_types = [25], t_rows = []\<rparr>]"
        ascii_rt "(\<lambda>_. [])(1 := ''t'', 3 := ''(x), (y, z)'')"
        "\<lparr>t_name = ''t'', t_columns = [''a''], t_types = [25], t_rows = []\<rparr>" "''(x), (y, z)''" "[]"
        "(\<lambda>_. [])(1 := ''*'', 2 := ''t'')" "[]" "[]" "[]" "[]" "[]"]
    by (auto simp: name star ret rows hit full_row_def)
qed

section \<open>Conditions\<close>

lemma IndexByte_None: "IndexByte s b = None \<longleftrightarrow> b \<notin> set s"
  by (induction s) auto

lemma IndexByte_first: "b \<notin> set l \<Longrightarrow> IndexByte (l @ b # r) b = Some (length l)"
  by (induction l) auto

text \<open>
  The only condition the store understands is \<open>column = value\<close>, split at the first equals sign
  and compared ignoring case.  Every other condition, and one on an unknown column, holds of every
  row, so a DELETE under it empties the table.
\<close>

theorem evaluateWhere_cases:
  "(CHR ''='' \<notin> set l \<longrightarrow> evaluateWhere rt l cols row ps) \<and>
   (CHR ''='' \<notin> set l \<longrightarrow> evaluateWhere rt (l @ CHR ''='' # r) cols row ps =
      (case findColIndex rt cols (sanitizeName rt l) of
         Some i \<Rightarrow> i < length row \<longrightarrow> EqualFold rt (row ! i) (where_value (TrimSpace r) ps)
       | None \<Rightarrow> True)) \<and>
   (CHR ''='' \<notin> set (TrimSpace (m 2)) \<longrightarrow> s (sanitizeName rt (m 1)) = Some tbl \<longrightarrow>
      snd (exec_delete rt q ps m s) = s(sanitizeName rt (m 1) \<mapsto> tbl\<lparr>t_rows := []\<rparr>))"
proof (intro conjI impI)
  have none: "evaluateWhere rt w cs row ps" if "CHR ''='' \<notin> set w" for w cs row
    using that by (simp add: evaluateWhere_def SplitN2_def IndexByte_None [THEN iffD2])
  show "CHR ''='' \<notin> set l \<Longrightarrow> evaluateWhere rt l cols row ps" by (rule none)
  show "evaluateWhere rt (l @ CHR ''='' # r) cols row ps =
      (case findColIndex rt cols (sanitizeName rt l) of
         Some i \<Rightarrow> i < length row \<longrightarrow> EqualFold rt (row ! i) (where_value (TrimSpace r) ps)
       | None \<Rightarrow> True)" if "CHR ''='' \<notin> set l"
    using that by (simp add: evaluateWhere_def SplitN2_def IndexByte_first Let_def split: option.split)
  show "snd (exec_delete rt q ps m s) = s(sanitizeName rt (m 1) \<mapsto> tbl\<lparr>t_rows := []\<rparr>)"
    if "CHR ''='' \<notin> set (TrimSpace (m 2))" "s (sanitizeName rt (m 1)) = Some tbl"
    using that none [OF that(1)] by (simp add: exec_delete_def Let_def)
qed

lemma evaluateWhere_cases_witness:
  "snd (exec_delete ascii_rt [] [] ((\<lambda>_. [])(1 := ''t'', 2 := ''id > 5''))
     [''t'' \<mapsto> \<lparr>t_name = ''t'', t_columns = [''id''], t_types = [25], t_rows = [[''1''], [''9'']]\<rparr>])
   = [''t'' \<mapsto> \<lparr>t_name = ''t'', t_columns = [''id''], t_types = [25], t_rows = []\<rparr>]"
proof -
  have name: "sanitizeName ascii_rt ''t'' = ''t''" by code_simp
  have w: "TrimSpace ''id > 5'' = ''id > 5''" by code_simp
  show ?thesis
    using evaluateWhere_cases [of "[]" ascii_rt "[]" "[]" "[]" "[]" "(\<lambda>_. [])(1 := ''t'', 2 := ''id > 5'')"
        "[''t'' \<mapsto> \<lparr>t_name = ''t'', t_columns = [''id''], t_types = [25], t_rows = [[''1''], [''9'']]\<rparr>]"]
    by (simp add: name w)
qed

section \<open>Statements the patterns misread\<close>

definition one_column_t :: "bytes list list \<Rightarrow> tables" where
  "one_column_t rows =
     [''t'' \<mapsto> \<lparr>t_name = ''t'', t_columns = [''id''], t_types = [25], t_rows = rows\<rparr>]"

lemma multi_line_create:
  "MatchAndExecute rt (''CREATE TABLE t ('' @ [CHR 0x0A] @ ''id int'' @ [CHR 0x0A] @ '')'') ps s =
     Ret (None, s)"
  by (rule MatchAndExecute_unhandled) code_simp

lemma decimal_create:
  "\<exists>r s'. MatchAndExecute rt ''CREATE TABLE t (id int, price decimal(10,2))'' ps s = Ret (Some r, s') \<and>
      map_option t_columns (s' ''t'') = Some [''id'', ''price'', ''2)'']"
proof -
  let ?d = "''CREATE TABLE t (id int, price decimal(10,2))''"
  have t: "TrimRight (TrimSpace ?d) '';'' = ?d" by code_simp
  have "map_option (\<lambda>m. (m 1, m 2)) (match_start createTableRegex ?d) =
      Some (''t'', ''id int, price decimal(10,2)'')" by code_simp
  then obtain m where m: "match_start createTableRegex ?d = Some m" "m 1 = ''t''"
      "m 2 = ''id int, price decimal(10,2)''" by auto
  have "map_option t_columns (snd (exec_create rt ?d ((\<lambda>_. [])(1 := ''t'', 2 := ''id int, price decimal(10,2)''))
      s) ''t'') = Some [''id'', ''price'', ''2)'']" by code_simp
  then have "map_option t_columns (snd (exec_create rt ?d m s) ''t'') = Some [''id'', ''price'', ''2)'']"
    using m(2,3) by (simp add: exec_create_def Let_def)
  then show ?thesis
    by (cases "exec_create rt ?d m s") (simp add: MatchAndExecute_def Let_def t m(1))
qed

lemma mixed_case_count:
  "\<exists>r. MatchAndExecute rt ''SELECT Count(*) FROM t'' ps (one_column_t [[''1''], [''2'']]) =
      Ret (Some r, one_column_t [[''1''], [''2'']]) \<and>
      r_columns r = [''count(*)''] \<and> r_rows r = [[''NULL''], [''NULL'']]"
proof -
  let ?s = "''SELECT Count(*) FROM t''" and ?t = "one_column_t [[''1''], [''2'']]"
  have t: "TrimRight (TrimSpace ?s) '';'' = ?s" by code_simp
  have n: "match_start createTableRegex ?s = None" "match_start dropTableRegex ?s = None"
    "match_start truncateRegex ?s = None" "match_start insertRegex ?s = None" by code_simp+
  have "map_option (\<lambda>m. (m 1, m 2, m 3)) (match_start selectRegex ?s) = Some (''Count(*)'', ''t'', [])"
    by code_simp
  then obtain m where m: "match_start selectRegex ?s = Some m" "m 1 = ''Count(*)''" "m 2 = ''t''" "m 3 = []"
    by auto
  have "(r_columns (fst (exec_select rt ?s ps ((\<lambda>_. [])(1 := ''Count(*)'', 2 := ''t'')) ?t)),
      r_rows (fst (exec_select rt ?s ps ((\<lambda>_. [])(1 := ''Count(*)'', 2 := ''t'')) ?t))) =
      ([''count(*)''], [[''NULL''], [''NULL'']])" by code_simp
  then have a: "r_columns (fst (exec_select rt ?s ps m ?t)) = [''count(*)'']"
    "r_rows (fst (exec_select rt ?s ps m ?t)) = [[''NULL''], [''NULL'']]"
    using m by (simp_all add: exec_select_def Let_def)
  have "snd (exec_select rt ?s ps m ?t) = ?t" by (simp add: exec_select_def Let_def split: option.split)
  with a show ?thesis
    by (cases "exec_select rt ?s ps m ?t") (simp add: MatchAndExecute_def Let_def t n m(1))
qed

text \<open>
  Three statements of everyday SQL that the patterns misread, whatever the tables hold: a
  CREATE TABLE over several lines is not recognised at all (\<open>.\<close> stops at a newline); the comma in
  \<open>decimal(10,2)\<close> ends a column, so \<open>2)\<close> becomes one; and \<open>Count(*)\<close> in mixed case is taken for
  the name of a column, which is \<open>NULL\<close> in every row of a table that has no such column.
\<close>

theorem misread_statements:
  "MatchAndExecute rt (''CREATE TABLE t ('' @ [CHR 0x0A] @ ''id int'' @ [CHR 0x0A] @ '')'') ps s =
     Ret (None, s) \<and>
   (\<exists>r s'. MatchAndExecute rt ''CREATE TABLE t (id int, price decimal(10,2))'' ps s = Ret (Some r, s') \<and>
      map_option t_columns (s' ''t'') = Some [''id'', ''price'', ''2)'']) \<and>
   (\<exists>r. MatchAndExecute rt ''SELECT Count(*) FROM t'' ps (one_column_t [[''1''], [''2'']]) =
      Ret (Some r, one_column_t [[''1''], [''2'']]) \<and>
      r_columns r = [''count(*)''] \<and> r_rows r = [[''NULL''], [''NULL'']])"
  by (intro conjI multi_line_create decimal_create mixed_case_count)

section \<open>Names in the text of a statement\<close>

definition plain_name :: "bytes \<Rightarrow> bool" where
  "plain_name n \<longleftrightarrow> n \<noteq> [] \<and> (\<forall>c \<in> set n. ident_byte c \<and> c \<noteq> CHR ''.'')"

lemma ident_byte_facts:
  assumes "ident_byte c"
  shows "\<not> blank c \<and> visible c \<and> c \<noteq> CHR '';'' \<and> c \<noteq> CHR 0x22 \<and> c \<noteq> CHR 0x27 \<and> c \<noteq> CHR 0x60"
proof -
  have "code c \<noteq> code d" if "\<not> ident_byte d" for d using that assms by auto
  then show ?thesis
    using assms by (auto simp: ident_byte_def is_lower_def is_upper_def is_digit_def blank_def visible_def is_space_def)
qed

lemma run_needs_blank:
  "\<forall>c \<in> set s. \<not> blank c \<Longrightarrow> run (map One as @ One Blank # rs) s st cs = None"
proof (induction as arbitrary: s)
  case Nil
  then show ?case by (cases s) simp_all
next
  case (Cons a as)
  moreover have "\<forall>c \<in> set (drop (atom_len a s) s). \<not> blank c"
    using Cons.prems by (meson in_set_dropD)
  ultimately show ?case by simp
qed

lemma run_name:
  assumes "plain_name n" and "run rs [] (st(i := n)) (cs(i := n)) = Some r"
  shows "run (group i (plus Ident) @ rs) n st cs = Some r"
proof -
  obtain c t where n: "n = c # t" using assms by (cases n) (auto simp: plain_name_def)
  have all: "ident_byte c" "\<And>d. d \<in> set t \<Longrightarrow> ident_byte d"
    using assms(1) by (simp_all add: plain_name_def n)
  have "run (Star Ident # Close i # rs) (t @ []) (st(i := n)) cs = Some r"
    by (rule run_Star_longest) (use all(2) assms(2) in \<open>simp_all add: atom_len_Ident n\<close>)
  then show ?thesis
    using all(1) by (simp add: group_def plus_def n atom_len_Ident del: atom_len.simps)
qed

lemma run_blanks_stop: "\<not> blank c \<Longrightarrow> run (Star Blank # rs) (c # s) st cs = run rs (c # s) st cs"
  by simp

lemma run_opt_words:
  "\<forall>c \<in> set s. \<not> blank c \<Longrightarrow> run (Opt (kw w @ plus Blank @ ps) # rs) s st cs = run rs s st cs"
  using run_needs_blank [of s "map Fold w" "Star Blank # ps @ rs" st cs]
  by (simp add: kw_def plus_def)

lemma plain_name_bytes:
  assumes "plain_name n"
  shows "\<forall>c \<in> set n. \<not> blank c \<and> visible c \<and> c \<noteq> CHR '';'' \<and> c \<noteq> CHR ''.'' \<and> c \<noteq> CHR 0x22 \<and>
    c \<noteq> CHR 0x27 \<and> c \<noteq> CHR 0x60"
  using assms ident_byte_facts by (auto simp: plain_name_def)

lemma trim_plain_end:
  assumes "plain_name n" and "visible a"
  shows "TrimRight (TrimSpace (a # u @ n)) '';'' = a # u @ n"
proof -
  obtain v y where n: "n = v @ [y]" using assms(1) by (cases n rule: rev_cases) (auto simp: plain_name_def)
  have y: "visible y" "y \<noteq> CHR '';''" using plain_name_bytes [OF assms(1)] by (simp_all add: n)
  have "TrimSpace ([] @ (a # u @ n) @ []) = a # u @ n"
    by (rule TrimSpace_visible_ends [of _ a "u @ n" "a # u @ v" y]) (simp_all add: n assms(2) y)
  then show ?thesis by (simp add: TrimRight_def n y)
qed

lemma sanitize_plain_name:
  assumes "plain_name n"
  shows "sanitizeName rt n = ToLower rt n"
proof -
  note b = plain_name_bytes [OF assms]
  obtain a u where n: "n = a # u" using assms by (cases n) (auto simp: plain_name_def)
  obtain v y where n': "n = v @ [y]" using assms by (cases n rule: rev_cases) (auto simp: plain_name_def)
  have va: "visible a" using b by (simp add: n)
  have vy: "visible y" using b by (simp add: n')
  have "TrimSpace ([] @ n @ []) = n"
    by (rule TrimSpace_visible_ends [OF n n' va vy]) simp_all
  moreover have "dropWhile (\<lambda>c. c \<in> set (quotes @ [CHR 0x60])) n = n"
    using b unfolding n quotes_def by simp
  moreover have "TrimRight n (quotes @ [CHR 0x60]) = n"
    using b unfolding n' quotes_def by (simp add: TrimRight_def)
  moreover have "rev (takeWhile (\<lambda>c. c \<noteq> CHR ''.'') (rev n)) = n"
    using b by (subst takeWhile_eq_all_conv [THEN iffD2]) simp_all
  ultimately show ?thesis by (simp only: sanitizeName_def Trim_def Let_def append_Nil append_Nil2)
qed

lemma blank_letters: "blank (CHR '' '')" "\<not> blank (CHR ''T'')" "\<not> blank (CHR ''*'')" "\<not> blank (CHR ''F'')"
  by (simp_all add: blank_def)

lemma match_drop:
  assumes "plain_name n"
  shows "\<exists>m. match_start dropTableRegex (''DROP TABLE '' @ n) = Some m \<and> m 1 = n"
proof -
  obtain c t where n: "n = c # t" "\<not> blank c"
    using assms plain_name_bytes [OF assms] by (cases n) (auto simp: plain_name_def)
  have opt: "run (Opt (kw ''IF'' @ plus Blank @ kw ''EXISTS'' @ plus Blank) # ident 1) n st cs =
      run (ident 1) n st cs" for st cs
    using plain_name_bytes [OF assms] by (intro run_opt_words) blast
  have "run (ident 1 @ []) n st cs = Some (cs(1 := n), [])" for st cs
    unfolding ident_def by (rule run_name [OF assms]) simp
  with opt have "run (Opt (kw ''IF'' @ plus Blank @ kw ''EXISTS'' @ plus Blank) # ident 1) n st cs =
      Some (cs(1 := n), [])" for st cs by simp
  then have "run dropTableRegex (''DROP TABLE '' @ n) st cs = Some (cs(1 := n), [])" for st cs
    unfolding dropTableRegex_def kw_def plus_def
    by (simp add: n blank_letters lower_byte_def is_upper_def char_of_def bit_iff_odd)
  then show ?thesis by (simp add: match_start_def)
qed

lemma match_select:
  assumes "plain_name n"
  shows "\<exists>m. match_start selectRegex (''SELECT * FROM '' @ n) = Some m \<and> m 1 = ''*'' \<and> m 2 = n \<and> m 3 = []"
proof -
  obtain c t where n: "n = c # t" "\<not> blank c"
    using assms plain_name_bytes [OF assms] by (cases n) (auto simp: plain_name_def)
  have "run (ident 2 @ [where_part 3]) n st cs = Some (cs(2 := n), [])" for st cs
    unfolding ident_def where_part_def by (rule run_name [OF assms]) (simp add: plus_def)
  then have "run selectRegex (''SELECT * FROM '' @ n) st cs = Some (cs(1 := ''*'', 2 := n), [])" for st cs
    unfolding selectRegex_def kw_def plus_def group_def
    by (simp add: n blank_letters lower_byte_def is_upper_def char_of_def bit_iff_odd)
  then show ?thesis by (simp add: match_start_def)
qed

text \<open>
  From the text of the statements: \<open>DROP TABLE n\<close> removes the table, and \<open>SELECT * FROM n'\<close>,
  with the name in any case, is then answered that the relation does not exist, for every plain
  name \<open>n\<close>.
\<close>

theorem drop_then_select:
  assumes "plain_name n" and "plain_name n'" and "ToLower rt n' = ToLower rt n"
  shows "(\<exists>r. MatchAndExecute rt (''DROP TABLE '' @ n) ps s = Ret (Some r, s(ToLower rt n := None)) \<and>
      r_tag r = ''DROP TABLE'') \<and>
    MatchAndExecute rt (''SELECT * FROM '' @ n') ps' (s(ToLower rt n := None)) =
      Ret (Some (missing_table rt (''SELECT * FROM '' @ n') (ToLower rt n)), s(ToLower rt n := None))"
proof -
  from match_drop [OF assms(1)] obtain m where m: "match_start dropTableRegex (''DROP TABLE '' @ n) = Some m"
    "m 1 = n" by blast
  from match_select [OF assms(2)] obtain k where k:
    "match_start selectRegex (''SELECT * FROM '' @ n') = Some k" "k 2 = n'" by blast
  have t: "TrimRight (TrimSpace (''DROP TABLE '' @ n)) '';'' = ''DROP TABLE '' @ n"
    "TrimRight (TrimSpace (''SELECT * FROM '' @ n')) '';'' = ''SELECT * FROM '' @ n'"
    using trim_plain_end [OF assms(1), of "CHR ''D''" "''ROP TABLE ''"]
      trim_plain_end [OF assms(2), of "CHR ''S''" "''ELECT * FROM ''"]
    by (simp_all add: visible_def is_space_def)
  have none: "match_start createTableRegex (''DROP TABLE '' @ n) = None"
    "match_start createTableRegex (''SELECT * FROM '' @ n') = None"
    "match_start dropTableRegex (''SELECT * FROM '' @ n') = None"
    "match_start truncateRegex (''SELECT * FROM '' @ n') = None"
    "match_start insertRegex (''SELECT * FROM '' @ n') = None"
    by (simp_all add: match_start_def createTableRegex_def dropTableRegex_def truncateRegex_def
        insertRegex_def kw_def lower_byte_def is_upper_def char_of_def bit_iff_odd)
  have names: "sanitizeName rt (m 1) = ToLower rt n" "sanitizeName rt (k 2) = ToLower rt n"
    using sanitize_plain_name [OF assms(1)] sanitize_plain_name [OF assms(2)] m(2) k(2) assms(3) by simp_all
  show ?thesis
    unfolding MatchAndExecute_def Let_def t none m(1) k(1) option.case exec_drop_def exec_select_def names
    by simp
qed

lemma drop_then_select_witness:
  "MatchAndExecute ascii_rt ''SELECT * FROM USERS'' [] ((\<lambda>_. None)(''users'' := None)) =
     Ret (Some (missing_table ascii_rt ''SELECT * FROM USERS'' ''users''), (\<lambda>_. None)(''users'' := None))"
proof -
  have "plain_name ''users''" "plain_name ''USERS''"
    by (simp_all add: plain_name_def ident_byte_def is_lower_def is_upper_def)
  moreover have "ToLower ascii_rt ''USERS'' = ToLower ascii_rt ''users''" "ToLower ascii_rt ''users'' = ''users''"
    by code_simp+
  ultimately show ?thesis
    using drop_then_select [of "''users''" "''USERS''" ascii_rt "[]" "\<lambda>_. None" "[]"] by simp
qed

end
