(* ===== verification/Catalog.thy ===== *)
theory Catalog
  imports Matcher
begin

text \<open>
  \<open>internal/mock/catalog.go\<close>: the fixed answers to the catalog queries that database drivers and
  object-relational mappers send when they connect.
\<close>

definition catalog_rule ::
  "bytes \<Rightarrow> bytes \<Rightarrow> bytes list \<Rightarrow> 32 word list \<Rightarrow> bytes list list \<Rightarrow> bytes \<Rightarrow> Rule" where
  "catalog_rule ident query cols types rows tag =
     empty_rule\<lparr>r_id := ident, r_query := query, r_columns := cols, r_types := types,
       r_rows := rows, r_tag := tag\<rparr>"

definition pg_type_rows :: "bytes list list" where
  "pg_type_rows =
     [[''16'', ''bool'', ''11'', ''1'', ''b'', ''B'', ''0'', ''1000''],
      [''17'', ''bytea'', ''11'', ''-1'', ''b'', ''U'', ''0'', ''1001''],
      [''18'', ''char'', ''11'', ''1'', ''b'', ''S'', ''0'', ''1002''],
      [''19'', ''name'', ''11'', ''64'', ''b'', ''S'', ''18'', ''1003''],
      [''20'', ''int8'', ''11'', ''8'', ''b'', ''N'', ''0'', ''1016''],
      [''21'', ''int2'', ''11'', ''2'', ''b'', ''N'', ''0'', ''1005''],
      [''23'', ''int4'', ''11'', ''4'', ''b'', ''N'', ''0'', ''1007''],
      [''25'', ''text'', ''11'', ''-1'', ''b'', ''S'', ''0'', ''1009''],
      [''26'', ''oid'', ''11'', ''4'', ''b'', ''N'', ''0'', ''1028''],
      [''114'', ''json'', ''11'', ''-1'', ''b'', ''U'', ''0'', ''199''],
      [''700'', ''float4'', ''11'', ''4'', ''b'', ''N'', ''0'', ''1021''],
      [''701'', ''float8'', ''11'', ''8'', ''b'', ''N'', ''0'', ''1022''],
      [''1043'', ''varchar'', ''11'', ''-1'', ''b'', ''S'', ''0'', ''1015''],
      [''1082'', ''date'', ''11'', ''4'', ''b'', ''D'', ''0'', ''1182''],
      [''1083'', ''time'', ''11'', ''8'', ''b'', ''D'', ''0'', ''1183''],
      [''1114'', ''timestamp'', ''11'', ''8'', ''b'', ''D'', ''0'', ''1115''],
      [''1184'', ''timestamptz'', ''11'', ''8'', ''b'', ''D'', ''0'', ''1185''],
      [''1700'', ''numeric'', ''11'', ''-1'', ''b'', ''N'', ''0'', ''1231''],
      [''2950'', ''uuid'', ''11'', ''16'', ''b'', ''U'', ''0'', ''2951''],
      [''3802'', ''jsonb'', ''11'', ''-1'', ''b'', ''U'', ''0'', ''3807'']]"

definition buildPGTypeCatalogRule :: "bytes \<Rightarrow> Rule" where
  "buildPGTypeCatalogRule query =
     catalog_rule ''builtin-pg-type'' query
       [''oid'', ''typname'', ''typnamespace'', ''typlen'', ''typtype'', ''typcategory'', ''typelem'', ''typarray'']
       [26, 25, 26, 21, 18, 18, 26, 26]
       pg_type_rows (''SELECT '' @ Itoa (int (length pg_type_rows)))"

text \<open>The queries that are tried last: of the information schema, and of ranges and enums.\<close>

definition schema_catalog_rule :: "bytes \<Rightarrow> bytes \<Rightarrow> Rule option" where
  "schema_catalog_rule norm query =
     (if Contains norm ''INFORMATION_SCHEMA.TABLES''
      then Some (catalog_rule ''builtin-info-schema-tables'' query
       [''table_catalog'', ''table_schema'', ''table_name'', ''table_type'']
       [25, 25, 25, 25]
       [] ''SELECT 0'')
      else if Contains norm ''INFORMATION_SCHEMA.COLUMNS''
      then Some (catalog_rule ''builtin-info-schema-columns'' query
       [''table_catalog'', ''table_schema'', ''table_name'', ''column_name'', ''ordinal_position'', ''is_nullable'', ''data_type'']
       [25, 25, 25, 25, 23, 25, 25]
       [] ''SELECT 0'')
      else if Contains norm ''INFORMATION_SCHEMA.SCHEMATA''
      then Some (catalog_rule ''builtin-info-schema-schemata'' query
       [''catalog_name'', ''schema_name'', ''schema_owner'']
       [25, 25, 25]
       [[''postgres'', ''public'', ''postgres''],
         [''postgres'', ''information_schema'', ''postgres''],
         [''postgres'', ''pg_catalog'', ''postgres'']] ''SELECT 3'')
      else if Contains norm ''FROM PG_RANGE'' \<or> Contains norm ''FROM PG_CATALOG.PG_RANGE''
      then Some (catalog_rule ''builtin-pg-range'' query
       [''rngtypid'', ''rngsubtype'']
       [26, 26]
       [] ''SELECT 0'')
      else if Contains norm ''FROM PG_ENUM'' \<or> Contains norm ''FROM PG_CATALOG.PG_ENUM''
      then Some (catalog_rule ''builtin-pg-enum'' query
       [''enumtypid'', ''enumsortorder'', ''enumlabel'']
       [26, 700, 25]
       [] ''SELECT 0'')
      else None)"

definition MatchCatalogQuery :: "go_rt \<Rightarrow> bytes \<Rightarrow> Rule option" where
  "MatchCatalogQuery rt query =
     (let norm = ToUpper rt (NormalizeSQL query) in
      if Contains norm ''CURRENT_SCHEMA()'' \<or> Contains norm ''CURRENT_SCHEMA''
      then Some (catalog_rule ''builtin-current-schema'' query
       [''current_schema'']
       [25]
       [[''public'']] ''SELECT 1'')
      else if Contains norm ''VERSION()''
      then Some (catalog_rule ''builtin-version'' query
       [''version'']
       [25]
       [[''PostgreSQL 16.2 (PGWire-Mock) on x86_64-pc-linux-gnu, compiled by gcc, 64-bit'']] ''SELECT 1'')
      else if Contains norm ''PG_IS_IN_RECOVERY()''
      then Some (catalog_rule ''builtin-recovery'' query
       [''pg_is_in_recovery'']
       [16]
       [[''f'']] ''SELECT 1'')
      else if Contains norm ''TXID_CURRENT()'' \<or> Contains norm ''PG_CURRENT_XACT_ID()''
      then Some (catalog_rule ''builtin-txid'' query
       [''txid_current'']
       [20]
       [[''1000'']] ''SELECT 1'')
      else if Contains norm ''FROM PG_TYPE'' \<or> Contains norm ''FROM PG_CATALOG.PG_TYPE''
      then Some (buildPGTypeCatalogRule query)
      else if Contains norm ''FROM PG_NAMESPACE'' \<or> Contains norm ''FROM PG_CATALOG.PG_NAMESPACE''
      then Some (catalog_rule ''builtin-pg-namespace'' query
       [''oid'', ''nspname'', ''nspowner'']
       [26, 25, 26]
       [[''11'', ''pg_catalog'', ''10''],
         [''99'', ''pg_toast'', ''10''],
         [''2200'', ''public'', ''10''],
         [''11564'', ''information_schema'', ''10'']] ''SELECT 4'')
      else if Contains norm ''FROM PG_CLASS'' \<or> Contains norm ''FROM PG_CATALOG.PG_CLASS''
      then Some (catalog_rule ''builtin-pg-class'' query
       [''oid'', ''relname'', ''relnamespace'', ''relkind'', ''reltuples'']
       [26, 25, 26, 18, 700]
       [] ''SELECT 0'')
      else if Contains norm ''FROM PG_ATTRIBUTE'' \<or> Contains norm ''FROM PG_CATALOG.PG_ATTRIBUTE''
      then Some (catalog_rule ''builtin-pg-attribute'' query
       [''attrelid'', ''attname'', ''atttypid'', ''attnum'', ''attnotnull'']
       [26, 25, 26, 21, 16]
       [] ''SELECT 0'')
      else if Contains norm ''FROM PG_SETTINGS'' \<or> Contains norm ''FROM PG_CATALOG.PG_SETTINGS''
      then Some (catalog_rule ''builtin-pg-settings'' query
       [''name'', ''setting'', ''unit'', ''category'', ''short_desc'']
       [25, 25, 25, 25, 25]
       [[''server_version'', ''16.2 (PGWire-Mock)'', '''', ''Compatibility'', ''Server version''],
         [''standard_conforming_strings'', ''on'', '''', ''Compatibility'', ''Causes '...' to treat backslashes literally''],
         [''client_encoding'', ''UTF8'', '''', ''Client Connection Defaults'', ''Sets the client's character set encoding''],
         [''DateStyle'', ''ISO, MDY'', '''', ''Client Connection Defaults'', ''Sets the display format for date and time values''],
         [''TimeZone'', ''UTC'', '''', ''Client Connection Defaults'', ''Sets the time zone for displaying and interpreting time stamps'']] ''SELECT 5'')
      else schema_catalog_rule norm query)"

text \<open>A result that RowDescription and DataRow can announce and fill: one type and value per column.\<close>

definition rectangular :: "Rule \<Rightarrow> bool" where
  "rectangular r \<longleftrightarrow> length (r_types r) = length (r_columns r) \<and>
     (\<forall>row \<in> set (r_rows r). length row = length (r_columns r))"

lemma catalog_rule_simps [simp]:
  "r_columns (catalog_rule i q cols types rows tag) = cols"
  "r_types (catalog_rule i q cols types rows tag) = types"
  "r_rows (catalog_rule i q cols types rows tag) = rows"
  "r_tag (catalog_rule i q cols types rows tag) = tag"
  "r_id (catalog_rule i q cols types rows tag) = i"
  "r_query (catalog_rule i q cols types rows tag) = q"
  "r_error (catalog_rule i q cols types rows tag) = None"
  by (simp_all add: catalog_rule_def empty_rule_def)

lemma catalog_rule_rectangular [simp]:
  "rectangular (catalog_rule i q cols types rows tag) \<longleftrightarrow>
     length types = length cols \<and> (\<forall>row \<in> set rows. length row = length cols)"
  by (simp add: rectangular_def)

text \<open>A catalog answer: rectangular, without error, and tagged with its number of rows.\<close>

definition catalog_answer :: "bytes \<Rightarrow> Rule \<Rightarrow> bool" where
  "catalog_answer q r \<longleftrightarrow> rectangular r \<and> r_error r = None \<and> r_query r = q \<and>
     r_tag r = ''SELECT '' @ Itoa (int (length (r_rows r)))"

lemma catalog_answer_rule [simp]:
  "catalog_answer q (catalog_rule i q cols types rows tag) \<longleftrightarrow>
     length types = length cols \<and> (\<forall>row \<in> set rows. length row = length cols) \<and>
     tag = ''SELECT '' @ Itoa (int (length rows))"
  by (simp add: catalog_answer_def)

lemma small_counts: "Itoa 0 = ''0''" "Itoa 1 = ''1''" "Itoa 3 = ''3''" "Itoa 4 = ''4''" "Itoa 5 = ''5''"
  by code_simp+

text \<open>
  Every catalog answer is a result the protocol can carry: one type for each column, one value
  for each column in each row, and a command tag that counts the rows; the query text is kept.
\<close>

theorem MatchCatalogQuery_answers:
  assumes "MatchCatalogQuery rt q = Some r"
  shows "catalog_answer q r"
proof -
  have t: "catalog_answer q (buildPGTypeCatalogRule q)"
    by (simp add: buildPGTypeCatalogRule_def pg_type_rows_def)
  show ?thesis
    using assms unfolding MatchCatalogQuery_def schema_catalog_rule_def Let_def
    by (auto simp: small_counts t split: if_splits)
qed

lemma MatchCatalogQuery_answers_witness:
  "\<exists>r. MatchCatalogQuery ascii_rt ''select version()'' = Some r \<and> length (r_rows r) = 1 \<and>
     catalog_answer ''select version()'' r"
proof -
  have "map_option (\<lambda>r. length (r_rows r)) (MatchCatalogQuery ascii_rt ''select version()'') = Some 1"
    by code_simp
  then obtain r where "MatchCatalogQuery ascii_rt ''select version()'' = Some r" "length (r_rows r) = 1"
    by auto
  with MatchCatalogQuery_answers [OF this(1)] show ?thesis by blast
qed

text \<open>
  The type table of the catalog and the type sizes of RowDescription agree, but for five types
  that RowDescription announces as variable although the catalog gives them a fixed length.
\<close>

theorem pg_type_sizes:
  "list_all (\<lambda>row. Atoi (row ! 3) = Some (sint (DefaultTypeSize (word_of_int (the (Atoi (row ! 0)))))) \<longleftrightarrow>
     row ! 1 \<notin> set [''char'', ''name'', ''oid'', ''date'', ''time'']) pg_type_rows"
  by code_simp

end
