(* ===== verification/Engine.thy ===== *)
theory Engine
  imports Matcher Store_Laws Catalog
begin

text \<open>
  \<open>internal/mock/engine.go\<close>: the rule registry, the query log with its hook, and the decision how a
  query is answered: by the first matching rule, by a built-in system answer, by the in-memory
  tables, by the catalog, or by an empty result.  The engine's locks make each operation one step;
  the process-wide pattern cache is part of the state.
\<close>

section \<open>State\<close>

record QueryLog =
  l_time :: int
  l_query :: bytes
  l_params :: "bytes list"
  l_rule :: bytes

text \<open>\<open>e_hook\<close> tells whether a hook is registered; \<open>e_calls\<close> are its calls so far.\<close>

record Engine =
  e_rules :: "Rule list"
  e_cache :: regex_cache
  e_store :: "tables option"
  e_logs :: "QueryLog list"
  e_hook :: bool
  e_calls :: "QueryLog list"

definition NewEngine :: "regex_cache \<Rightarrow> Rule list \<Rightarrow> Engine" where
  "NewEngine cache initialRules =
     \<lparr>e_rules = initialRules, e_cache = cache, e_store = Some NewStateStore, e_logs = [],
      e_hook = False, e_calls = []\<rparr>"

definition EnableStateful :: "bool \<Rightarrow> Engine \<Rightarrow> Engine" where
  "EnableStateful enable e =
     (if enable then
        (case e_store e of None \<Rightarrow> e\<lparr>e_store := Some NewStateStore\<rparr> | Some _ \<Rightarrow> e)
      else e\<lparr>e_store := None\<rparr>)"

definition StateStore :: "Engine \<Rightarrow> tables option" where
  "StateStore e = e_store e"

definition AddRule :: "Rule \<Rightarrow> Engine \<Rightarrow> Engine" where
  "AddRule r e = e\<lparr>e_rules := e_rules e @ [r]\<rparr>"

definition PrependRule :: "Rule \<Rightarrow> Engine \<Rightarrow> Engine" where
  "PrependRule r e = e\<lparr>e_rules := [r] @ e_rules e\<rparr>"

text \<open>The index of the first rule with the identifier.\<close>

fun rule_index :: "bytes \<Rightarrow> Rule list \<Rightarrow> nat option" where
  "rule_index i [] = None"
| "rule_index i (r # rs) = (if r_id r = i then Some 0 else map_option Suc (rule_index i rs))"

definition DeleteRule :: "bytes \<Rightarrow> Engine \<Rightarrow> bool \<times> Engine" where
  "DeleteRule i e =
     (case rule_index i (e_rules e) of
        Some k \<Rightarrow> (True, e\<lparr>e_rules := take k (e_rules e) @ drop (k + 1) (e_rules e)\<rparr>)
      | None \<Rightarrow> (False, e))"

definition ClearRules :: "Engine \<Rightarrow> Engine" where
  "ClearRules e = e\<lparr>e_rules := []\<rparr>"

definition GetRules :: "Engine \<Rightarrow> Rule list" where
  "GetRules e = e_rules e"

definition log_entry :: "int \<Rightarrow> bytes \<Rightarrow> bytes option list \<Rightarrow> bytes \<Rightarrow> QueryLog" where
  "log_entry now query params matchedID =
     \<lparr>l_time = now, l_query = query,
      l_params = map (\<lambda>p. case p of None \<Rightarrow> ''NULL'' | Some b \<Rightarrow> b) params, l_rule = matchedID\<rparr>"

definition LogQuery ::
  "int \<Rightarrow> bytes \<Rightarrow> bytes option list \<Rightarrow> bytes \<Rightarrow> Engine \<Rightarrow> Engine" where
  "LogQuery now query params matchedID e =
     (let entry = log_entry now query params matchedID;
          e = e\<lparr>e_logs := e_logs e @ [entry]\<rparr>
      in if e_hook e then e\<lparr>e_calls := e_calls e @ [entry]\<rparr> else e)"

definition SetOnQueryHook :: "bool \<Rightarrow> Engine \<Rightarrow> Engine" where
  "SetOnQueryHook hook e = e\<lparr>e_hook := hook\<rparr>"

definition GetLogs :: "Engine \<Rightarrow> QueryLog list" where
  "GetLogs e = e_logs e"

definition ResetLogs :: "Engine \<Rightarrow> Engine" where
  "ResetLogs e = e\<lparr>e_logs := []\<rparr>"

section \<open>Built-in answers\<close>

definition plain_answer :: "bytes \<Rightarrow> bytes \<Rightarrow> bytes \<Rightarrow> Rule" where
  "plain_answer name query tag = empty_rule\<lparr>r_id := name, r_query := query, r_tag := tag\<rparr>"

definition show_value :: "go_rt \<Rightarrow> bytes \<Rightarrow> bytes" where
  "show_value rt paramName =
     (if EqualFold rt paramName ''SERVER_VERSION'' then ''16.2 (PGWire-Mock)''
      else if EqualFold rt paramName ''CLIENT_ENCODING'' then ''UTF8'' else ''on'')"

definition matchDefaultSystemQuery :: "go_rt \<Rightarrow> bytes \<Rightarrow> Rule option" where
  "matchDefaultSystemQuery rt query =
     (let norm = ToUpper rt (NormalizeSQL query) in
      if norm = ''SELECT 1'' \<or> norm = ''SELECT 1 AS ONE''
      then Some (empty_rule\<lparr>r_id := ''builtin-select-1'', r_query := query,
        r_columns := [''?column?''], r_types := [23], r_rows := [[''1'']], r_tag := ''SELECT 1''\<rparr>)
      else if HasPrefix norm ''SET '' then Some (plain_answer ''builtin-set'' query ''SET'')
      else if HasPrefix norm ''SHOW '' then
        (let paramName = TrimPrefix norm ''SHOW '' in
         Some (empty_rule\<lparr>r_id := ''builtin-show'', r_query := query,
           r_columns := [ToLower rt paramName], r_types := [25],
           r_rows := [[show_value rt paramName]], r_tag := ''SHOW''\<rparr>))
      else if norm = ''BEGIN'' \<or> norm = ''START TRANSACTION''
      then Some (plain_answer ''builtin-begin'' query ''BEGIN'')
      else if norm = ''COMMIT'' then Some (plain_answer ''builtin-commit'' query ''COMMIT'')
      else if norm = ''ROLLBACK'' then Some (plain_answer ''builtin-rollback'' query ''ROLLBACK'')
      else if norm = ''DISCARD ALL'' then Some (plain_answer ''builtin-discard'' query ''DISCARD ALL'')
      else if HasPrefix norm ''UNLISTEN '' then Some (plain_answer ''builtin-unlisten'' query ''UNLISTEN'')
      else None)"

definition detectCommandTag :: "go_rt \<Rightarrow> bytes \<Rightarrow> bytes" where
  "detectCommandTag rt query =
     (case Fields (ToUpper rt (TrimSpace query)) of
        [] \<Rightarrow> ''OK''
      | p # rest \<Rightarrow>
          if p = ''SELECT'' then ''SELECT 0''
          else if p = ''INSERT'' then ''INSERT 0 1''
          else if p = ''UPDATE'' then ''UPDATE 0''
          else if p = ''DELETE'' then ''DELETE 0''
          else if p = ''CREATE'' then (case rest of [] \<Rightarrow> ''CREATE'' | w # _ \<Rightarrow> ''CREATE '' @ w)
          else if p = ''DROP'' then (case rest of [] \<Rightarrow> ''DROP'' | w # _ \<Rightarrow> ''DROP '' @ w)
          else if p = ''ALTER'' then ''ALTER''
          else p)"

section \<open>Answering a query\<close>

text \<open>The index of the first rule that matches, with the pattern cache after the search.\<close>

fun first_match ::
  "go_rt \<Rightarrow> regex_cache \<Rightarrow> Rule list \<Rightarrow> bytes \<Rightarrow> bytes option list \<Rightarrow> nat option \<times> regex_cache" where
  "first_match rt cache [] q ps = (None, cache)"
| "first_match rt cache (r # rs) q ps =
     (case Matches rt cache r q ps of
        (True, cache) \<Rightarrow> (Some 0, cache)
      | (False, cache) \<Rightarrow>
          (case first_match rt cache rs q ps of (i, cache) \<Rightarrow> (map_option Suc i, cache)))"

definition fallback_rule :: "go_rt \<Rightarrow> bytes \<Rightarrow> Rule" where
  "fallback_rule rt query = plain_answer ''default-fallback'' query (detectCommandTag rt query)"

text \<open>What follows the store: the catalog, then the empty result.\<close>

definition match_catalog ::
  "go_rt \<Rightarrow> int \<Rightarrow> bytes \<Rightarrow> bytes option list \<Rightarrow> Engine \<Rightarrow> Rule \<times> Engine" where
  "match_catalog rt now query params e =
     (case MatchCatalogQuery rt query of
        Some r \<Rightarrow> (r, LogQuery now query params (r_id r) e)
      | None \<Rightarrow> (fallback_rule rt query, LogQuery now query params ''default-fallback'' e))"

definition Match ::
  "go_rt \<Rightarrow> int \<Rightarrow> bytes \<Rightarrow> bytes option list \<Rightarrow> Engine \<Rightarrow> (unit, Rule \<times> Engine) outcome" where
  "Match rt now query params e =
     (case first_match rt (e_cache e) (e_rules e) query params of
        (Some i, cache) \<Rightarrow>
          (let r = IncrementHits (e_rules e ! i) in
           Ret (r, LogQuery now query params (r_id r)
                     (e\<lparr>e_cache := cache, e_rules := (e_rules e)[i := r]\<rparr>)))
      | (None, cache) \<Rightarrow>
          (let e = e\<lparr>e_cache := cache\<rparr> in
           case matchDefaultSystemQuery rt query of
             Some r \<Rightarrow> Ret (r, LogQuery now query params ''builtin-system'' e)
           | None \<Rightarrow>
               (case e_store e of
                  None \<Rightarrow> Ret (match_catalog rt now query params e)
                | Some s \<Rightarrow>
                    and_then (MatchAndExecute rt query params s) (\<lambda>(handled, s').
                      case handled of
                        Some r \<Rightarrow> Ret (r, LogQuery now query params (r_id r) (e\<lparr>e_store := Some s'\<rparr>))
                      | None \<Rightarrow> Ret (match_catalog rt now query params e)))))"

section \<open>The meaning of an answer, without the cache\<close>

fun first_rule :: "go_rt \<Rightarrow> Rule list \<Rightarrow> bytes \<Rightarrow> bytes option list \<Rightarrow> nat option" where
  "first_rule rt [] q ps = None"
| "first_rule rt (r # rs) q ps =
     (if rule_matches rt r q ps then Some 0 else map_option Suc (first_rule rt rs q ps))"

lemma Matches_cases:
  assumes "cache_ok rt cache"
  obtains c where "Matches rt cache r q ps = (rule_matches rt r q ps, c)" and "cache_ok rt c"
  using Matches_means [OF assms, of r q ps] that by (cases "Matches rt cache r q ps") auto

lemma first_match_first_rule:
  assumes "cache_ok rt cache"
  shows "\<exists>c. first_match rt cache rs q ps = (first_rule rt rs q ps, c) \<and> cache_ok rt c"
  using assms
proof (induction rs arbitrary: cache)
  case Nil
  then show ?case by simp
next
  case (Cons r rs)
  from Matches_cases [OF Cons.prems, of r q ps] obtain c where
    c: "Matches rt cache r q ps = (rule_matches rt r q ps, c)" "cache_ok rt c" .
  from Cons.IH [OF c(2)] c show ?case by (auto split: bool.split)
qed

lemma first_rule_Some:
  "first_rule rt rs q ps = Some i \<longleftrightarrow>
     i < length rs \<and> rule_matches rt (rs ! i) q ps \<and> (\<forall>j < i. \<not> rule_matches rt (rs ! j) q ps)"
proof (induction rs arbitrary: i)
  case (Cons r rs)
  then show ?case by (cases i) (auto simp: All_less_Suc2)
qed simp

lemma first_rule_None: "first_rule rt rs q ps = None \<longleftrightarrow> (\<forall>r \<in> set rs. \<not> rule_matches rt r q ps)"
  by (induction rs) auto

text \<open>The part of an answer below the rules.\<close>

definition built_in ::
  "go_rt \<Rightarrow> bytes \<Rightarrow> bytes option list \<Rightarrow> tables option \<Rightarrow> (unit, Rule \<times> bytes \<times> tables option) outcome" where
  "built_in rt q ps st =
     (case matchDefaultSystemQuery rt q of
        Some r \<Rightarrow> Ret (r, ''builtin-system'', st)
      | None \<Rightarrow>
          (let rest = (case MatchCatalogQuery rt q of
                 Some r \<Rightarrow> (r, r_id r, st)
               | None \<Rightarrow> (fallback_rule rt q, ''default-fallback'', st))
           in case st of
                None \<Rightarrow> Ret rest
              | Some s \<Rightarrow> map_ret (\<lambda>(h, s'). case h of Some r \<Rightarrow> (r, r_id r, Some s') | None \<Rightarrow> rest)
                           (MatchAndExecute rt q ps s)))"

definition answers ::
  "go_rt \<Rightarrow> int \<Rightarrow> bytes \<Rightarrow> bytes option list \<Rightarrow> Engine \<Rightarrow> Rule \<Rightarrow> Engine \<Rightarrow> bool" where
  "answers rt now q ps e r e' \<longleftrightarrow>
     (case first_rule rt (e_rules e) q ps of
        Some i \<Rightarrow> r = IncrementHits (e_rules e ! i) \<and> e_rules e' = (e_rules e)[i := r] \<and>
          e_store e' = e_store e \<and> e_logs e' = e_logs e @ [log_entry now q ps (r_id r)]
      | None \<Rightarrow> e_rules e' = e_rules e \<and>
          (\<exists>m. built_in rt q ps (e_store e) = Ret (r, m, e_store e') \<and>
             e_logs e' = e_logs e @ [log_entry now q ps m]))"

lemma LogQuery_simps [simp]:
  "e_rules (LogQuery now q ps i e) = e_rules e" "e_store (LogQuery now q ps i e) = e_store e"
  "e_cache (LogQuery now q ps i e) = e_cache e" "e_hook (LogQuery now q ps i e) = e_hook e"
  "e_logs (LogQuery now q ps i e) = e_logs e @ [log_entry now q ps i]"
  "e_calls (LogQuery now q ps i e) =
     e_calls e @ (if e_hook e then [log_entry now q ps i] else [])"
  by (simp_all add: LogQuery_def Let_def)

lemma Match_built_in:
  assumes "first_match rt (e_cache e) (e_rules e) q ps = (None, c)"
  shows "Match rt now q ps e =
    map_ret (\<lambda>(r, m, st). (r, LogQuery now q ps m (e\<lparr>e_cache := c, e_store := st\<rparr>)))
      (built_in rt q ps (e_store e))"
proof -
  have same: "e\<lparr>e_cache := c, e_store := e_store e\<rparr> = e\<lparr>e_cache := c\<rparr>" by simp
  have catalog: "match_catalog rt now q ps (e\<lparr>e_cache := c\<rparr>) =
      (case (case MatchCatalogQuery rt q of
           Some r \<Rightarrow> (r, r_id r, e_store e)
         | None \<Rightarrow> (fallback_rule rt q, ''default-fallback'', e_store e)) of
        (r, m, st) \<Rightarrow> (r, LogQuery now q ps m (e\<lparr>e_cache := c, e_store := st\<rparr>)))"
    by (cases "MatchCatalogQuery rt q") (simp_all add: match_catalog_def same)
  show ?thesis
  proof (cases "matchDefaultSystemQuery rt q")
    case (Some a)
    with assms same show ?thesis by (simp add: Match_def Let_def built_in_def)
  next
    case sys: None
    show ?thesis
    proof (cases "e_store e")
      case None
      show ?thesis using None catalog [unfolded None] assms sys by (simp add: Match_def Let_def built_in_def)
    next
      case st: (Some s)
      show ?thesis
      proof (cases "MatchAndExecute rt q ps s")
        case (Ret x)
        obtain h s' where x: "x = (h, s')" by (cases x)
        show ?thesis using assms sys st Ret x catalog [unfolded st]
          by (cases h) (simp_all add: Match_def Let_def built_in_def)
      qed (use assms sys st in \<open>simp_all add: Match_def Let_def built_in_def\<close>)
    qed
  qed
qed

lemma Match_rule:
  assumes "first_match rt (e_cache e) (e_rules e) q ps = (Some i, c)"
  shows "Match rt now q ps e =
    Ret (IncrementHits (e_rules e ! i), LogQuery now q ps (r_id (e_rules e ! i))
      (e\<lparr>e_cache := c, e_rules := (e_rules e)[i := IncrementHits (e_rules e ! i)]\<rparr>))"
  using assms by (simp add: Match_def Let_def IncrementHits_def)

text \<open>Outcome of a query, with the engine after it, for an engine whose cache is sound.\<close>

lemma Match_cases:
  assumes "cache_ok rt (e_cache e)" and "Match rt now q ps e = Ret (r, e')"
  shows "answers rt now q ps e r e' \<and> cache_ok rt (e_cache e') \<and> e_hook e' = e_hook e \<and>
    e_calls e' = e_calls e @ (if e_hook e then [last (e_logs e')] else [])"
proof -
  from first_match_first_rule [OF assms(1)] obtain c where c:
    "first_match rt (e_cache e) (e_rules e) q ps = (first_rule rt (e_rules e) q ps, c)" "cache_ok rt c"
    by blast
  show ?thesis
  proof (cases "first_rule rt (e_rules e) q ps")
    case (Some i)
    with c have "first_match rt (e_cache e) (e_rules e) q ps = (Some i, c)" by simp
    from Match_rule [OF this, of now] assms(2) Some c(2) show ?thesis
      by (simp add: answers_def IncrementHits_def)
  next
    case None
    with c have "first_match rt (e_cache e) (e_rules e) q ps = (None, c)" by simp
    from assms(2) [unfolded Match_built_in [OF this]] obtain m st where
      "built_in rt q ps (e_store e) = Ret (r, m, st)"
      "e' = LogQuery now q ps m (e\<lparr>e_cache := c, e_store := st\<rparr>)"
      by (auto simp: map_ret_Ret_iff)
    with None c(2) show ?thesis by (simp add: answers_def)
  qed
qed

text \<open>
  C4. Match answers as its specification says, whatever patterns the cache holds: by the first
  rule that matches (its hit counter raised, the store untouched), otherwise by the built-in
  answers and the store.  Exactly one entry is logged and passed to the hook, under the identifier
  of the rule, or \<open>builtin-system\<close> for a system query; a query panics only if the store does.
\<close>

theorem Match_answers:
  assumes "cache_ok rt (e_cache e)"
  shows "(Match rt now q ps e = Panic \<longleftrightarrow>
      first_rule rt (e_rules e) q ps = None \<and> built_in rt q ps (e_store e) = Panic) \<and>
    (\<forall>r e'. Match rt now q ps e = Ret (r, e') \<longrightarrow>
      answers rt now q ps e r e' \<and> cache_ok rt (e_cache e') \<and> e_hook e' = e_hook e \<and>
      e_calls e' = e_calls e @ (if e_hook e then [last (e_logs e')] else []))"
proof -
  from first_match_first_rule [OF assms] obtain c where c:
    "first_match rt (e_cache e) (e_rules e) q ps = (first_rule rt (e_rules e) q ps, c)" by blast
  have "Match rt now q ps e = Panic \<longleftrightarrow>
      first_rule rt (e_rules e) q ps = None \<and> built_in rt q ps (e_store e) = Panic"
  proof (cases "first_rule rt (e_rules e) q ps")
    case None
    with c have "first_match rt (e_cache e) (e_rules e) q ps = (None, c)" by simp
    from Match_built_in [OF this, of now] None show ?thesis
      by (cases "built_in rt q ps (e_store e)") auto
  next
    case (Some i)
    with c have "first_match rt (e_cache e) (e_rules e) q ps = (Some i, c)" by simp
    from Match_rule [OF this, of now] Some show ?thesis by simp
  qed
  with Match_cases [OF assms] show ?thesis by blast
qed

lemma Match_answers_witness:
  "answers ascii_rt 0 ''BEGIN'' [] (NewEngine Map.empty []) (plain_answer ''builtin-begin'' ''BEGIN'' ''BEGIN'')
     (LogQuery 0 ''BEGIN'' [] ''builtin-system'' (NewEngine Map.empty []))"
proof -
  have sys: "matchDefaultSystemQuery ascii_rt ''BEGIN'' = Some (plain_answer ''builtin-begin'' ''BEGIN'' ''BEGIN'')"
    by code_simp
  have "Match ascii_rt 0 ''BEGIN'' [] (NewEngine Map.empty []) =
      Ret (plain_answer ''builtin-begin'' ''BEGIN'' ''BEGIN'',
        LogQuery 0 ''BEGIN'' [] ''builtin-system'' (NewEngine Map.empty []))"
    by (simp add: Match_def NewEngine_def sys)
  moreover have "cache_ok ascii_rt (e_cache (NewEngine Map.empty []))"
    by (simp add: cache_ok_def NewEngine_def)
  ultimately show ?thesis using Match_answers by blast
qed

section \<open>The registry\<close>

lemma rule_index_Some:
  "rule_index i rs = Some k \<Longrightarrow> k < length rs \<and> r_id (rs ! k) = i \<and> (\<forall>j < k. r_id (rs ! j) \<noteq> i)"
proof (induction rs arbitrary: k)
  case (Cons r rs)
  show ?case
  proof (cases "r_id r = i")
    case False
    with Cons.prems obtain z where "rule_index i rs = Some z" "k = Suc z" by auto
    with Cons.IH False show ?thesis by (simp add: All_less_Suc2)
  qed (use Cons.prems in simp)
qed simp

lemma rule_index_None: "rule_index i rs = None \<longleftrightarrow> (\<forall>r \<in> set rs. r_id r \<noteq> i)"
  by (induction rs) auto

lemma rule_index_append:
  "rule_index i (rs @ [r]) =
     (case rule_index i rs of Some k \<Rightarrow> Some k | None \<Rightarrow> if r_id r = i then Some (length rs) else None)"
  by (induction rs) (auto split: option.splits)

text \<open>
  DeleteRule removes the first rule with the identifier and no other, and reports whether there
  was one; it undoes a PrependRule, and an AddRule of a new identifier.  A rule that was prepended
  answers every query it matches; an added one is asked after all the others.
\<close>

theorem rule_registry:
  "(case DeleteRule i e of (found, e') \<Rightarrow>
      (found \<longleftrightarrow> (\<exists>r \<in> set (e_rules e). r_id r = i)) \<and>
      (if found then \<exists>xs r ys. e_rules e = xs @ r # ys \<and> r_id r = i \<and> (\<forall>x \<in> set xs. r_id x \<noteq> i) \<and>
          e' = e\<lparr>e_rules := xs @ ys\<rparr>
       else e' = e)) \<and>
   DeleteRule (r_id r) (PrependRule r e) = (True, e) \<and>
   ((\<forall>x \<in> set (e_rules e). r_id x \<noteq> r_id r) \<longrightarrow> DeleteRule (r_id r) (AddRule r e) = (True, e)) \<and>
   (rule_matches rt r q ps \<longrightarrow> first_rule rt (e_rules (PrependRule r e)) q ps = Some 0) \<and>
   first_rule rt (e_rules (AddRule r e)) q ps =
     (case first_rule rt (e_rules e) q ps of
        Some k \<Rightarrow> Some k
      | None \<Rightarrow> if rule_matches rt r q ps then Some (length (e_rules e)) else None)"
proof (intro conjI impI)
  show "case DeleteRule i e of (found, e') \<Rightarrow>
      (found \<longleftrightarrow> (\<exists>r \<in> set (e_rules e). r_id r = i)) \<and>
      (if found then \<exists>xs r ys. e_rules e = xs @ r # ys \<and> r_id r = i \<and> (\<forall>x \<in> set xs. r_id x \<noteq> i) \<and>
          e' = e\<lparr>e_rules := xs @ ys\<rparr>
       else e' = e)"
  proof (cases "rule_index i (e_rules e)")
    case None
    then have "\<forall>r \<in> set (e_rules e). r_id r \<noteq> i" by (simp add: rule_index_None)
    with None show ?thesis by (simp add: DeleteRule_def)
  next
    case (Some k)
    let ?xs = "take k (e_rules e)" and ?ys = "drop (k + 1) (e_rules e)"
    have k: "e_rules e = ?xs @ (e_rules e ! k) # ?ys" "\<forall>x \<in> set ?xs. r_id x \<noteq> i" "r_id (e_rules e ! k) = i"
      "k < length (e_rules e)"
      using rule_index_Some [OF Some] by (auto simp: id_take_nth_drop in_set_conv_nth)
    then show ?thesis
      using Some nth_mem [OF k(4)] by (auto simp: DeleteRule_def)
  qed
  show "DeleteRule (r_id r) (PrependRule r e) = (True, e)"
    by (simp add: DeleteRule_def PrependRule_def)
  show "DeleteRule (r_id r) (AddRule r e) = (True, e)" if "\<forall>x \<in> set (e_rules e). r_id x \<noteq> r_id r"
    using that by (simp add: DeleteRule_def AddRule_def rule_index_append rule_index_None [THEN iffD2])
  show "first_rule rt (e_rules (PrependRule r e)) q ps = Some 0" if "rule_matches rt r q ps"
    using that by (simp add: PrependRule_def)
  show "first_rule rt (e_rules (AddRule r e)) q ps =
     (case first_rule rt (e_rules e) q ps of
        Some k \<Rightarrow> Some k
      | None \<Rightarrow> if rule_matches rt r q ps then Some (length (e_rules e)) else None)"
  proof -
    have "first_rule rt (rs @ [r]) q ps =
       (case first_rule rt rs q ps of
          Some k \<Rightarrow> Some k | None \<Rightarrow> if rule_matches rt r q ps then Some (length rs) else None)" for rs
      by (induction rs) (auto split: option.split)
    then show ?thesis by (simp add: AddRule_def)
  qed
qed

lemma rule_registry_witness:
  "DeleteRule ''a'' (AddRule (empty_rule\<lparr>r_id := ''a''\<rparr>) (NewEngine Map.empty [empty_rule\<lparr>r_id := ''b''\<rparr>])) =
     (True, NewEngine Map.empty [empty_rule\<lparr>r_id := ''b''\<rparr>])"
  using rule_registry [where e = "NewEngine Map.empty [empty_rule\<lparr>r_id := ''b''\<rparr>]"
      and r = "empty_rule\<lparr>r_id := ''a''\<rparr>"]
  by (simp add: NewEngine_def)

section \<open>Sequences of queries\<close>

fun run_queries ::
  "go_rt \<Rightarrow> (int \<times> bytes \<times> bytes option list) list \<Rightarrow> Engine \<Rightarrow> (unit, Rule list \<times> Engine) outcome" where
  "run_queries rt [] e = Ret ([], e)"
| "run_queries rt ((now, q, ps) # qs) e =
     and_then (Match rt now q ps e) (\<lambda>(r, e).
       and_then (run_queries rt qs e) (\<lambda>(rs, e). Ret (r # rs, e)))"

text \<open>Counting does not change what a rule matches.\<close>

lemma rule_matches_hits [simp]: "rule_matches rt (IncrementHits r) q ps = rule_matches rt r q ps"
  by (simp add: rule_matches_def IncrementHits_def)

lemma r_hits_IncrementHits [simp]: "r_hits (IncrementHits r) = r_hits r + 1"
  by (simp add: IncrementHits_def)

lemma first_rule_hits [simp]:
  "first_rule rt (rs[i := IncrementHits (rs ! i)]) q ps = first_rule rt rs q ps"
proof (induction rs arbitrary: i)
  case (Cons r rs)
  then show ?case by (cases i) simp_all
qed simp

definition same_rules :: "Rule list \<Rightarrow> Rule list \<Rightarrow> bool" where
  "same_rules rs rs' \<longleftrightarrow> map (r_hits_update (\<lambda>_. 0)) rs' = map (r_hits_update (\<lambda>_. 0)) rs"

lemma same_rules_hit: "same_rules rs (rs[i := IncrementHits (rs ! i)])"
proof -
  have "map (r_hits_update (\<lambda>_. 0)) (rs[i := IncrementHits (rs ! i)]) =
      (map (r_hits_update (\<lambda>_. 0)) rs)[i := r_hits_update (\<lambda>_. 0) (rs ! i)]"
    by (simp add: map_update IncrementHits_def)
  also have "\<dots> = map (r_hits_update (\<lambda>_. 0)) rs"
    by (cases "i < length rs") (simp_all add: list_update_same_conv list_update_beyond)
  finally show ?thesis by (simp add: same_rules_def)
qed

text \<open>The counters after one query.\<close>

lemma Match_counts:
  assumes "cache_ok rt (e_cache e)" and "Match rt now q ps e = Ret (r, e')"
  shows "same_rules (e_rules e) (e_rules e') \<and> length (e_rules e') = length (e_rules e) \<and>
    (\<forall>q ps. first_rule rt (e_rules e') q ps = first_rule rt (e_rules e) q ps) \<and>
    (\<forall>i < length (e_rules e). r_hits (e_rules e' ! i) = r_hits (e_rules e ! i) +
       (if first_rule rt (e_rules e) q ps = Some i then 1 else 0)) \<and>
    (\<exists>m. e_logs e' = e_logs e @ [log_entry now q ps m])"
proof -
  have a: "answers rt now q ps e r e'" using Match_cases [OF assms] by blast
  show ?thesis
  proof (cases "first_rule rt (e_rules e) q ps")
    case None
    with a show ?thesis by (auto simp: answers_def same_rules_def)
  next
    case (Some k)
    then have "k < length (e_rules e)" by (simp add: first_rule_Some)
    moreover have "e_rules e' = (e_rules e)[k := IncrementHits (e_rules e ! k)]"
      "\<exists>m. e_logs e' = e_logs e @ [log_entry now q ps m]"
      using a Some by (auto simp: answers_def)
    ultimately show ?thesis
      using same_rules_hit [of "e_rules e" k] Some by (auto simp: nth_list_update)
  qed
qed

text \<open>A query the store cannot panic on is answered.\<close>

lemma Match_returns:
  assumes "cache_ok rt (e_cache e)" and "e_store e = None \<or> is_ascii q"
  shows "\<exists>r e'. Match rt now q ps e = Ret (r, e')"
proof -
  from first_match_first_rule [OF assms(1)] obtain c where c:
    "first_match rt (e_cache e) (e_rules e) q ps = (first_rule rt (e_rules e) q ps, c)" by blast
  show ?thesis
  proof (cases "first_rule rt (e_rules e) q ps")
    case (Some i)
    with c Match_rule [of rt e q ps i c now] show ?thesis by simp
  next
    case None
    have "\<exists>x. built_in rt q ps (e_store e) = Ret x"
    proof (cases "e_store e")
      case (Some s)
      then have "returned (MatchAndExecute rt q ps s)" using assms(2) MatchAndExecute_ascii by simp
      then obtain y where "MatchAndExecute rt q ps s = Ret y" by (auto elim!: returnedE)
      with Some show ?thesis by (cases y) (auto simp: built_in_def Let_def split: option.split)
    qed (auto simp: built_in_def Let_def split: option.split)
    with None c Match_built_in [of rt e q ps c now] show ?thesis by auto
  qed
qed

lemma run_queries_returns:
  assumes "cache_ok rt (e_cache e)" and "list_all (\<lambda>(_, q, _). is_ascii q) qs"
  shows "\<exists>rs e'. run_queries rt qs e = Ret (rs, e')"
  using assms
proof (induction qs arbitrary: e)
  case (Cons x qs)
  obtain now q ps where x: "x = (now, q, ps)" by (cases x)
  obtain r e1 where m: "Match rt now q ps e = Ret (r, e1)"
    using Match_returns [OF Cons.prems(1), of q now ps] Cons.prems(2) x by auto
  have "cache_ok rt (e_cache e1)" using Match_cases [OF Cons.prems(1) m] by blast
  with Cons.IH Cons.prems(2) m show ?case by (fastforce simp: x)
qed simp

text \<open>
  C15. Over any sequence of queries the rules stay as they are but for their counters, the counter
  of each rule grows by the number of queries it was the first to match, and the log grows by
  exactly one entry per query, in order.
\<close>

theorem run_queries_counts:
  assumes "cache_ok rt (e_cache e)" and "run_queries rt qs e = Ret (rs, e')"
  shows "same_rules (e_rules e) (e_rules e') \<and>
    (\<forall>i < length (e_rules e). r_hits (e_rules e' ! i) = r_hits (e_rules e ! i) +
       int (length (filter (\<lambda>(_, q, ps). first_rule rt (e_rules e) q ps = Some i) qs))) \<and>
    (\<exists>ens. e_logs e' = e_logs e @ ens \<and> map (\<lambda>en. (l_time en, l_query en)) ens = map (\<lambda>(t, q, _). (t, q)) qs) \<and>
    length rs = length qs"
  using assms
proof (induction qs arbitrary: e rs)
  case Nil
  then show ?case by (simp add: same_rules_def)
next
  case (Cons x qs)
  obtain now q ps where x: "x = (now, q, ps)" by (cases x)
  from Cons.prems(2) obtain r e1 rs1 where m: "Match rt now q ps e = Ret (r, e1)"
    and rest: "run_queries rt qs e1 = Ret (rs1, e')" and rs: "rs = r # rs1"
    by (auto simp: x and_then_pair_Ret)
  have ok: "cache_ok rt (e_cache e1)" using Match_cases [OF Cons.prems(1) m] by blast
  note step = Match_counts [OF Cons.prems(1) m]
  from step obtain mid where logs: "e_logs e1 = e_logs e @ [log_entry now q ps mid]" by blast
  note IH = Cons.IH [OF ok rest]
  from IH obtain ens where "e_logs e' = e_logs e1 @ ens"
    "map (\<lambda>en. (l_time en, l_query en)) ens = map (\<lambda>(t, q, _). (t, q)) qs" by blast
  then have "e_logs e' = e_logs e @ log_entry now q ps mid # ens \<and>
      map (\<lambda>en. (l_time en, l_query en)) (log_entry now q ps mid # ens) = map (\<lambda>(t, q, _). (t, q)) (x # qs)"
    by (simp add: logs x log_entry_def)
  moreover have "same_rules (e_rules e) (e_rules e')"
    using IH step by (simp add: same_rules_def)
  ultimately show ?case
    using IH step by (auto simp: rs x)
qed

lemma run_queries_counts_witness:
  "\<exists>rs e'. run_queries ascii_rt [(1, ''ping'', []), (2, ''PING '', [])]
       (NewEngine Map.empty [empty_rule\<lparr>r_id := ''p'', r_query := ''ping''\<rparr>]) = Ret (rs, e') \<and>
     r_hits (e_rules e' ! 0) = 2 \<and> length rs = 2"
proof -
  let ?p = "empty_rule\<lparr>r_id := ''p'', r_query := ''ping''\<rparr>"
  let ?e = "NewEngine Map.empty [?p]"
  have ok: "cache_ok ascii_rt (e_cache ?e)" by (simp add: cache_ok_def NewEngine_def)
  have "is_ascii ''ping''" "is_ascii ''PING ''" by code_simp+
  then obtain rs e' where run:
    "run_queries ascii_rt [(1, ''ping'', []), (2, ''PING '', [])] ?e = Ret (rs, e')"
    using run_queries_returns [OF ok, of "[(1, ''ping'', []), (2, ''PING '', [])]"] by auto
  have "text_matches ascii_rt ''ping'' ''ping''" "text_matches ascii_rt ''ping'' ''PING ''" by code_simp+
  then have f: "first_rule ascii_rt [?p] ''ping'' [] = Some 0" "first_rule ascii_rt [?p] ''PING '' [] = Some 0"
    by (simp_all add: rule_matches_def empty_rule_def)
  from run_queries_counts [OF ok run] run f show ?thesis
    by (auto simp: NewEngine_def empty_rule_def)
qed

section \<open>Precedence of the store over the catalog\<close>

definition pg_type_query :: bytes where
  "pg_type_query = ''SELECT oid FROM pg_catalog.pg_type''"

lemma pg_type_query_select:
  "\<exists>m. MatchAndExecute rt pg_type_query ps s = Ret (case exec_select rt pg_type_query ps m s of (r, s') \<Rightarrow> (Some r, s')) \<and>
     sanitizeName rt (m 2) = ''pg_type''"
proof -
  have t: "TrimRight (TrimSpace pg_type_query) '';'' = pg_type_query" by code_simp
  have n: "match_start createTableRegex pg_type_query = None"
    "match_start dropTableRegex pg_type_query = None" "match_start truncateRegex pg_type_query = None"
    "match_start insertRegex pg_type_query = None" by code_simp+
  have "map_option (\<lambda>m. m 2) (match_start selectRegex pg_type_query) = Some ''pg_catalog.pg_type''"
    by code_simp
  then obtain m where m: "match_start selectRegex pg_type_query = Some m" "m 2 = ''pg_catalog.pg_type''"
    by auto
  have name: "sanitizeName rt ''pg_catalog.pg_type'' = ''pg_type''" by code_simp
  have "MatchAndExecute rt pg_type_query ps s =
      Ret (case exec_select rt pg_type_query ps m s of (r, s') \<Rightarrow> (Some r, s'))"
    by (simp add: MatchAndExecute_def Let_def t n m(1) split: prod.split)
  moreover have "sanitizeName rt (m 2) = ''pg_type''" by (simp only: m(2) name)
  ultimately show ?thesis by blast
qed

text \<open>
  With stateful mode on, the tables are asked before the catalog: unless a rule matches, a driver's
  query of \<open>pg_catalog.pg_type\<close> fails with SQLSTATE 42P01 (the schema prefix is dropped and there is no
  such table), while with stateful mode off it gets the catalog's type table.
\<close>

theorem stateful_hides_catalog:
  assumes "cache_ok rt (e_cache e)" and "first_rule rt (e_rules e) pg_type_query ps = None"
  shows "(e_store e = None \<longrightarrow>
      (\<exists>e'. Match rt now pg_type_query ps e = Ret (buildPGTypeCatalogRule pg_type_query, e'))) \<and>
    (\<forall>s. e_store e = Some s \<longrightarrow> s ''pg_type'' = None \<longrightarrow>
      (\<exists>r e'. Match rt now pg_type_query ps e = Ret (r, e') \<and> map_option me_code (r_error r) = Some ''42P01''))"
proof -
  from first_match_first_rule [OF assms(1)] assms(2) obtain c where
    "first_match rt (e_cache e) (e_rules e) pg_type_query ps = (None, c)" by metis
  note Match = Match_built_in [OF this]
  have sys: "matchDefaultSystemQuery rt pg_type_query = None" by code_simp
  have "Contains (ToUpper rt (NormalizeSQL pg_type_query)) ''FROM PG_CATALOG.PG_TYPE''"
    "\<not> Contains (ToUpper rt (NormalizeSQL pg_type_query)) ''CURRENT_SCHEMA''"
    "\<not> Contains (ToUpper rt (NormalizeSQL pg_type_query)) ''CURRENT_SCHEMA()''"
    "\<not> Contains (ToUpper rt (NormalizeSQL pg_type_query)) ''VERSION()''"
    "\<not> Contains (ToUpper rt (NormalizeSQL pg_type_query)) ''PG_IS_IN_RECOVERY()''"
    "\<not> Contains (ToUpper rt (NormalizeSQL pg_type_query)) ''TXID_CURRENT()''"
    "\<not> Contains (ToUpper rt (NormalizeSQL pg_type_query)) ''PG_CURRENT_XACT_ID()''" by code_simp+
  then have cat: "MatchCatalogQuery rt pg_type_query = Some (buildPGTypeCatalogRule pg_type_query)"
    by (simp add: MatchCatalogQuery_def Let_def)
  show ?thesis
  proof (intro conjI impI allI)
    show "\<exists>e'. Match rt now pg_type_query ps e = Ret (buildPGTypeCatalogRule pg_type_query, e')"
      if "e_store e = None"
      using that by (simp add: Match built_in_def sys cat)
    show "\<exists>r e'. Match rt now pg_type_query ps e = Ret (r, e') \<and> map_option me_code (r_error r) = Some ''42P01''"
      if "e_store e = Some s" "s ''pg_type'' = None" for s
    proof -
      from pg_type_query_select [of rt ps s] obtain m where m: "MatchAndExecute rt pg_type_query ps s =
          Ret (case exec_select rt pg_type_query ps m s of (r, s') \<Rightarrow> (Some r, s'))"
        "sanitizeName rt (m 2) = ''pg_type''" by blast
      have "exec_select rt pg_type_query ps m s = (missing_table rt pg_type_query ''pg_type'', s)"
        unfolding exec_select_def Let_def m(2) that(2) by simp
      with m(1) that(1) show ?thesis by (simp add: Match built_in_def sys cat missing_table_def)
    qed
  qed
qed

lemma stateful_hides_catalog_witness:
  "\<exists>r e'. Match ascii_rt 0 pg_type_query [] (NewEngine Map.empty []) = Ret (r, e') \<and>
     map_option me_code (r_error r) = Some ''42P01''"
  using stateful_hides_catalog [of ascii_rt "NewEngine Map.empty []" "[]" 0]
  by (simp add: cache_ok_def NewEngine_def NewStateStore_def)

end
