(* ===== verification/Template.thy ===== *)
theory Template
  imports Wire_Binary Go_Regex
begin

unbundle bit_operations_syntax

text \<open>
  \<open>internal/mock/template.go\<close>: the tags \<open>{{...}}\<close> in a cell of a rule.  The clock and the random
  sources are the environment: each reading takes the next value of a stream, counted by
  \<open>w_tick\<close>.  The global sequence is an \<open>int64\<close>.
\<close>

section \<open>The environment\<close>

text \<open>
  \<open>w_rand k n\<close> is what the \<open>k\<close>-th reading gives for \<open>rand.Int(rand.Reader, n)\<close>, \<open>None\<close> when the
  source fails, and \<open>w_intn k n\<close> for \<open>math/rand\<close>'s \<open>Intn(n)\<close>; \<open>w_uuid k\<close> are the 16 bytes of
  \<open>rand.Read\<close> and \<open>w_clock k\<close> is the Unix time in nanoseconds.
\<close>

record World =
  w_tick :: nat
  w_clock :: "nat \<Rightarrow> int"
  w_rand :: "nat \<Rightarrow> int \<Rightarrow> int option"
  w_intn :: "nat \<Rightarrow> int \<Rightarrow> int"
  w_uuid :: "nat \<Rightarrow> bytes"
  w_seq :: "64 word"

definition tick :: "World \<Rightarrow> World" where
  "tick w = w\<lparr>w_tick := w_tick w + 1\<rparr>"

text \<open>What Go documents of the random sources.\<close>

definition world_ok :: "World \<Rightarrow> bool" where
  "world_ok w \<longleftrightarrow> (\<forall>k n x. 0 < n \<longrightarrow> w_rand w k n = Some x \<longrightarrow> 0 \<le> x \<and> x < n) \<and>
     (\<forall>k n. 0 < n \<longrightarrow> 0 \<le> w_intn w k n \<and> w_intn w k n < n) \<and> (\<forall>k. length (w_uuid w k) = 16)"

text \<open>A concrete environment, in which every random number is 0.\<close>

definition quiet_world :: World where
  "quiet_world = \<lparr>w_tick = 0, w_clock = \<lambda>_. 0, w_rand = \<lambda>_ _. Some 0, w_intn = \<lambda>_ _. 0,
     w_uuid = \<lambda>_. replicate 16 NUL, w_seq = 0\<rparr>"

lemma world_ok_quiet: "world_ok quiet_world"
  by (simp add: world_ok_def quiet_world_def)

section \<open>Generators\<close>

definition templatePattern :: "rx list" where
  "templatePattern =
     [One (Exact (CHR ''{'')), One (Exact (CHR ''{'')), Star Blank] @
     group 1 [One (NoneOf ''{}''), LazyStar (NoneOf ''{}'')] @
     [Star Blank, One (Exact (CHR ''}'')), One (Exact (CHR ''}''))]"

definition GenerateUUIDv4 :: "World \<Rightarrow> bytes \<times> World" where
  "GenerateUUIDv4 w =
     (let u = w_uuid w (w_tick w);
          u = u[6 := byte_of ((code (u ! 6) AND 0x0F) OR 0x40)];
          u = u[8 := byte_of ((code (u ! 8) AND 0x3F) OR 0x80)];
          part = (\<lambda>i n. hex_encode (take n (drop i u)))
      in (part 0 4 @ ''-'' @ part 4 2 @ ''-'' @ part 6 2 @ ''-'' @ part 8 2 @ ''-'' @ part 10 6, tick w))"

definition NextSequence :: "World \<Rightarrow> 64 word \<times> World" where
  "NextSequence w = (w_seq w + 1, w\<lparr>w_seq := w_seq w + 1\<rparr>)"

definition ResetSequence :: "World \<Rightarrow> World" where
  "ResetSequence w = w\<lparr>w_seq := 0\<rparr>"

text \<open>\<open>time.Duration\<close> is an \<open>int64\<close> of nanoseconds, and its products wrap around.\<close>

definition parseDurationOffset :: "go_rt \<Rightarrow> bytes \<Rightarrow> bytes \<Rightarrow> 64 word" where
  "parseDurationOffset rt sign durationStr =
     (let multiplier = (if sign = ''-'' then - 1 else 1);
          general = (case parse_duration rt durationStr of
             None \<Rightarrow> 0
           | Some d \<Rightarrow> multiplier * word_of_int d)
      in if HasSuffix durationStr ''d'' then
           (case Atoi (TrimSuffix durationStr ''d'') of
              Some days \<Rightarrow> multiplier * word_of_int days * 24 * 3600000000000
            | None \<Rightarrow> general)
         else general)"

definition clock_text :: "go_rt \<Rightarrow> bytes \<Rightarrow> bytes list \<Rightarrow> World \<Rightarrow> bytes \<times> World" where
  "clock_text rt layout parts w =
     (let now = w_clock w (w_tick w);
          now = (if 3 \<le> length parts then now + sint (parseDurationOffset rt (parts ! 1) (parts ! 2))
                 else now)
      in (format_time rt layout now, tick w))"

text \<open>\<open>rand.Int\<close> panics when its bound is not positive.\<close>

definition rand_int :: "int \<Rightarrow> World \<Rightarrow> (unit, int option \<times> World) outcome" where
  "rand_int n w = (if n \<le> 0 then Panic else Ret (w_rand w (w_tick w) n, tick w))"

definition random_text :: "bytes list \<Rightarrow> World \<Rightarrow> (unit, bytes \<times> World) outcome" where
  "random_text parts w =
     (if 3 \<le> length parts then
        (case (ParseInt 64 (parts ! 1), ParseInt 64 (parts ! 2)) of
           (Some minVal, Some maxVal) \<Rightarrow>
             if minVal \<le> maxVal then
               (let span = word_of_int maxVal - word_of_int minVal + 1 :: 64 word
                in and_then (rand_int (sint span) w) (\<lambda>(n, w).
                     case n of
                       Some n \<Rightarrow> Ret (Itoa (sint (word_of_int minVal + word_of_int n :: 64 word)), w)
                     | None \<Rightarrow> Ret (''0'', w)))
             else Ret (''0'', w)
         | _ \<Rightarrow> Ret (''0'', w))
      else Ret (''0'', w))"

text \<open>On an error of the source the result is nil, and reading its value panics.\<close>

definition email_text :: "World \<Rightarrow> (unit, bytes \<times> World) outcome" where
  "email_text w =
     and_then (rand_int 900000 w) (\<lambda>(n, w).
       case n of
         Some n \<Rightarrow> Ret (''user-'' @ Itoa (100000 + n) @ ''@example.com'', w)
       | None \<Rightarrow> Panic)"

definition param_text :: "bytes list \<Rightarrow> bytes option list \<Rightarrow> bytes" where
  "param_text parts params =
     (if length parts < 2 then []
      else case Atoi (TrimPrefix (parts ! 1) ''$'') of
        None \<Rightarrow> ''NULL''
      | Some idx \<Rightarrow>
          if idx < 1 \<or> int (length params) < idx then ''NULL''
          else (case params ! nat (idx - 1) of None \<Rightarrow> ''NULL'' | Some p \<Rightarrow> p))"

section \<open>Rendering\<close>

text \<open>The value of a tag from its fields; an unknown one stays as it was written.\<close>

definition tag_value ::
  "go_rt \<Rightarrow> bytes option list \<Rightarrow> bytes \<Rightarrow> bytes list \<Rightarrow> World \<Rightarrow> (unit, bytes \<times> World) outcome" where
  "tag_value rt params match parts w =
     (if parts = [] then Ret (match, w)
      else let op = ToLower rt (hd parts) in
        if op = ''param'' then Ret (param_text parts params, w)
        else if op = ''uuid'' then Ret (GenerateUUIDv4 w)
        else if op = ''now'' then Ret (clock_text rt ''2006-01-02 15:04:05.000000+00'' parts w)
        else if op = ''today'' then Ret (clock_text rt ''2006-01-02'' parts w)
        else if op = ''sequence'' \<or> op = ''seq'' then
          (case NextSequence w of (n, w) \<Rightarrow> Ret (Itoa (sint n), w))
        else if op = ''random'' \<or> op = ''random_int'' then random_text parts w
        else if op = ''email'' then email_text w
        else Ret (match, w))"

definition render_tag ::
  "go_rt \<Rightarrow> bytes option list \<Rightarrow> bytes \<Rightarrow> World \<Rightarrow> (unit, bytes \<times> World) outcome" where
  "render_tag rt params match w =
     (case find_rx templatePattern match of
        None \<Rightarrow> Ret (match, w)
      | Some (_, sub, _) \<Rightarrow> tag_value rt params match (Fields (TrimSpace (sub 1))) w)"

text \<open>\<open>ReplaceAllStringFunc\<close>: group 0 is the whole match.\<close>

fun render_all ::
  "go_rt \<Rightarrow> bytes option list \<Rightarrow> (bytes \<times> caps) list \<Rightarrow> World \<Rightarrow> (unit, bytes \<times> World) outcome" where
  "render_all rt params [] w = Ret ([], w)"
| "render_all rt params ((p, c) # ms) w =
     and_then (render_tag rt params (c 0) w) (\<lambda>(t, w).
       and_then (render_all rt params ms w) (\<lambda>(t', w). Ret (p @ t @ t', w)))"

definition RenderTemplate ::
  "go_rt \<Rightarrow> bytes \<Rightarrow> bytes option list \<Rightarrow> World \<Rightarrow> (unit, bytes \<times> World) outcome" where
  "RenderTemplate rt val params w =
     (if \<not> Contains val ''{{'' then Ret (val, w)
      else case find_all (group 0 templatePattern) val of
        (ms, rest) \<Rightarrow> and_then (render_all rt params ms w) (\<lambda>(t, w). Ret (t @ rest, w)))"

section \<open>Matching the tags\<close>

text \<open>The inside of a tag: ASCII without braces, and no blank at its ends.\<close>

definition tag_body :: "bytes \<Rightarrow> bool" where
  "tag_body b \<longleftrightarrow> b \<noteq> [] \<and> \<not> blank (hd b) \<and> \<not> blank (last b) \<and>
     (\<forall>c \<in> set b. code c < 128 \<and> c \<noteq> CHR ''{'' \<and> c \<noteq> CHR ''}'')"

definition tag_text :: "bytes \<Rightarrow> bytes" where
  "tag_text b = ''{{'' @ b @ ''}}''"

lemma rune_len_ascii: "code c < 128 \<Longrightarrow> rune_len (c # s) = 1"
  by (simp add: Let_def)

lemma not_blank_brace: "\<not> blank (CHR ''}'')" "\<not> blank (CHR ''{'')"
  by (simp_all add: blank_def)

text \<open>The end of the pattern does not match before the end of the body.\<close>

lemma run_tag_end_early:
  "u \<noteq> [] \<Longrightarrow> \<not> blank (last u) \<Longrightarrow> CHR ''}'' \<notin> set u \<Longrightarrow>
   run (Star Blank # One (Exact (CHR ''}'')) # k) (u @ t) st cs = None"
proof (induction u)
  case (Cons c u)
  then show ?case by (cases "blank c") (auto split: if_splits)
qed simp

lemma run_tag_rest:
  assumes "\<forall>c \<in> set u. code c < 128 \<and> c \<noteq> CHR ''{'' \<and> c \<noteq> CHR ''}''" and "u = [] \<or> \<not> blank (last u)"
    and "run k r st (cs(1 := take (length (st 1) - length (''}}'' @ r)) (st 1))) = Some x"
  shows "run (LazyStar (NoneOf ''{}'') # Close 1 # Star Blank # One (Exact (CHR ''}'')) #
      One (Exact (CHR ''}'')) # k) (u @ ''}}'' @ r) st cs = Some x"
  using assms(1,2)
proof (induction u)
  case Nil
  then show ?case using assms(3) by (simp add: not_blank_brace)
next
  case (Cons c u)
  have "run (Close 1 # Star Blank # One (Exact (CHR ''}'')) # One (Exact (CHR ''}'')) # k)
      ((c # u) @ ''}}'' @ r) st cs = None"
    using run_tag_end_early [of "c # u"] Cons.prems by auto
  moreover have "atom_len (NoneOf ''{}'') (c # u @ ''}}'' @ r) = 1"
    using Cons.prems(1) rune_len_ascii by simp
  moreover have "u = [] \<or> \<not> blank (last u)" using Cons.prems(2) by (auto split: if_splits)
  ultimately show ?case using Cons by (simp del: atom_len.simps)
qed

lemma run_tag:
  assumes "tag_body b" and "run k r (st(1 := b @ ''}}'' @ r)) (cs(1 := b)) = Some x"
  shows "run (templatePattern @ k) (tag_text b @ r) st cs = Some x"
proof -
  obtain c u where b: "b = c # u" using assms(1) by (cases b) (auto simp: tag_body_def)
  have c: "\<not> blank c" "atom_len (NoneOf ''{}'') (c # u @ ''}}'' @ r) = 1"
    using assms(1) rune_len_ascii by (auto simp: tag_body_def b)
  have "run (LazyStar (NoneOf ''{}'') # Close 1 # Star Blank # One (Exact (CHR ''}'')) #
      One (Exact (CHR ''}'')) # k) (u @ ''}}'' @ r) (st(1 := b @ ''}}'' @ r)) cs = Some x"
    by (rule run_tag_rest) (use assms in \<open>auto simp: tag_body_def b split: if_splits\<close>)
  then show ?thesis
    using c by (simp add: templatePattern_def tag_text_def group_def b del: atom_len.simps(5))
qed

text \<open>Without an opening brace there is nothing to find.\<close>

lemma run_tag_none: "c \<noteq> CHR ''{'' \<Longrightarrow> run (group 0 templatePattern) (c # s) st cs = None"
  by (simp add: group_def templatePattern_def)

lemma find_tag_skip:
  "CHR ''{'' \<notin> set p \<Longrightarrow> find_rx (group 0 templatePattern) (p @ s) =
     map_option (\<lambda>(q, c, r). (p @ q, c, r)) (find_rx (group 0 templatePattern) s)"
proof (induction p)
  case (Cons c p)
  then show ?case
    using run_tag_none [of c "p @ s"] by (cases "find_rx (group 0 templatePattern) s") auto
next
  case Nil
  show ?case by (cases "find_rx (group 0 templatePattern) s") auto
qed

lemma find_tag_none: "CHR ''{'' \<notin> set s \<Longrightarrow> find_rx (group 0 templatePattern) s = None"
  using find_tag_skip [of s "[]"] by (simp add: group_def templatePattern_def)

lemma run_group_tag:
  assumes "tag_body b"
  shows "\<exists>c. run (group 0 templatePattern) (tag_text b @ r) st cs = Some (c, r) \<and> c 0 = tag_text b \<and> c 1 = b"
proof -
  have "run (templatePattern @ [Close 0]) (tag_text b @ r) (st(0 := tag_text b @ r)) cs =
      Some (cs(1 := b, 0 := tag_text b), r)"
    by (rule run_tag [OF assms]) simp
  then show ?thesis by (simp add: group_def)
qed

lemma find_tag:
  assumes "tag_body b"
  shows "\<exists>c. find_rx (group 0 templatePattern) (tag_text b @ r) = Some ([], c, r) \<and> c 0 = tag_text b \<and> c 1 = b"
proof -
  obtain a t where t: "tag_text b @ r = a # t" by (simp add: tag_text_def)
  from run_group_tag [OF assms, of r "\<lambda>_. []" "\<lambda>_. []"] show ?thesis by (auto simp: t)
qed

lemma render_tag_body:
  assumes "tag_body b"
  shows "render_tag rt params (tag_text b) w = tag_value rt params (tag_text b) (Fields (TrimSpace b)) w"
proof -
  obtain a t where t: "tag_text b = a # t" by (simp add: tag_text_def)
  have "run (templatePattern @ []) (tag_text b @ []) (\<lambda>_. []) (\<lambda>_. []) = Some ((\<lambda>_. [])(1 := b), [])"
    by (rule run_tag [OF assms]) simp
  then have "find_rx templatePattern (tag_text b) = Some ([], (\<lambda>_. [])(1 := b), [])" by (simp add: t)
  then show ?thesis by (simp add: render_tag_def)
qed

section \<open>Rendering a text\<close>

text \<open>A template as it is written: literal text and tags in turn, then literal text.\<close>

definition template_text :: "(bytes \<times> bytes) list \<Rightarrow> bytes \<Rightarrow> bytes" where
  "template_text ps tail = concat (map (\<lambda>(l, b). l @ tag_text b) ps) @ tail"

fun render_pieces ::
  "go_rt \<Rightarrow> bytes option list \<Rightarrow> (bytes \<times> bytes) list \<Rightarrow> World \<Rightarrow> (unit, bytes \<times> World) outcome" where
  "render_pieces rt params [] w = Ret ([], w)"
| "render_pieces rt params ((l, b) # ps) w =
     and_then (tag_value rt params (tag_text b) (Fields (TrimSpace b)) w) (\<lambda>(t, w).
       and_then (render_pieces rt params ps w) (\<lambda>(t', w). Ret (l @ t @ t', w)))"

lemma find_all_template:
  assumes "CHR ''{'' \<notin> set tail" and "\<forall>(l, b) \<in> set ps. CHR ''{'' \<notin> set l \<and> tag_body b"
  shows "\<exists>ms. find_all (group 0 templatePattern) (template_text ps tail) = (ms, tail) \<and>
    map (\<lambda>(p, c). (p, c 0)) ms = map (\<lambda>(l, b). (l, tag_text b)) ps"
  using assms(2)
proof (induction ps)
  case Nil
  then show ?case using find_tag_none [OF assms(1)] by (simp add: template_text_def find_all.simps)
next
  case (Cons lb ps)
  obtain l b where lb: "lb = (l, b)" by (cases lb)
  have l: "CHR ''{'' \<notin> set l" "tag_body b" using Cons.prems by (auto simp: lb)
  have split: "template_text (lb # ps) tail = l @ tag_text b @ template_text ps tail"
    by (simp add: template_text_def lb)
  from find_tag [OF l(2), of "template_text ps tail"] obtain c where c:
    "find_rx (group 0 templatePattern) (tag_text b @ template_text ps tail) = Some ([], c, template_text ps tail)"
    "c 0 = tag_text b" by blast
  then have f: "find_rx (group 0 templatePattern) (template_text (lb # ps) tail) =
      Some (l, c, template_text ps tail)"
    using find_tag_skip [OF l(1), of "tag_text b @ template_text ps tail"] by (simp add: split)
  have "length (template_text ps tail) < length (template_text (lb # ps) tail)"
    by (simp add: split tag_text_def)
  with f Cons.IH Cons.prems show ?case
    by (subst find_all.simps) (auto simp: lb c(2))
qed

lemma render_all_pieces:
  "map (\<lambda>(p, c). (p, c 0)) ms = map (\<lambda>(l, b). (l, tag_text b)) ps \<Longrightarrow> \<forall>(l, b) \<in> set ps. tag_body b \<Longrightarrow>
   render_all rt params ms w = render_pieces rt params ps w"
proof (induction ps arbitrary: ms w)
  case (Cons lb ps)
  obtain l b where lb: "lb = (l, b)" by (cases lb)
  from Cons.prems(1) obtain c ms' where ms: "ms = (l, c) # ms'" "c 0 = tag_text b"
    "map (\<lambda>(p, c). (p, c 0)) ms' = map (\<lambda>(l, b). (l, tag_text b)) ps"
    by (auto simp: lb)
  have "render_all rt params ms' w = render_pieces rt params ps w" for w
    using Cons.IH [OF ms(3)] Cons.prems(2) by auto
  moreover have "tag_body b" using Cons.prems(2) by (simp add: lb)
  ultimately show ?case by (simp add: lb ms render_tag_body)
qed simp

lemma Contains_tag:
  assumes "CHR ''{'' \<notin> set tail"
  shows "Contains (template_text ps tail) ''{{'' \<longleftrightarrow> ps \<noteq> []"
proof -
  have no: "Index s ''{{'' = None" if "CHR ''{'' \<notin> set s" for s
    using that by (induction s) (auto simp: HasPrefix_def)
  have yes: "Index (l @ ''{{'' @ s) ''{{'' \<noteq> None" for l s
    by (induction l) (auto simp: HasPrefix_def)
  show ?thesis
  proof (cases ps)
    case Nil
    then show ?thesis using no [OF assms] by (simp add: Contains_def template_text_def)
  next
    case (Cons lb qs)
    moreover obtain l b where "lb = (l, b)" by (cases lb)
    ultimately show ?thesis
      using yes [of l "b @ ''}}'' @ template_text qs tail"]
      by (simp add: Contains_def template_text_def tag_text_def)
  qed
qed

lemma render_text:
  assumes "CHR ''{'' \<notin> set tail" and "\<forall>(l, b) \<in> set ps. CHR ''{'' \<notin> set l \<and> tag_body b"
  shows "RenderTemplate rt (template_text ps tail) params w =
    and_then (render_pieces rt params ps w) (\<lambda>(t, w). Ret (t @ tail, w))"
proof (cases "ps = []")
  case True
  with Contains_tag [OF assms(1), of ps] show ?thesis by (simp add: RenderTemplate_def template_text_def)
next
  case False
  from find_all_template [OF assms] obtain ms where ms:
    "find_all (group 0 templatePattern) (template_text ps tail) = (ms, tail)"
    "map (\<lambda>(p, c). (p, c 0)) ms = map (\<lambda>(l, b). (l, tag_text b)) ps" by blast
  have "render_all rt params ms w = render_pieces rt params ps w"
    by (rule render_all_pieces [OF ms(2)]) (use assms(2) in auto)
  with False Contains_tag [OF assms(1), of ps] ms(1) show ?thesis by (simp add: RenderTemplate_def)
qed

text \<open>
  C31. A text of literals without opening braces and well-formed tags is rendered piece by piece from
  left to right: every literal stays as it is, every tag is replaced by its value, and the values
  are not searched for tags again, whatever a parameter or a stored value contains.
\<close>

theorem RenderTemplate_pieces:
  assumes "CHR ''{'' \<notin> set tail" and "\<forall>(l, b) \<in> set ps. CHR ''{'' \<notin> set l \<and> tag_body b"
  shows "RenderTemplate rt (template_text ps tail) params w =
    and_then (render_pieces rt params ps w) (\<lambda>(t, w). Ret (t @ tail, w))"
  using assms by (rule render_text)

lemma RenderTemplate_pieces_witness:
  "RenderTemplate ascii_rt ''<{{param $1}}>'' [Some ''{{seq}}''] quiet_world = Ret (''<{{seq}}>'', quiet_world)"
proof -
  have "\<forall>(l, b) \<in> set [(''<'', ''param $1'')]. CHR ''{'' \<notin> set l \<and> tag_body b"
    by (simp add: tag_body_def blank_def)
  moreover have "CHR ''{'' \<notin> set ''>''" by simp
  moreover have "Fields (TrimSpace ''param $1'') = [''param'', ''$1'']" "ToLower ascii_rt ''param'' = ''param''"
    "param_text [''param'', ''$1''] [Some ''{{seq}}''] = ''{{seq}}''" by code_simp+
  ultimately show ?thesis
    using RenderTemplate_pieces [of "''>''" "[(''<'', ''param $1'')]" ascii_rt "[Some ''{{seq}}'']" quiet_world]
    by (simp add: template_text_def tag_text_def tag_value_def)
qed

section \<open>The generators\<close>

lemma render_pieces_seq:
  "render_pieces rt params (map (\<lambda>l. (l, ''seq'')) ls) w =
     Ret (concat (map (\<lambda>(l, i). l @ Itoa (sint (w_seq w + word_of_nat (i + 1)))) (zip ls [0..<length ls])),
          w\<lparr>w_seq := w_seq w + word_of_nat (length ls)\<rparr>)"
proof (induction ls arbitrary: w)
  case (Cons l ls)
  have f: "Fields (TrimSpace ''seq'') = [''seq'']" "ToLower rt ''seq'' = ''seq''" by code_simp+
  have "map (\<lambda>(l, i). l @ Itoa (sint (w_seq w + 1 + word_of_nat (i + 1)))) (zip ls [0..<length ls]) =
      map (\<lambda>(l, i). l @ Itoa (sint (w_seq w + word_of_nat (i + 1)))) (zip ls [1..<Suc (length ls)])"
    by (simp add: map_Suc_upt [symmetric] zip_map2 case_prod_beta' add.assoc del: upt_Suc)
  then show ?case
    by (simp add: Cons.IH f tag_value_def NextSequence_def upt_conv_Cons del: upt_Suc)
qed simp

text \<open>
  The sequence tags of one cell are numbered consecutively, from the value after the last one
  given out anywhere (the counter wraps around at 64 bits).
\<close>

theorem RenderTemplate_sequence:
  assumes "CHR ''{'' \<notin> set tail" and "\<forall>l \<in> set ls. CHR ''{'' \<notin> set l"
  shows "RenderTemplate rt (template_text (map (\<lambda>l. (l, ''seq'')) ls) tail) params w =
    Ret (concat (map (\<lambda>(l, i). l @ Itoa (sint (w_seq w + word_of_nat (i + 1)))) (zip ls [0..<length ls])) @ tail,
         w\<lparr>w_seq := w_seq w + word_of_nat (length ls)\<rparr>)"
proof -
  have "tag_body ''seq''" by (simp add: tag_body_def blank_def)
  then show ?thesis
    using render_text [of tail "map (\<lambda>l. (l, ''seq'')) ls"] assms by (simp add: render_pieces_seq)
qed

lemma RenderTemplate_sequence_witness:
  "RenderTemplate ascii_rt ''{{seq}}-{{seq}}'' [] (quiet_world\<lparr>w_seq := 0\<rparr>) =
     Ret (''1-2'', quiet_world\<lparr>w_seq := 2\<rparr>)"
proof -
  have "Itoa 1 = ''1''" "Itoa 2 = ''2''" by code_simp+
  then show ?thesis
    using RenderTemplate_sequence [of "[]" "[[], ''-'']" ascii_rt "[]" "quiet_world\<lparr>w_seq := 0\<rparr>"]
    by (simp add: template_text_def tag_text_def)
qed

text \<open>
  C32. With a working source, \<open>{{random a b}}\<close> yields a numeral between its bounds, both included,
  unless they lie \<open>2 ^ 63 - 1\<close> or more apart: then the size of the interval overflows its 64 bits
  and rendering panics.
\<close>

theorem random_text_range:
  assumes "ParseInt 64 a = Some lo" and "ParseInt 64 b = Some hi" and "lo \<le> hi" and "world_ok w"
  shows "if 2 ^ 63 - 1 \<le> hi - lo then random_text [op, a, b] w = Panic
    else \<exists>x. random_text [op, a, b] w = Ret (x, tick w) \<and>
      (case w_rand w (w_tick w) (hi - lo + 1) of
         Some n \<Rightarrow> x = Itoa (lo + n) \<and> lo \<le> lo + n \<and> lo + n \<le> hi
       | None \<Rightarrow> x = ''0'')"
proof -
  have r: "- (2 ^ 63) \<le> lo" "hi < 2 ^ 63"
    using assms(1,2) by (auto simp: ParseInt_def in_range_def Let_def split: option.splits if_splits)
  let ?span = "word_of_int hi - word_of_int lo + 1 :: 64 word"
  have span: "?span = word_of_int (hi - lo + 1)" by simp
  show ?thesis
  proof (cases "2 ^ 63 - 1 \<le> hi - lo")
    case True
    have "(word_of_int (hi - lo + 1) :: 64 word) = word_of_int (hi - lo + 1 - 2 ^ 64)"
      by (simp add: word_of_int_eq_iff take_bit_eq_mod)
    then have "sint ?span = hi - lo + 1 - 2 ^ 64"
      unfolding span using True r by (simp only:) (intro sint_of_int_64; simp)
    then have "sint ?span \<le> 0" using r by simp
    with assms True show ?thesis by (simp add: random_text_def rand_int_def Let_def)
  next
    case False
    have "sint ?span = hi - lo + 1" unfolding span using False assms(3) by (intro sint_of_int_64) auto
    moreover have "sint (word_of_int lo + word_of_int n :: 64 word) = lo + n"
      if "0 \<le> n" "n < hi - lo + 1" for n
    proof -
      have "sint (word_of_int (lo + n) :: 64 word) = lo + n"
        using that r by (intro sint_of_int_64) auto
      then show ?thesis by simp
    qed
    moreover have "0 \<le> n \<and> n < hi - lo + 1" if "w_rand w (w_tick w) (hi - lo + 1) = Some n" for n
    proof -
      have "0 < hi - lo + 1" using assms(3) by simp
      then show ?thesis using assms(4) that unfolding world_ok_def by blast
    qed
    ultimately show ?thesis
      using assms False by (auto simp: random_text_def rand_int_def Let_def split: option.split)
  qed
qed

lemma random_text_range_witness:
  "random_text [''random'', ''0'', ''9223372036854775807''] quiet_world = Panic"
proof -
  have "ParseInt 64 ''0'' = Some 0" "ParseInt 64 ''9223372036854775807'' = Some 9223372036854775807"
    by code_simp+
  from random_text_range [OF this _ world_ok_quiet, of "''random''"] show ?thesis by simp
qed

text \<open>
  A generated UUID has the 36 characters of RFC 4122: hyphens at their four places, version 4,
  and the variant in the two top bits.
\<close>

theorem GenerateUUIDv4_format:
  assumes "world_ok w"
  shows "(let u = fst (GenerateUUIDv4 w) in length u = 36 \<and>
     u ! 8 = CHR ''-'' \<and> u ! 13 = CHR ''-'' \<and> u ! 18 = CHR ''-'' \<and> u ! 23 = CHR ''-'' \<and>
     u ! 14 = CHR ''4'' \<and> u ! 19 \<in> set ''89ab'')"
proof -
  obtain b where b: "w_uuid w (w_tick w) = b" "length b = 16"
    using assms by (auto simp: world_ok_def)
  have hex: "length (hex_encode s) = 2 * length s" for s
    by (induction s) (simp_all add: hex_encode_def)
  have nth: "hex_encode (x # s) ! 0 = hex_digit (code x div 16)" for x s
    by (simp add: hex_encode_def)
  have v: "hex_digit (code (byte_of ((code (b ! 6) AND 0x0F) OR 0x40)) div 16) = CHR ''4''"
  proof -
    have "list_all (\<lambda>x. hex_digit ((x OR 0x40) mod 256 div 16) = CHR ''4'') [0..15]" by code_simp
    moreover have "code (b ! 6) AND 0x0F \<in> set [0..15]" using AND_upper2 [of 15] by simp
    ultimately show ?thesis by (simp only: list_all_iff code_byte_of)
  qed
  have y: "hex_digit (code (byte_of ((code (b ! 8) AND 0x3F) OR 0x80)) div 16) \<in> set ''89ab''"
  proof -
    have "list_all (\<lambda>x. hex_digit ((x OR 0x80) mod 256 div 16) \<in> set ''89ab'') [0..63]" by code_simp
    moreover have "code (b ! 8) AND 0x3F \<in> set [0..63]" using AND_upper2 [of 63] by simp
    ultimately show ?thesis by (simp only: list_all_iff code_byte_of)
  qed
  obtain b0 b1 b2 b3 b4 b5 b6 b7 b8 b9 ba bb bc bd be bf where
    "b = [b0, b1, b2, b3, b4, b5, b6, b7, b8, b9, ba, bb, bc, bd, be, bf]"
    using b(2) by (auto simp: length_Suc_conv numeral_eq_Suc)
  with v y b(1) show ?thesis
    by (simp add: GenerateUUIDv4_def Let_def hex_encode_def)
qed

lemma GenerateUUIDv4_format_witness: "length (fst (GenerateUUIDv4 quiet_world)) = 36"
  using GenerateUUIDv4_format [OF world_ok_quiet] by (simp add: Let_def)

end
