(* ===== verification/Conn.thy ===== *)
theory Conn
  imports Wire_Reader Wire_Writer Engine Template
begin

text \<open>
  \<open>internal/server/conn_handler.go\<close>: one client connection, from the handshake to the end of the
  query loop.  A session holds the transaction status, the prepared statements and the portals, and
  what it shares with the rest of the program: the engine, the environment and two counters.  What
  it does to the connection is a list of events; a write after the connection was closed fails,
  and the program ignores that, so the bytes that reach the client are those before the first
  close.
\<close>

section \<open>State\<close>

record portalState =
  ps_stmt :: "ParseMessage option"
  ps_params :: "bytes option list"
  ps_formats :: "16 word list"

datatype event =
    Write bytes    \<comment> \<open>\<open>conn.Write\<close>\<close>
  | Sleep int      \<comment> \<open>\<open>time.Sleep\<close>, in milliseconds\<close>
  | CloseConn      \<comment> \<open>\<open>conn.Close\<close>\<close>

record Session =
  s_tx :: byte
  s_stmts :: "bytes \<rightharpoonup> ParseMessage"
  s_portals :: "bytes \<rightharpoonup> portalState"
  s_queries :: "int option"
  s_active :: "int option"
  s_engine :: Engine
  s_world :: World
  s_out :: "event list"

text \<open>The two counters are pointers that may be nil; an increment of a nil counter is skipped.\<close>

definition NewConnHandler :: "Engine \<Rightarrow> World \<Rightarrow> int option \<Rightarrow> int option \<Rightarrow> Session" where
  "NewConnHandler e w activeConns queryCount =
     \<lparr>s_tx = TxStatusIdle, s_stmts = Map.empty, s_portals = Map.empty, s_queries = queryCount,
      s_active = activeConns, s_engine = e, s_world = w, s_out = []\<rparr>"

definition emit :: "event \<Rightarrow> Session \<Rightarrow> Session" where
  "emit ev s = s\<lparr>s_out := s_out s @ [ev]\<rparr>"

definition send :: "bytes list \<Rightarrow> Session \<Rightarrow> Session" where
  "send chunks s = s\<lparr>s_out := s_out s @ map Write chunks\<rparr>"

definition send_error :: "bytes \<Rightarrow> bytes \<Rightarrow> Session \<Rightarrow> Session" where
  "send_error sqlstate msg =
     send (WriteErrorResponse \<lparr>er_severity = [], er_code = sqlstate, er_message = msg,
             er_detail = [], er_hint = []\<rparr>)"

definition ready :: "Session \<Rightarrow> Session" where
  "ready s = send (WriteReadyForQuery (s_tx s)) s"

definition count_query :: "Session \<Rightarrow> Session" where
  "count_query s = s\<lparr>s_queries := map_option (\<lambda>n. n + 1) (s_queries s)\<rparr>"

text \<open>\<open>engine.Match\<close>, with the clock reading it logs.\<close>

definition engine_match ::
  "go_rt \<Rightarrow> bytes \<Rightarrow> bytes option list \<Rightarrow> Session \<Rightarrow> (unit, Rule \<times> Session) outcome" where
  "engine_match rt query params s =
     (let w = s_world s in
      and_then (Match rt (w_clock w (w_tick w)) query params (s_engine s)) (\<lambda>(r, e).
        Ret (r, s\<lparr>s_engine := e, s_world := tick w\<rparr>)))"

section \<open>The answer of a rule\<close>

definition column_oid :: "Rule \<Rightarrow> nat \<Rightarrow> 32 word" where
  "column_oid rule i =
     (if i < length (r_types rule) \<and> r_types rule ! i \<noteq> 0 then r_types rule ! i else 25)"

definition is_binary :: "16 word list \<Rightarrow> nat \<Rightarrow> bool" where
  "is_binary resultFormats i \<longleftrightarrow>
     length resultFormats = 1 \<and> resultFormats ! 0 = FormatBinary \<or>
     i < length resultFormats \<and> resultFormats ! i = FormatBinary"

definition result_fields :: "Rule \<Rightarrow> 16 word list \<Rightarrow> FieldDescription list" where
  "result_fields rule resultFormats =
     map (\<lambda>i. \<lparr>f_name = r_columns rule ! i, f_table_oid = 0, f_attr = word_of_nat (i + 1),
               f_type_oid = column_oid rule i, f_type_size = DefaultTypeSize (column_oid rule i),
               f_type_mod = - 1,
               f_format = (if is_binary resultFormats i then FormatBinary else FormatText)\<rparr>)
       [0..<length (r_columns rule)]"

definition result_cell ::
  "go_rt \<Rightarrow> Rule \<Rightarrow> bytes option list \<Rightarrow> 16 word list \<Rightarrow> bytes list \<Rightarrow> nat \<Rightarrow> World \<Rightarrow>
    (unit, bytes option \<times> World) outcome" where
  "result_cell rt rule params resultFormats row i w =
     (if i < length row then
        if row ! i = ''NULL'' then Ret (None, w)
        else and_then (RenderTemplate rt (row ! i) params w) (\<lambda>(rendered, w).
          Ret (Some (if is_binary resultFormats i then EncodeBinaryValue rt (column_oid rule i) rendered
                     else rendered), w))
      else Ret (None, w))"

fun result_cells ::
  "go_rt \<Rightarrow> Rule \<Rightarrow> bytes option list \<Rightarrow> 16 word list \<Rightarrow> bytes list \<Rightarrow> nat list \<Rightarrow> World \<Rightarrow>
    (unit, bytes option list \<times> World) outcome" where
  "result_cells rt rule params resultFormats row [] w = Ret ([], w)"
| "result_cells rt rule params resultFormats row (i # is) w =
     and_then (result_cell rt rule params resultFormats row i w) (\<lambda>(c, w).
       and_then (result_cells rt rule params resultFormats row is w) (\<lambda>(cs, w). Ret (c # cs, w)))"

fun send_rows ::
  "go_rt \<Rightarrow> Rule \<Rightarrow> bytes option list \<Rightarrow> 16 word list \<Rightarrow> bytes list list \<Rightarrow> Session \<Rightarrow>
    (unit, Session) outcome" where
  "send_rows rt rule params resultFormats [] s = Ret s"
| "send_rows rt rule params resultFormats (row # rows) s =
     and_then (result_cells rt rule params resultFormats row [0..<length (r_columns rule)] (s_world s))
       (\<lambda>(cells, w). send_rows rt rule params resultFormats rows
         (send (WriteDataRow cells) (s\<lparr>s_world := w\<rparr>)))"

definition should_fail :: "Rule \<Rightarrow> bool" where
  "should_fail rule \<longleftrightarrow> \<not> (0 < r_fail_after rule \<and> Hits rule \<le> r_fail_after rule)"

definition delay :: "Rule \<Rightarrow> Session \<Rightarrow> Session" where
  "delay rule s =
     (let w = s_world s;
          (jitter, s) = (if 0 < r_jitter rule
             then (w_intn w (w_tick w) (r_jitter rule), s\<lparr>s_world := tick w\<rparr>) else (0, s));
          totalLatency = r_latency rule + jitter
      in if 0 < totalLatency then emit (Sleep totalLatency) s else s)"

definition response_tag :: "Rule \<Rightarrow> bytes" where
  "response_tag rule =
     (if r_tag rule = [] then
        if r_columns rule \<noteq> [] then ''SELECT '' @ Itoa (int (length (r_rows rule))) else ''OK''
      else r_tag rule)"

definition rule_error :: "MockError \<Rightarrow> ErrorResponse" where
  "rule_error e =
     \<lparr>er_severity = me_severity e, er_code = me_code e, er_message = me_message e,
      er_detail = me_detail e, er_hint = me_hint e\<rparr>"

definition success_response ::
  "go_rt \<Rightarrow> Rule \<Rightarrow> bytes option list \<Rightarrow> 16 word list \<Rightarrow> Session \<Rightarrow> (unit, Session) outcome" where
  "success_response rt rule params resultFormats s =
     and_then
       (if r_columns rule \<noteq> [] then
          send_rows rt rule params resultFormats (r_rows rule)
            (send (WriteRowDescription (result_fields rule resultFormats)) s)
        else Ret s)
       (\<lambda>s. Ret (send (WriteCommandComplete (response_tag rule)) s))"

definition executeRuleResponse ::
  "go_rt \<Rightarrow> Rule \<Rightarrow> bytes option list \<Rightarrow> 16 word list \<Rightarrow> Session \<Rightarrow> (unit, Session) outcome" where
  "executeRuleResponse rt rule params resultFormats s =
     (if r_drop rule then Ret (emit CloseConn s)
      else let s = delay rule s in
        case r_error rule of
          Some e \<Rightarrow>
            if should_fail rule then Ret (send (WriteErrorResponse (rule_error e)) s)
            else success_response rt rule params resultFormats s
        | None \<Rightarrow> success_response rt rule params resultFormats s)"

section \<open>The handlers\<close>

definition track_tx :: "go_rt \<Rightarrow> bytes \<Rightarrow> byte \<Rightarrow> byte" where
  "track_tx rt query tx =
     (let norm = ToUpper rt (NormalizeSQL query) in
      if norm = ''BEGIN'' \<or> norm = ''START TRANSACTION'' then TxStatusInBlock
      else if norm = ''COMMIT'' \<or> norm = ''ROLLBACK'' then TxStatusIdle
      else tx)"

definition handleSimpleQuery :: "go_rt \<Rightarrow> bytes \<Rightarrow> Session \<Rightarrow> (unit, Session) outcome" where
  "handleSimpleQuery rt payload s =
     (let s = count_query s in
      case ReadQuery payload of
        Panic \<Rightarrow> Panic
      | Err _ \<Rightarrow> Ret (ready (send_error ''42601'' ''syntax error in query string'' s))
      | Ret qMsg \<Rightarrow>
          (let query = TrimSpace (q_query qMsg) in
           if query = [] \<or> query = '';'' then Ret (ready (send WriteEmptyQueryResponse s))
           else
             (let s = s\<lparr>s_tx := track_tx rt query (s_tx s)\<rparr> in
              and_then (engine_match rt query [] s) (\<lambda>(rule, s).
              and_then (executeRuleResponse rt rule [] [] s) (\<lambda>s. Ret (ready s))))))"

definition handleParse :: "bytes \<Rightarrow> Session \<Rightarrow> (unit, Session) outcome" where
  "handleParse payload s =
     (case ReadParse payload of
        Panic \<Rightarrow> Panic
      | Err e \<Rightarrow> Ret (send_error ''42601'' (error_text e) s)
      | Ret pMsg \<Rightarrow>
          Ret (send WriteParseComplete (s\<lparr>s_stmts := (s_stmts s)(p_statement pMsg \<mapsto> pMsg)\<rparr>)))"

definition handleBind :: "go_rt \<Rightarrow> bytes \<Rightarrow> Session \<Rightarrow> (unit, Session) outcome" where
  "handleBind rt payload s =
     (case ReadBind payload of
        Panic \<Rightarrow> Panic
      | Err e \<Rightarrow> Ret (send_error ''42P02'' (error_text e) s)
      | Ret bMsg \<Rightarrow>
          (let stmt = s_stmts s (b_statement bMsg) in
           if stmt = None \<and> b_statement bMsg \<noteq> [] then
             Ret (send_error ''26000''
               (''prepared statement '' @ quoted rt (b_statement bMsg) @ '' does not exist'') s)
           else Ret (send WriteBindComplete (s\<lparr>s_portals := (s_portals s)(b_portal bMsg \<mapsto>
             \<lparr>ps_stmt = stmt, ps_params = b_params bMsg, ps_formats = b_results bMsg\<rparr>)\<rparr>))))"

text \<open>What Describe and Execute read from a portal that may be missing or hold no statement.\<close>

definition portal_query :: "portalState option \<Rightarrow> bytes" where
  "portal_query portal =
     (case portal of None \<Rightarrow> [] | Some p \<Rightarrow>
        (case ps_stmt p of None \<Rightarrow> [] | Some stmt \<Rightarrow> p_query stmt))"

definition portal_params :: "portalState option \<Rightarrow> bytes option list" where
  "portal_params portal = (case portal of None \<Rightarrow> [] | Some p \<Rightarrow> ps_params p)"

definition portal_formats :: "portalState option \<Rightarrow> 16 word list" where
  "portal_formats portal = (case portal of None \<Rightarrow> [] | Some p \<Rightarrow> ps_formats p)"

text \<open>The part of Describe after the target is known: the query is matched to learn its columns.\<close>

definition describe_query :: "go_rt \<Rightarrow> bytes \<Rightarrow> 16 word list \<Rightarrow> Session \<Rightarrow> (unit, Session) outcome" where
  "describe_query rt query resultFormats s =
     (if query = [] then Ret (send WriteNoData s)
      else and_then (engine_match rt query [] s) (\<lambda>(rule, s).
        if r_columns rule = [] then Ret (send WriteNoData s)
        else Ret (send (WriteRowDescription (result_fields rule resultFormats)) s)))"

definition handleDescribe :: "go_rt \<Rightarrow> bytes \<Rightarrow> Session \<Rightarrow> (unit, Session) outcome" where
  "handleDescribe rt payload s =
     (case ReadDescribe payload of
        Panic \<Rightarrow> Panic
      | Err e \<Rightarrow> Ret (send_error ''42601'' (error_text e) s)
      | Ret dMsg \<Rightarrow>
          if d_target dMsg = CHR ''S'' then
            (let stmt = s_stmts s (d_name dMsg) in
             if stmt = None \<and> d_name dMsg \<noteq> [] then
               Ret (send_error ''26000''
                 (''prepared statement '' @ quoted rt (d_name dMsg) @ '' does not exist'') s)
             else
               (let query = (case stmt of None \<Rightarrow> [] | Some p \<Rightarrow> p_query p);
                    paramOIDs = (case stmt of None \<Rightarrow> [] | Some p \<Rightarrow> p_oids p)
                in describe_query rt query [] (send (WriteParameterDescription paramOIDs) s)))
          else if d_target dMsg = CHR ''P'' then
            (let portal = s_portals s (d_name dMsg) in
             if portal = None \<and> d_name dMsg \<noteq> [] then
               Ret (send_error ''34000'' (''cursor '' @ quoted rt (d_name dMsg) @ '' does not exist'') s)
             else
               describe_query rt (portal_query portal) (portal_formats portal) s)
          else describe_query rt [] [] s)"

definition handleExecute :: "go_rt \<Rightarrow> bytes \<Rightarrow> Session \<Rightarrow> (unit, Session) outcome" where
  "handleExecute rt payload s =
     (let s = count_query s in
      case ReadExecute payload of
        Panic \<Rightarrow> Panic
      | Err e \<Rightarrow> Ret (send_error ''42601'' (error_text e) s)
      | Ret eMsg \<Rightarrow>
          (let portal = s_portals s (e_portal eMsg) in
           if portal = None \<and> e_portal eMsg \<noteq> [] then
             Ret (send_error ''34000'' (''cursor '' @ quoted rt (e_portal eMsg) @ '' does not exist'') s)
           else
             and_then (engine_match rt (portal_query portal) (portal_params portal) s) (\<lambda>(rule, s).
               executeRuleResponse rt rule (portal_params portal) (portal_formats portal) s)))"

definition handleClose :: "bytes \<Rightarrow> Session \<Rightarrow> (unit, Session) outcome" where
  "handleClose payload s =
     (case ReadClose payload of
        Panic \<Rightarrow> Panic
      | Err _ \<Rightarrow> Ret (send WriteCloseComplete s)
      | Ret cMsg \<Rightarrow>
          Ret (send WriteCloseComplete
            (if c_target cMsg = CHR ''S'' then s\<lparr>s_stmts := (s_stmts s)(c_name cMsg := None)\<rparr>
             else if c_target cMsg = CHR ''P'' then s\<lparr>s_portals := (s_portals s)(c_name cMsg := None)\<rparr>
             else s)))"

definition continue :: "(unit, Session) outcome \<Rightarrow> (unit, bool \<times> Session) outcome" where
  "continue x = and_then x (\<lambda>s. Ret (True, s))"

definition processMessage ::
  "go_rt \<Rightarrow> byte \<Rightarrow> bytes \<Rightarrow> Session \<Rightarrow> (unit, bool \<times> Session) outcome" where
  "processMessage rt msgType payload s =
     (if msgType = MsgTypeTerminate then Ret (False, s)
      else if msgType = MsgTypeQuery then continue (handleSimpleQuery rt payload s)
      else if msgType = MsgTypeParse then continue (handleParse payload s)
      else if msgType = MsgTypeBind then continue (handleBind rt payload s)
      else if msgType = MsgTypeDescribe then continue (handleDescribe rt payload s)
      else if msgType = MsgTypeExecute then continue (handleExecute rt payload s)
      else if msgType = MsgTypeSync then Ret (True, ready s)
      else if msgType = MsgTypeClose then continue (handleClose payload s)
      else if msgType = MsgTypeFlush then Ret (True, s)
      else Ret (True, ready s))"

section \<open>Handshake and loop\<close>

datatype handshake_error =
    ReadError read_error
  | TLSFailed          \<comment> \<open>\<open>tls handshake failed\<close>\<close>
  | SSLTwice           \<comment> \<open>\<open>client requested SSL twice\<close>\<close>

definition read_startup :: "bytes \<Rightarrow> (handshake_error, bool \<times> bytes) outcome" where
  "read_startup r =
     (case ReadStartupOrSSL r of
        Ret ((isSSL, startup), r) \<Rightarrow> Ret (isSSL, r)
      | Err e \<Rightarrow> Err (ReadError e)
      | Panic \<Rightarrow> Panic)"

definition read_second_startup :: "bytes \<Rightarrow> (handshake_error, bytes) outcome" where
  "read_second_startup r =
     and_then (read_startup r) (\<lambda>(isSSL2, r). if isSSL2 then Err SSLTwice else Ret r)"

definition greeting :: "(bytes \<times> bytes) list \<Rightarrow> Session \<Rightarrow> Session" where
  "greeting order s =
     ready (send (WriteBackendKeyData 1000 4242)
       (send (WriteStandardParameterStatuses order) (send WriteAuthOK s)))"

text \<open>
  \<open>tls\<close> is the TLS configuration: given what follows the accepted SSLRequest on the wire, the
  decrypted stream, or \<open>None\<close> when the handshake of \<open>crypto/tls\<close> fails.  \<open>order\<close> is the order in which
  the map of parameters is walked.  The session is returned with an error too, since what was sent
  before stays sent.  The writes of the handshake are taken to succeed: in the code a failing one, which the
  client causes by closing its side early, ends the connection after a part of the greeting.
\<close>

definition handleHandshake ::
  "(bytes \<Rightarrow> bytes option) option \<Rightarrow> (bytes \<times> bytes) list \<Rightarrow> bytes \<Rightarrow> Session \<Rightarrow>
    (handshake_error, bytes) outcome \<times> Session" where
  "handleHandshake tls order r s =
     (let (next, s) =
        (case read_startup r of
           Ret (False, r) \<Rightarrow> (Ret r, s)
         | Ret (True, r) \<Rightarrow>
             (case tls of
                Some accept \<Rightarrow>
                  ((case accept r of None \<Rightarrow> Err TLSFailed | Some r \<Rightarrow> read_second_startup r),
                   send [''S''] s)
              | None \<Rightarrow> (read_second_startup r, send WriteSSLRefusal s))
         | Err e \<Rightarrow> (Err e, s)
         | Panic \<Rightarrow> (Panic, s))
      in (next, case next of Ret _ \<Rightarrow> greeting order s | _ \<Rightarrow> s))"

definition closed :: "Session \<Rightarrow> bool" where
  "closed s \<longleftrightarrow> CloseConn \<in> set (s_out s)"

text \<open>
  The query loop on the bytes the client sends before it closes its side.  \<open>ahead\<close> is how many
  bytes the buffered reader holds when the handler closes the connection: those are still read.
\<close>

function serve :: "go_rt \<Rightarrow> nat \<Rightarrow> bytes \<Rightarrow> Session \<Rightarrow> (unit, Session) outcome" where
  "serve rt ahead input s =
     (case ReadMessageHeader input of
        Ret ((msgType, payloadLen), r) \<Rightarrow>
          if sint payloadLen < 0 then Panic
          else (case read_full (nat (sint payloadLen)) r of
            Ret (payload, r) \<Rightarrow>
              (case processMessage rt msgType payload s of
                 Ret (shouldContinue, s') \<Rightarrow>
                   if shouldContinue
                   then serve rt ahead (if closed s' \<and> \<not> closed s then take ahead r else r) s'
                   else Ret s'
               | _ \<Rightarrow> Panic)
          | _ \<Rightarrow> Ret s)
      | _ \<Rightarrow> Ret s)"
  by pat_completeness auto
termination
  by (relation "measure (\<lambda>(rt, ahead, input, s). length input)")
    (auto simp: ReadMessageHeader_def and_then_pair_Ret read_full_iff Let_def split: if_splits)

declare serve.simps [simp del]

definition Handle ::
  "go_rt \<Rightarrow> (bytes \<Rightarrow> bytes option) option \<Rightarrow> (bytes \<times> bytes) list \<Rightarrow> nat \<Rightarrow> bytes \<Rightarrow> Session \<Rightarrow>
    (unit, Session) outcome" where
  "Handle rt tls order ahead input s =
     (let s = s\<lparr>s_active := map_option (\<lambda>n. n + 1) (s_active s)\<rparr>;
          leave = (\<lambda>s. let s = emit CloseConn s in
            s\<lparr>s_active := map_option (\<lambda>n. n - 1) (s_active s)\<rparr>)
      in case handleHandshake tls order input s of
           (Ret r, s) \<Rightarrow> and_then (serve rt ahead r s) (\<lambda>s. Ret (leave s))
         | (Err _, s) \<Rightarrow> Ret (leave s)
         | (Panic, s) \<Rightarrow> Panic)"

end
