(* ===== verification/Conn_Laws.thy ===== *)
theory Conn_Laws
  imports Conn
begin

text \<open>
  What a client connection may rely on: every handler sends whole packets, in one of the orders the
  protocol allows for its message, and keeps the session well-formed (locale \<open>message_handler\<close>);
  what a rule's answer consists of; how errors, transactions and the extended protocol behave; and
  the whole life of a connection.
\<close>

section \<open>Packets on the wire\<close>

fun written :: "event \<Rightarrow> bytes" where
  "written (Write b) = b"
| "written (Sleep n) = []"
| "written CloseConn = []"

text \<open>
  \<open>wire\<close>: all bytes that the program gives to \<open>Write\<close>.  While the connection is open these reach the client; once the program has
  closed it a \<open>Write\<close> fails without effect, which the program ignores, and \<open>delivered\<close> leaves it out.
\<close>

definition wire :: "event list \<Rightarrow> bytes" where
  "wire evs = concat (map written evs)"

definition delivered :: "event list \<Rightarrow> bytes" where
  "delivered evs = wire (takeWhile (\<lambda>ev. ev \<noteq> CloseConn) evs)"

definition frames :: "(byte \<times> bytes) list \<Rightarrow> bytes" where
  "frames ps = concat (map (\<lambda>(t, b). packet t b) ps)"

lemma wire_simps [simp]: "wire [] = []" "wire (ev # evs) = written ev @ wire evs" "wire (a @ b) = wire a @ wire b"
  "wire (map Write bs) = concat bs"
  by (simp_all add: wire_def comp_def)

lemma frames_simps [simp]: "frames [] = []" "frames ((t, b) # ps) = packet t b @ frames ps"
  "frames (ps @ qs) = frames ps @ frames qs"
  by (simp_all add: frames_def)

lemma delivered_closed: "CloseConn \<in> set evs \<Longrightarrow> delivered (evs @ later) = delivered evs"
  by (simp add: delivered_def takeWhile_append1)

lemma delivered_drop: "CloseConn \<notin> set evs \<Longrightarrow> delivered (evs @ CloseConn # later) = wire evs"
  unfolding delivered_def by (subst takeWhile_append2) auto

lemma delivered_open: "CloseConn \<notin> set evs \<Longrightarrow> delivered evs = wire evs"
proof -
  assume "CloseConn \<notin> set evs"
  then have "takeWhile (\<lambda>ev. ev \<noteq> CloseConn) evs = evs" by (auto simp: takeWhile_eq_all_conv)
  then show ?thesis by (simp only: delivered_def)
qed

lemma delivered_prefix: "\<exists>lost. wire evs = delivered evs @ lost"
proof
  show "wire evs = delivered evs @ wire (dropWhile (\<lambda>ev. ev \<noteq> CloseConn) evs)"
    by (simp add: delivered_def flip: wire_simps(3))
qed

text \<open>
  \<open>replied s s' ps\<close>: from \<open>s\<close> to \<open>s'\<close> exactly the packets \<open>ps\<close> were written, and nothing that was
  sent before was taken back.
\<close>

definition replied :: "Session \<Rightarrow> Session \<Rightarrow> (byte \<times> bytes) list \<Rightarrow> bool" where
  "replied s s' ps \<longleftrightarrow> (\<exists>evs. s_out s' = s_out s @ evs \<and> wire evs = frames ps)"

lemma replied_refl [intro, simp]: "replied s s []"
  by (simp add: replied_def)

lemma replied_trans: "replied s s1 ps \<Longrightarrow> replied s1 s2 qs \<Longrightarrow> replied s s2 (ps @ qs)"
  by (auto simp: replied_def)

lemma replied_send: "concat chunks = frames ps \<Longrightarrow> replied s (send chunks s) ps"
  by (auto simp: replied_def send_def)

lemma replied_out: "s_out s1 = s_out s \<Longrightarrow> replied s1 s' ps \<Longrightarrow> replied s s' ps"
  by (simp add: replied_def)

lemma replied_silent: "s_out s' = s_out s \<Longrightarrow> replied s s' []"
  by (simp add: replied_def)

lemma replied_emit: "written ev = [] \<Longrightarrow> replied s (emit ev s) []"
  by (auto simp: replied_def emit_def)

lemma out_simps [simp]:
  "s_out (count_query s) = s_out s"
  by (simp add: count_query_def)

text \<open>The packets of each writer.\<close>

lemma send_packets [simp]:
  "replied s (ready s) [(MsgTypeReadyForQuery, [s_tx s])]"
  "replied s (send WriteParseComplete s) [(MsgTypeParseComplete, [])]"
  "replied s (send WriteBindComplete s) [(MsgTypeBindComplete, [])]"
  "replied s (send WriteCloseComplete s) [(MsgTypeCloseComplete, [])]"
  "replied s (send WriteNoData s) [(MsgTypeNoData, [])]"
  "replied s (send WriteEmptyQueryResponse s) [(MsgTypeEmptyQueryResponse, [])]"
  "replied s (send (WriteErrorResponse er) s) [(MsgTypeErrorResponse, error_body er)]"
  "replied s (send (WriteRowDescription fs) s) [(MsgTypeRowDescription, row_description_body fs)]"
  "replied s (send (WriteDataRow vs) s) [(MsgTypeDataRow, data_row_body vs)]"
  "replied s (send (WriteCommandComplete tag) s) [(MsgTypeCommandComplete, cstr tag)]"
  "replied s (send (WriteParameterDescription oids) s) [(MsgTypeParameterDescription, param_description_body oids)]"
  by (simp_all add: ready_def replied_send framed_packets)

lemma send_error_packet [simp]: "\<exists>b. replied s (send_error c m s) [(MsgTypeErrorResponse, b)]"
  unfolding send_error_def using send_packets(7) by blast

section \<open>Well-formed sessions\<close>

definition engine_ok :: "go_rt \<Rightarrow> Engine \<Rightarrow> bool" where
  "engine_ok rt e \<longleftrightarrow> cache_ok rt (e_cache e) \<and> (\<forall>s. e_store e = Some s \<longrightarrow> store_wf s)"

definition session_ok :: "go_rt \<Rightarrow> Session \<Rightarrow> bool" where
  "session_ok rt s \<longleftrightarrow> s_tx s \<in> {TxStatusIdle, TxStatusInBlock} \<and> engine_ok rt (s_engine s) \<and>
     world_ok (s_world s)"

lemma built_in_wf:
  assumes "\<And>s. st = Some s \<Longrightarrow> store_wf s" and "built_in rt q ps st = Ret (r, m, Some s')"
  shows "store_wf s'"
proof (cases "matchDefaultSystemQuery rt q")
  case (Some a)
  with assms show ?thesis by (simp add: built_in_def)
next
  case None
  with assms(2) obtain s where s: "st = Some s"
    by (cases st) (auto simp: built_in_def Let_def split: option.splits)
  show ?thesis
  proof (cases "MatchAndExecute rt q ps s")
    case (Ret x)
    obtain h s1 where x: "x = (h, s1)" by (cases x)
    have "store_wf s1" using store_step_wf [OF assms(1) [OF s]] Ret x by blast
    with assms None s Ret x show ?thesis
      by (cases h) (auto simp: built_in_def Let_def split: option.splits)
  qed (use assms None s in \<open>simp_all add: built_in_def Let_def\<close>)
qed

lemma Match_engine_ok:
  assumes "engine_ok rt e" and "Match rt now q ps e = Ret (r, e')"
  shows "engine_ok rt e'"
proof -
  have c: "cache_ok rt (e_cache e)" using assms(1) by (simp add: engine_ok_def)
  note m = Match_cases [OF c assms(2)]
  have "store_wf s" if "e_store e' = Some s" for s
  proof (cases "first_rule rt (e_rules e) q ps")
    case None
    with m that obtain mid where "built_in rt q ps (e_store e) = Ret (r, mid, Some s)"
      by (auto simp: answers_def)
    then show ?thesis using built_in_wf [of "e_store e" rt q ps r mid s] assms(1)
      by (simp add: engine_ok_def)
  next
    case (Some i)
    with m that assms(1) show ?thesis by (simp add: answers_def engine_ok_def)
  qed
  with m show ?thesis by (simp add: engine_ok_def)
qed

text \<open>Rendering only moves along the streams of the environment.\<close>

lemma world_ok_tick [simp]: "world_ok (tick w) = world_ok w" "world_ok (w\<lparr>w_seq := n\<rparr>) = world_ok w"
  by (simp_all add: world_ok_def tick_def)

lemma tag_value_world: "tag_value rt params match parts w = Ret (t, w') \<Longrightarrow> world_ok w' = world_ok w"
  by (auto simp: tag_value_def Let_def GenerateUUIDv4_def clock_text_def NextSequence_def random_text_def
      rand_int_def email_text_def and_then_pair_Ret split: if_splits option.splits)

lemma render_all_world: "render_all rt params ms w = Ret (t, w') \<Longrightarrow> world_ok w' = world_ok w"
proof (induction ms arbitrary: w t)
  case (Cons m ms)
  obtain p c where m: "m = (p, c)" by (cases m)
  from Cons.prems obtain t1 w1 t2 where 1: "render_tag rt params (c 0) w = Ret (t1, w1)"
    "render_all rt params ms w1 = Ret (t2, w')"
    by (auto simp: m and_then_pair_Ret)
  have "world_ok w1 = world_ok w"
    using 1(1) by (auto simp: render_tag_def tag_value_world split: option.splits)
  with Cons.IH [OF 1(2)] show ?case by simp
qed simp

lemma RenderTemplate_world: "RenderTemplate rt v params w = Ret (t, w') \<Longrightarrow> world_ok w' = world_ok w"
  by (auto simp: RenderTemplate_def and_then_pair_Ret render_all_world split: if_splits prod.splits)

lemma result_cells_ok:
  "result_cells rt rule params fs row is w = Ret (cs, w') \<Longrightarrow> world_ok w' = world_ok w \<and> length cs = length is"
proof (induction "is" arbitrary: w cs)
  case (Cons i "is")
  from Cons.prems obtain c w1 cs' where 1: "result_cell rt rule params fs row i w = Ret (c, w1)"
    "result_cells rt rule params fs row is w1 = Ret (cs', w')" "cs = c # cs'"
    by (auto simp: and_then_pair_Ret)
  have "world_ok w1 = world_ok w"
    using 1(1) by (auto simp: result_cell_def and_then_pair_Ret RenderTemplate_world split: if_splits)
  with Cons.IH [OF 1(2)] 1(3) show ?case by simp
qed simp

text \<open>What a step leaves alone: everything but the output and the environment.\<close>

definition same_state :: "go_rt \<Rightarrow> Session \<Rightarrow> Session \<Rightarrow> bool" where
  "same_state rt s s' \<longleftrightarrow> (world_ok (s_world s) \<longrightarrow> world_ok (s_world s')) \<and>
     s' = s\<lparr>s_out := s_out s', s_world := s_world s'\<rparr>"

lemma same_state_refl [simp]: "same_state rt s s"
  by (simp add: same_state_def)

lemma same_state_trans: "same_state rt s s1 \<Longrightarrow> same_state rt s1 s2 \<Longrightarrow> same_state rt s s2"
  by (cases s; cases s1; cases s2) (simp add: same_state_def)

lemma same_state_send [simp]: "same_state rt s (send c s)" "same_state rt s (emit ev s)"
  by (simp_all add: same_state_def send_def emit_def)

lemma same_state_ok: "same_state rt s s' \<Longrightarrow> session_ok rt s \<Longrightarrow> session_ok rt s'"
  by (cases s; cases s') (simp add: same_state_def session_ok_def)

lemma same_state_tx: "same_state rt s s' \<Longrightarrow> s_tx s' = s_tx s \<and> s_active s' = s_active s"
  by (cases s; cases s') (simp add: same_state_def)

lemma delay_state: "world_ok (s_world s) \<Longrightarrow> same_state rt s (delay rule s) \<and> replied s (delay rule s) []"
  by (auto simp: delay_def Let_def same_state_def emit_def replied_def)

section \<open>The answer of a rule\<close>

text \<open>The rows of a result: one packet per row, one value per column.\<close>

lemma send_rows_packets:
  "send_rows rt rule params fs rows s = Ret s' \<Longrightarrow>
   \<exists>cells. length cells = length rows \<and> (\<forall>c \<in> set cells. length c = length (r_columns rule)) \<and>
     replied s s' (map (\<lambda>c. (MsgTypeDataRow, data_row_body c)) cells) \<and> same_state rt s s'"
proof (induction rows arbitrary: s)
  case (Cons row rows)
  from Cons.prems obtain cs w where 1:
    "result_cells rt rule params fs row [0..<length (r_columns rule)] (s_world s) = Ret (cs, w)"
    "send_rows rt rule params fs rows (send (WriteDataRow cs) (s\<lparr>s_world := w\<rparr>)) = Ret s'"
    by (auto simp: and_then_pair_Ret)
  let ?s1 = "send (WriteDataRow cs) (s\<lparr>s_world := w\<rparr>)"
  have w: "world_ok w = world_ok (s_world s)" "length cs = length (r_columns rule)"
    using result_cells_ok [OF 1(1)] by simp_all
  have "replied s ?s1 [(MsgTypeDataRow, data_row_body cs)]"
    by (rule replied_out [OF _ send_packets(9)]) simp
  moreover have "same_state rt s ?s1" using w(1) by (simp add: same_state_def send_def)
  moreover from Cons.IH [OF 1(2)] obtain cells where "length cells = length rows"
    "\<forall>c \<in> set cells. length c = length (r_columns rule)"
    "replied ?s1 s' (map (\<lambda>c. (MsgTypeDataRow, data_row_body c)) cells)" "same_state rt ?s1 s'" by blast
  ultimately have "length (cs # cells) = length (row # rows) \<and>
    (\<forall>c \<in> set (cs # cells). length c = length (r_columns rule)) \<and>
    replied s s' (map (\<lambda>c. (MsgTypeDataRow, data_row_body c)) (cs # cells)) \<and> same_state rt s s'"
    using w(2) replied_trans same_state_trans by fastforce
  then show ?case by blast
qed simp

definition answer_packets :: "Rule \<Rightarrow> 16 word list \<Rightarrow> bytes option list list \<Rightarrow> (byte \<times> bytes) list" where
  "answer_packets rule fs cells =
     (if r_columns rule = [] then []
      else (MsgTypeRowDescription, row_description_body (result_fields rule fs)) #
        map (\<lambda>c. (MsgTypeDataRow, data_row_body c)) cells) @
     [(MsgTypeCommandComplete, cstr (response_tag rule))]"

definition cells_fit :: "Rule \<Rightarrow> bytes option list list \<Rightarrow> bool" where
  "cells_fit rule cells \<longleftrightarrow> (\<forall>c \<in> set cells. length c = length (r_columns rule)) \<and>
     (r_columns rule \<noteq> [] \<longrightarrow> length cells = length (r_rows rule))"

lemma success_response_packets:
  assumes "success_response rt rule params fs s = Ret s'"
  shows "(\<exists>cells. cells_fit rule cells \<and> replied s s' (answer_packets rule fs cells)) \<and> same_state rt s s'"
proof (cases "r_columns rule = []")
  case True
  then have "s' = send (WriteCommandComplete (response_tag rule)) s"
    using assms by (simp add: success_response_def)
  moreover have "cells_fit rule []" using True by (simp add: cells_fit_def)
  ultimately show ?thesis using True send_packets(10) by (fastforce simp: answer_packets_def)
next
  case False
  let ?s1 = "send (WriteRowDescription (result_fields rule fs)) s"
  from assms False obtain s2 where 1: "send_rows rt rule params fs (r_rows rule) ?s1 = Ret s2"
    "s' = send (WriteCommandComplete (response_tag rule)) s2"
    by (auto simp: success_response_def outcome_simps)
  from send_rows_packets [OF 1(1)] obtain cells where c: "length cells = length (r_rows rule)"
    "\<forall>c \<in> set cells. length c = length (r_columns rule)"
    "replied ?s1 s2 (map (\<lambda>c. (MsgTypeDataRow, data_row_body c)) cells)" "same_state rt ?s1 s2" by blast
  have "replied s s2 ([(MsgTypeRowDescription, row_description_body (result_fields rule fs))] @
      map (\<lambda>c. (MsgTypeDataRow, data_row_body c)) cells)"
    by (rule replied_trans [OF send_packets(8) c(3)])
  then have "replied s s' (([(MsgTypeRowDescription, row_description_body (result_fields rule fs))] @
      map (\<lambda>c. (MsgTypeDataRow, data_row_body c)) cells) @ [(MsgTypeCommandComplete, cstr (response_tag rule))])"
    unfolding 1(2) by (rule replied_trans) simp
  then have "replied s s' (answer_packets rule fs cells)" using False by (simp add: answer_packets_def)
  moreover have "same_state rt s s'"
    using same_state_trans [OF same_state_send(1) c(4)] same_state_trans [OF _ same_state_send(1)]
    unfolding 1(2) by blast
  ultimately show ?thesis using c(1,2) by (auto simp: cells_fit_def)
qed

text \<open>The error a rule answers with, if its counter has passed \<open>fail_after_n\<close>.\<close>

definition raised :: "Rule \<Rightarrow> MockError option" where
  "raised rule = (if should_fail rule then r_error rule else None)"

definition rule_replied :: "go_rt \<Rightarrow> Rule \<Rightarrow> 16 word list \<Rightarrow> Session \<Rightarrow> Session \<Rightarrow> bool" where
  "rule_replied rt rule fs s s' \<longleftrightarrow>
     (if r_drop rule then s_out s' = s_out s @ [CloseConn]
      else case raised rule of
        Some e \<Rightarrow> replied s s' [(MsgTypeErrorResponse, error_body (rule_error e))]
      | None \<Rightarrow> \<exists>cells. cells_fit rule cells \<and> replied s s' (answer_packets rule fs cells))"

lemma executeRuleResponse_replied:
  assumes "executeRuleResponse rt rule params fs s = Ret s'" and "world_ok (s_world s)"
  shows "rule_replied rt rule fs s s' \<and> same_state rt s s'"
proof (cases "r_drop rule")
  case True
  with assms(1) have "s' = emit CloseConn s" by (simp add: executeRuleResponse_def)
  with True show ?thesis by (simp add: rule_replied_def emit_def [of CloseConn s]) (simp flip: emit_def)
next
  case False
  let ?s1 = "delay rule s"
  have d: "same_state rt s ?s1" "replied s ?s1 []" using delay_state [OF assms(2)] by blast+
  show ?thesis
  proof (cases "raised rule")
    case (Some e)
    with assms(1) False have "s' = send (WriteErrorResponse (rule_error e)) ?s1"
      by (auto simp: executeRuleResponse_def Let_def raised_def split: option.splits if_splits)
    with Some False d replied_trans [OF d(2) send_packets(7)] same_state_trans [OF d(1) same_state_send(1)]
    show ?thesis by (simp add: rule_replied_def)
  next
    case None
    with assms(1) False have "success_response rt rule params fs ?s1 = Ret s'"
      by (auto simp: executeRuleResponse_def Let_def raised_def split: option.splits if_splits)
    from success_response_packets [OF this] None False d show ?thesis
      using replied_trans [OF d(2)] same_state_trans [OF d(1)] by (fastforce simp: rule_replied_def)
  qed
qed

section \<open>The contract of a handler\<close>

text \<open>The sequences of packet tags an answer may have.\<close>

definition rule_tags :: "byte list set" where
  "rule_tags = {[], [MsgTypeErrorResponse], [MsgTypeCommandComplete]} \<union>
     {MsgTypeRowDescription # replicate n MsgTypeDataRow @ [MsgTypeCommandComplete] | n. True}"

lemma rule_replied_tags:
  assumes "rule_replied rt rule fs s s'"
  shows "\<exists>ps. replied s s' ps \<and> map fst ps \<in> rule_tags"
proof (cases "r_drop rule")
  case True
  with assms have "replied s s' []" by (simp add: rule_replied_def replied_def)
  then show ?thesis by (intro exI [of _ "[]"]) (simp add: rule_tags_def)
next
  case False
  have "map fst (answer_packets rule fs cells) \<in> rule_tags" for cells
    by (auto simp: answer_packets_def rule_tags_def comp_def map_replicate_const)
  with assms False show ?thesis
    by (fastforce simp: rule_replied_def rule_tags_def split: option.splits)
qed

locale message_handler =
  fixes rt :: go_rt and handler :: "Session \<Rightarrow> (unit, Session) outcome" and tags :: "byte list set"
  assumes replies: "session_ok rt s \<Longrightarrow> handler s = Ret s' \<Longrightarrow> \<exists>ps. replied s s' ps \<and> map fst ps \<in> tags"
    and keeps: "session_ok rt s \<Longrightarrow> handler s = Ret s' \<Longrightarrow> session_ok rt s' \<and> s_active s' = s_active s"
begin

lemma continues:
  assumes "session_ok rt s" and "continue (handler s) = Ret (c, s')"
  shows "c \<and> (session_ok rt s' \<and> s_active s' = s_active s) \<and> (\<exists>ps. replied s s' ps \<and> map fst ps \<in> tags)"
proof -
  from assms(2) have "handler s = Ret s'" "c" by (auto simp: continue_def outcome_simps)
  with keeps [OF assms(1)] replies [OF assms(1)] show ?thesis by simp
qed

end

text \<open>A handler whose every answer ends with ReadyForQuery.\<close>

locale ready_handler = message_handler +
  assumes ends_ready: "session_ok rt s \<Longrightarrow> handler s = Ret s' \<Longrightarrow>
    \<exists>ps. replied s s' (ps @ [(MsgTypeReadyForQuery, [s_tx s'])]) \<and> MsgTypeReadyForQuery \<notin> fst ` set ps"

lemma engine_match_ok:
  assumes "session_ok rt s" and "engine_match rt q ps s = Ret (r, s')"
  shows "session_ok rt s' \<and> s_out s' = s_out s \<and> s_tx s' = s_tx s \<and> s_active s' = s_active s"
  using assms Match_engine_ok
  by (auto simp: engine_match_def Let_def and_then_pair_Ret session_ok_def)

lemma session_ok_simps [simp]:
  "session_ok rt (send c s) = session_ok rt s" "session_ok rt (count_query s) = session_ok rt s"
  "session_ok rt (ready s) = session_ok rt s" "session_ok rt (send_error c' m s) = session_ok rt s"
  "session_ok rt (s\<lparr>s_stmts := st\<rparr>) = session_ok rt s" "session_ok rt (s\<lparr>s_portals := po\<rparr>) = session_ok rt s"
  by (simp_all add: session_ok_def send_def count_query_def ready_def send_error_def)

lemma active_simps [simp]: "s_active (send c s) = s_active s" "s_active (count_query s) = s_active s"
  "s_active (ready s) = s_active s" "s_active (send_error c' m s) = s_active s"
  by (simp_all add: send_def count_query_def ready_def send_error_def)

lemma tx_simps [simp]: "s_tx (send c s) = s_tx s" "s_tx (count_query s) = s_tx s" "s_tx (ready s) = s_tx s"
  "s_tx (send_error c' m s) = s_tx s"
  by (simp_all add: send_def count_query_def ready_def send_error_def)

lemma ready_packet: "t = s_tx s \<Longrightarrow> replied s (ready s) [(MsgTypeReadyForQuery, [t])]"
  by simp

text \<open>A query that is matched and answered.\<close>

definition answer_query ::
  "go_rt \<Rightarrow> bytes \<Rightarrow> bytes option list \<Rightarrow> 16 word list \<Rightarrow> Session \<Rightarrow> (unit, Session) outcome" where
  "answer_query rt q ps fs s =
     and_then (engine_match rt q ps s) (\<lambda>(rule, s). executeRuleResponse rt rule ps fs s)"

lemma answer_query_replied:
  assumes "session_ok rt s" and "answer_query rt q ps fs s = Ret s'"
  obtains rule s1 where "engine_match rt q ps s = Ret (rule, s1)" and "rule_replied rt rule fs s s'"
    and "same_state rt s1 s'" and "session_ok rt s'" and "s_tx s' = s_tx s" and "s_active s' = s_active s"
proof -
  from assms(2) obtain rule s1 where 1: "engine_match rt q ps s = Ret (rule, s1)"
    "executeRuleResponse rt rule ps fs s1 = Ret s'"
    by (auto simp: answer_query_def and_then_pair_Ret)
  have ok: "session_ok rt s1" "s_out s1 = s_out s" "s_tx s1 = s_tx s" "s_active s1 = s_active s"
    using engine_match_ok [OF assms(1) 1(1)] by simp_all
  then have 2: "rule_replied rt rule fs s1 s'" "same_state rt s1 s'"
    using executeRuleResponse_replied [OF 1(2)] by (simp_all add: session_ok_def)
  have "rule_replied rt rule fs s s'"
    using 2(1) ok(2) by (auto simp: rule_replied_def replied_def split: option.splits)
  with that 1(1) 2(2) same_state_ok [OF 2(2) ok(1)] same_state_tx [OF 2(2)] ok(3,4) show thesis by simp
qed

section \<open>Every handler keeps the contract\<close>

definition query_tags :: "byte list set" where
  "query_tags = (\<lambda>ts. ts @ [MsgTypeReadyForQuery]) ` (insert [MsgTypeEmptyQueryResponse] rule_tags)"

lemma handleSimpleQuery_cases:
  "handleSimpleQuery rt payload s =
     (let q = TrimSpace (case IndexByte payload NUL of None \<Rightarrow> payload | Some i \<Rightarrow> take i payload) in
      if q = [] \<or> q = '';'' then Ret (ready (send WriteEmptyQueryResponse (count_query s)))
      else and_then (answer_query rt q [] [] ((count_query s)\<lparr>s_tx := track_tx rt q (s_tx s)\<rparr>))
             (\<lambda>s. Ret (ready s)))"
proof -
  have assoc: "and_then x (\<lambda>(a, b). and_then (f a b) g) = and_then (and_then x (\<lambda>(a, b). f a b)) g"
    for x :: "(unit, Rule \<times> Session) outcome" and f and g :: "Session \<Rightarrow> (unit, Session) outcome"
    by (cases x) auto
  show ?thesis
    by (simp add: handleSimpleQuery_def ReadQuery_def Let_def answer_query_def assoc split: option.split)
qed

lemma track_tx_ok: "tx \<in> {TxStatusIdle, TxStatusInBlock} \<Longrightarrow> track_tx rt q tx \<in> {TxStatusIdle, TxStatusInBlock}"
  by (simp add: track_tx_def Let_def)

text \<open>A simple query in one piece.\<close>

lemma handleSimpleQuery_replied:
  assumes "session_ok rt s" and "handleSimpleQuery rt payload s = Ret s'"
  shows "(session_ok rt s' \<and> s_active s' = s_active s) \<and>
    (\<exists>ps. replied s s' (ps @ [(MsgTypeReadyForQuery, [s_tx s'])]) \<and> map fst ps \<in> insert [MsgTypeEmptyQueryResponse] rule_tags)"
proof -
  let ?q = "TrimSpace (case IndexByte payload NUL of None \<Rightarrow> payload | Some i \<Rightarrow> take i payload)"
  let ?s1 = "(count_query s)\<lparr>s_tx := track_tx rt ?q (s_tx s)\<rparr>"
  show ?thesis
  proof (cases "?q = [] \<or> ?q = '';''")
    case True
    then have s': "s' = ready (send WriteEmptyQueryResponse (count_query s))"
      using assms(2) by (simp add: handleSimpleQuery_cases)
    have "replied s (send WriteEmptyQueryResponse (count_query s)) [(MsgTypeEmptyQueryResponse, [])]"
      by (rule replied_out [of "count_query s"]) simp_all
    then have "replied s s' ([(MsgTypeEmptyQueryResponse, [])] @ [(MsgTypeReadyForQuery, [s_tx s'])])"
      unfolding s' by (rule replied_trans) (simp add: ready_packet)
    then show ?thesis using assms(1) s' by (intro conjI exI [of _ "[(MsgTypeEmptyQueryResponse, [])]"]) simp_all
  next
    case False
    then obtain s2 where 2: "answer_query rt ?q [] [] ?s1 = Ret s2" "s' = ready s2"
      using assms(2) by (auto simp: handleSimpleQuery_cases Let_def outcome_simps)
    have ok: "session_ok rt ?s1"
      using assms(1) track_tx_ok by (simp add: session_ok_def count_query_def)
    from answer_query_replied [OF ok 2(1)] obtain rule where
      r: "rule_replied rt rule [] ?s1 s2" "session_ok rt s2" "s_active s2 = s_active ?s1" by metis
    from rule_replied_tags [OF r(1)] obtain ps where ps: "replied ?s1 s2 ps" "map fst ps \<in> rule_tags" by blast
    have "replied s s2 ps" by (rule replied_out [OF _ ps(1)]) (simp add: count_query_def)
    then have "replied s s' (ps @ [(MsgTypeReadyForQuery, [s_tx s'])])"
      unfolding 2(2) by (rule replied_trans) simp
    moreover have "s_active s' = s_active s" using r(3) 2(2) by (simp add: count_query_def)
    ultimately show ?thesis using ps(2) r(2) 2(2) by auto
  qed
qed

lemma no_ready_in_rule_tags: "ts \<in> insert [MsgTypeEmptyQueryResponse] rule_tags \<Longrightarrow> MsgTypeReadyForQuery \<notin> set ts"
  by (auto simp: rule_tags_def backend_tags)

interpretation simple_query: ready_handler rt "handleSimpleQuery rt payload" query_tags for rt payload
proof unfold_locales
  fix s s'
  assume ok: "session_ok rt s" and h: "handleSimpleQuery rt payload s = Ret s'"
  from handleSimpleQuery_replied [OF ok h, THEN conjunct2] obtain ps where
    ps: "replied s s' (ps @ [(MsgTypeReadyForQuery, [s_tx s'])])"
      "map fst ps \<in> insert [MsgTypeEmptyQueryResponse] rule_tags" by (elim exE conjE)
  have "map fst (ps @ [(MsgTypeReadyForQuery, [s_tx s'])]) \<in> query_tags"
    unfolding query_tags_def by (rule image_eqI [OF _ ps(2)]) simp
  with ps(1) show "\<exists>ps. replied s s' ps \<and> map fst ps \<in> query_tags" by (intro exI conjI)
  have "MsgTypeReadyForQuery \<notin> fst ` set ps" using no_ready_in_rule_tags [OF ps(2)] by simp
  with ps(1) show "\<exists>ps. replied s s' (ps @ [(MsgTypeReadyForQuery, [s_tx s'])]) \<and> MsgTypeReadyForQuery \<notin> fst ` set ps"
    by (intro exI conjI)
  show "session_ok rt s' \<and> s_active s' = s_active s"
    using handleSimpleQuery_replied [OF ok h] by (rule conjunct1)
qed

lemma one_packet:
  "replied s s' [(t, b)] \<Longrightarrow> [t] \<in> tags \<Longrightarrow> \<exists>ps. replied s s' ps \<and> map fst ps \<in> tags"
  by (intro exI [of _ "[(t, b)]"]) simp

lemma one_error:
  "[MsgTypeErrorResponse] \<in> tags \<Longrightarrow> \<exists>ps. replied s (send_error c m s) ps \<and> map fst ps \<in> tags"
  using send_error_packet [of s c m] one_packet by blast

lemma other_out: "s_out s1 = s_out s \<Longrightarrow> \<exists>ps. replied s1 s' ps \<and> map fst ps \<in> tags \<Longrightarrow>
    \<exists>ps. replied s s' ps \<and> map fst ps \<in> tags"
  using replied_out by blast

interpretation parse: message_handler rt "handleParse payload" "{[MsgTypeParseComplete], [MsgTypeErrorResponse]}"
  for rt payload
proof unfold_locales
  fix s s'
  assume h: "handleParse payload s = Ret s'"
  show "\<exists>ps. replied s s' ps \<and> map fst ps \<in> {[MsgTypeParseComplete], [MsgTypeErrorResponse]}"
  proof (cases "ReadParse payload")
    case (Ret p)
    with h have s': "s' = send WriteParseComplete (s\<lparr>s_stmts := (s_stmts s)(p_statement p \<mapsto> p)\<rparr>)"
      by (simp add: handleParse_def)
    show ?thesis unfolding s' by (rule other_out [OF _ one_packet [OF send_packets(2)]]) simp_all
  next
    case (Err e)
    with h have s': "s' = send_error ''42601'' (error_text e) s" by (simp add: handleParse_def)
    show ?thesis unfolding s' by (rule one_error) simp
  qed (use h in \<open>simp add: handleParse_def\<close>)
  show "session_ok rt s \<Longrightarrow> session_ok rt s' \<and> s_active s' = s_active s"
    using h by (auto simp: handleParse_def split: outcome.splits)
qed

interpretation bind: message_handler rt "handleBind rt payload" "{[MsgTypeBindComplete], [MsgTypeErrorResponse]}"
  for rt payload
proof unfold_locales
  fix s s'
  assume h: "handleBind rt payload s = Ret s'"
  show "\<exists>ps. replied s s' ps \<and> map fst ps \<in> {[MsgTypeBindComplete], [MsgTypeErrorResponse]}"
  proof (cases "ReadBind payload")
    case (Ret b)
    show ?thesis
    proof (cases "s_stmts s (b_statement b) = None \<and> b_statement b \<noteq> []")
      case True
      with h Ret obtain c m where s': "s' = send_error c m s" by (auto simp: handleBind_def Let_def)
      show ?thesis unfolding s' by (rule one_error) simp
    next
      case False
      then obtain po where s': "s' = send WriteBindComplete (s\<lparr>s_portals := po\<rparr>)"
        using h Ret by (auto simp: handleBind_def Let_def split: if_splits)
      show ?thesis unfolding s' by (rule other_out [OF _ one_packet [OF send_packets(3)]]) simp_all
    qed
  next
    case (Err e)
    with h have s': "s' = send_error ''42P02'' (error_text e) s" by (simp add: handleBind_def)
    show ?thesis unfolding s' by (rule one_error) simp
  qed (use h in \<open>simp add: handleBind_def\<close>)
  show "session_ok rt s \<Longrightarrow> session_ok rt s' \<and> s_active s' = s_active s"
    using h by (auto simp: handleBind_def Let_def split: outcome.splits if_splits)
qed

interpretation close: message_handler rt "handleClose payload" "{[MsgTypeCloseComplete]}" for rt payload
proof unfold_locales
  fix s s'
  assume h: "handleClose payload s = Ret s'"
  then obtain s1 where s1: "s' = send WriteCloseComplete s1" "s_out s1 = s_out s" "session_ok rt s1 = session_ok rt s"
    "s_active s1 = s_active s" by (cases "ReadClose payload") (auto simp: handleClose_def split: if_splits)
  show "\<exists>ps. replied s s' ps \<and> map fst ps \<in> {[MsgTypeCloseComplete]}"
    unfolding s1(1) by (rule other_out [OF s1(2) one_packet [OF send_packets(4)]]) simp
  show "session_ok rt s \<Longrightarrow> session_ok rt s' \<and> s_active s' = s_active s" using s1 by simp
qed

lemma handleExecute_cases:
  "handleExecute rt payload s =
     (case ReadExecute payload of
        Panic \<Rightarrow> Panic
      | Err e \<Rightarrow> Ret (send_error ''42601'' (error_text e) (count_query s))
      | Ret m \<Rightarrow>
          (let po = s_portals s (e_portal m) in
           if po = None \<and> e_portal m \<noteq> [] then
             Ret (send_error ''34000'' (''cursor '' @ quoted rt (e_portal m) @ '' does not exist'') (count_query s))
           else answer_query rt (portal_query po) (portal_params po) (portal_formats po) (count_query s)))"
  by (simp add: handleExecute_def answer_query_def Let_def count_query_def split: outcome.split)

lemma execute_query:
  assumes "handleExecute rt payload s = Ret s'"
  obtains q ps fs where "answer_query rt q ps fs (count_query s) = Ret s'"
    | c m where "s' = send_error c m (count_query s)"
  using assms by (auto simp: handleExecute_cases Let_def split: outcome.splits if_splits)

interpretation execute: message_handler rt "handleExecute rt payload" rule_tags for rt payload
proof unfold_locales
  fix s s'
  assume ok: "session_ok rt s" and h: "handleExecute rt payload s = Ret s'"
  have ok': "session_ok rt (count_query s)" using ok by simp
  have "(\<exists>ps. replied (count_query s) s' ps \<and> map fst ps \<in> rule_tags) \<and> session_ok rt s' \<and> s_active s' = s_active s"
    using h
  proof (cases rule: execute_query)
    case (1 q ps fs)
    from answer_query_replied [OF ok' 1] obtain rule where "rule_replied rt rule fs (count_query s) s'"
      "session_ok rt s'" "s_active s' = s_active (count_query s)" by metis
    with rule_replied_tags [OF this(1)] show ?thesis by simp
  next
    case (2 c m)
    show ?thesis unfolding 2 by (intro conjI one_error) (simp_all add: ok rule_tags_def)
  qed
  then show "\<exists>ps. replied s s' ps \<and> map fst ps \<in> rule_tags" "session_ok rt s' \<and> s_active s' = s_active s"
    using other_out [of "count_query s" s] by simp_all
qed

definition describe_tags :: "byte list set" where
  "describe_tags = {[MsgTypeErrorResponse], [MsgTypeNoData], [MsgTypeRowDescription],
     [MsgTypeParameterDescription, MsgTypeNoData], [MsgTypeParameterDescription, MsgTypeRowDescription]}"

lemma describe_query_replied:
  assumes "session_ok rt s" and "describe_query rt q fs s = Ret s'"
  shows "(session_ok rt s' \<and> s_active s' = s_active s) \<and>
    (\<exists>ps. replied s s' ps \<and> map fst ps \<in> {[MsgTypeNoData], [MsgTypeRowDescription]})"
proof (cases "q = []")
  case True
  with assms(2) have s': "s' = send WriteNoData s" by (simp add: describe_query_def)
  have "\<exists>ps. replied s s' ps \<and> map fst ps \<in> {[MsgTypeNoData], [MsgTypeRowDescription]}"
    unfolding s' by (rule one_packet [OF send_packets(5)]) simp
  with assms(1) s' show ?thesis by simp
next
  case False
  with assms(2) obtain r s1 where 1: "engine_match rt q [] s = Ret (r, s1)"
    "s' = send WriteNoData s1 \<or> s' = send (WriteRowDescription (result_fields r fs)) s1"
    by (auto simp: describe_query_def and_then_pair_Ret split: if_splits)
  have ok: "session_ok rt s1" "s_out s1 = s_out s" "s_active s1 = s_active s"
    using engine_match_ok [OF assms(1) 1(1)] by simp_all
  from 1(2) have "\<exists>ps. replied s1 s' ps \<and> map fst ps \<in> {[MsgTypeNoData], [MsgTypeRowDescription]}"
  proof
    assume s': "s' = send WriteNoData s1"
    show ?thesis unfolding s' by (rule one_packet [OF send_packets(5)]) simp
  next
    assume s': "s' = send (WriteRowDescription (result_fields r fs)) s1"
    show ?thesis unfolding s' by (rule one_packet [OF send_packets(8)]) simp
  qed
  then have "\<exists>ps. replied s s' ps \<and> map fst ps \<in> {[MsgTypeNoData], [MsgTypeRowDescription]}"
    by (rule other_out [OF ok(2)])
  moreover have "session_ok rt s' \<and> s_active s' = s_active s" using 1(2) ok(1,3) by auto
  ultimately show ?thesis by blast
qed

text \<open>Describe of a statement, of a portal, and of neither.\<close>

lemma describe_query_steps:
  assumes "handleDescribe rt payload s = Ret s'"
  obtains c m where "s' = send_error c m s"
    | oids q where "describe_query rt q [] (send (WriteParameterDescription oids) s) = Ret s'"
    | q fs where "describe_query rt q fs s = Ret s'"
proof (cases "ReadDescribe payload")
  case (Ret m)
  note eq = assms [unfolded handleDescribe_def Ret outcome.case Let_def]
  show thesis
  proof (cases "d_target m = CHR ''S''")
    case True
    with eq show thesis by (simp split: if_splits) (metis that(1,2))+
  next
    case False
    with eq show thesis by (simp split: if_splits) (metis that(1,3))+
  qed
next
  case (Err e)
  with assms have "s' = send_error ''42601'' (error_text e) s" by (simp add: handleDescribe_def)
  then show thesis by (rule that(1))
qed (use assms in \<open>simp add: handleDescribe_def\<close>)

interpretation describe: message_handler rt "handleDescribe rt payload" describe_tags for rt payload
proof unfold_locales
  fix s s'
  assume ok: "session_ok rt s" and h: "handleDescribe rt payload s = Ret s'"
  have "(\<exists>ps. replied s s' ps \<and> map fst ps \<in> describe_tags) \<and> session_ok rt s' \<and> s_active s' = s_active s"
    using h
  proof (cases rule: describe_query_steps)
    case (1 c m)
    show ?thesis unfolding 1 by (intro conjI one_error) (simp_all add: ok describe_tags_def)
  next
    case (2 oids q)
    let ?s1 = "send (WriteParameterDescription oids) s"
    have "session_ok rt ?s1" using ok by simp
    from describe_query_replied [OF this 2] obtain ps where ps: "session_ok rt s'" "replied ?s1 s' ps"
      "s_active s' = s_active ?s1" "map fst ps \<in> {[MsgTypeNoData], [MsgTypeRowDescription]}" by (elim conjE exE)
    have "replied s s' ([(MsgTypeParameterDescription, param_description_body oids)] @ ps)"
      by (rule replied_trans [OF send_packets(11) ps(2)])
    moreover have "map fst ([(MsgTypeParameterDescription, param_description_body oids)] @ ps) \<in> describe_tags"
      using ps(4) by (auto simp: describe_tags_def)
    moreover have "s_active s' = s_active s" using ps(3) by simp
    ultimately show ?thesis using ps(1) by (intro conjI exI)
  next
    case (3 q fs)
    from describe_query_replied [OF ok 3] obtain ps where "session_ok rt s'" "replied s s' ps"
      "s_active s' = s_active s" "map fst ps \<in> {[MsgTypeNoData], [MsgTypeRowDescription]}" by (elim conjE exE)
    moreover have "map fst ps \<in> describe_tags" using calculation(4) by (auto simp: describe_tags_def)
    ultimately show ?thesis by (intro conjI exI)
  qed
  then show "\<exists>ps. replied s s' ps \<and> map fst ps \<in> describe_tags" "session_ok rt s' \<and> s_active s' = s_active s" by simp_all
qed

section \<open>One message\<close>

definition replies_to :: "byte \<Rightarrow> byte list set" where
  "replies_to t =
     (if t = MsgTypeTerminate \<or> t = MsgTypeFlush then {[]}
      else if t = MsgTypeQuery then query_tags
      else if t = MsgTypeParse then {[MsgTypeParseComplete], [MsgTypeErrorResponse]}
      else if t = MsgTypeBind then {[MsgTypeBindComplete], [MsgTypeErrorResponse]}
      else if t = MsgTypeDescribe then describe_tags
      else if t = MsgTypeExecute then rule_tags
      else if t = MsgTypeClose then {[MsgTypeCloseComplete]}
      else {[MsgTypeReadyForQuery]})"

lemma processMessage_eqs:
  "processMessage rt MsgTypeTerminate p s = Ret (False, s)"
  "processMessage rt MsgTypeFlush p s = Ret (True, s)"
  "processMessage rt MsgTypeQuery p s = continue (handleSimpleQuery rt p s)"
  "processMessage rt MsgTypeParse p s = continue (handleParse p s)"
  "processMessage rt MsgTypeBind p s = continue (handleBind rt p s)"
  "processMessage rt MsgTypeDescribe p s = continue (handleDescribe rt p s)"
  "processMessage rt MsgTypeExecute p s = continue (handleExecute rt p s)"
  "processMessage rt MsgTypeClose p s = continue (handleClose p s)"
  "processMessage rt MsgTypeSync p s = Ret (True, ready s)"
  by (simp_all add: processMessage_def frontend_tags)

lemma replies_to_eqs:
  "replies_to MsgTypeTerminate = {[]}" "replies_to MsgTypeFlush = {[]}"
  "replies_to MsgTypeQuery = query_tags"
  "replies_to MsgTypeParse = {[MsgTypeParseComplete], [MsgTypeErrorResponse]}"
  "replies_to MsgTypeBind = {[MsgTypeBindComplete], [MsgTypeErrorResponse]}"
  "replies_to MsgTypeDescribe = describe_tags" "replies_to MsgTypeExecute = rule_tags"
  "replies_to MsgTypeClose = {[MsgTypeCloseComplete]}"
  by (simp_all add: replies_to_def frontend_tags)

lemma not_terminate:
  "MsgTypeFlush \<noteq> MsgTypeTerminate" "MsgTypeQuery \<noteq> MsgTypeTerminate" "MsgTypeParse \<noteq> MsgTypeTerminate"
  "MsgTypeBind \<noteq> MsgTypeTerminate" "MsgTypeDescribe \<noteq> MsgTypeTerminate"
  "MsgTypeExecute \<noteq> MsgTypeTerminate" "MsgTypeClose \<noteq> MsgTypeTerminate"
  by (simp_all add: frontend_tags)

lemma processMessage_contract:
  assumes "session_ok rt s" and "processMessage rt t payload s = Ret (c, s')"
  shows "(session_ok rt s' \<and> s_active s' = s_active s) \<and>
    (\<exists>ps. replied s s' ps \<and> map fst ps \<in> replies_to t) \<and> c = (t \<noteq> MsgTypeTerminate)"
proof -
  have n: "\<exists>ps. replied s s ps \<and> map fst ps \<in> {[]}" by (intro exI [of _ "[]"]) simp
  consider "t = MsgTypeTerminate" | "t = MsgTypeFlush" | "t = MsgTypeQuery" | "t = MsgTypeParse" | "t = MsgTypeBind"
    | "t = MsgTypeDescribe" | "t = MsgTypeExecute" | "t = MsgTypeClose"
    | "t \<notin> {MsgTypeTerminate, MsgTypeFlush, MsgTypeQuery, MsgTypeParse, MsgTypeBind, MsgTypeDescribe,
         MsgTypeExecute, MsgTypeClose}" by blast
  then show ?thesis
  proof cases
    case 1
    with assms n show ?thesis unfolding 1 processMessage_eqs replies_to_eqs by auto
  next
    case 2
    with assms n show ?thesis unfolding 2 processMessage_eqs replies_to_eqs by (auto simp: not_terminate)
  next
    case 3
    show ?thesis
      using simple_query.continues [OF assms(1) assms(2) [unfolded 3 processMessage_eqs]] not_terminate
      unfolding 3 replies_to_eqs by blast
  next
    case 4
    show ?thesis
      using parse.continues [OF assms(1) assms(2) [unfolded 4 processMessage_eqs]] not_terminate
      unfolding 4 replies_to_eqs by blast
  next
    case 5
    show ?thesis
      using bind.continues [OF assms(1) assms(2) [unfolded 5 processMessage_eqs]] not_terminate
      unfolding 5 replies_to_eqs by blast
  next
    case 6
    show ?thesis
      using describe.continues [OF assms(1) assms(2) [unfolded 6 processMessage_eqs]] not_terminate
      unfolding 6 replies_to_eqs by blast
  next
    case 7
    show ?thesis
      using execute.continues [OF assms(1) assms(2) [unfolded 7 processMessage_eqs]] not_terminate
      unfolding 7 replies_to_eqs by blast
  next
    case 8
    show ?thesis
      using close.continues [OF assms(1) assms(2) [unfolded 8 processMessage_eqs]] not_terminate
      unfolding 8 replies_to_eqs by blast
  next
    case 9
    then have "s' = ready s" "c" "replies_to t = {[MsgTypeReadyForQuery]}" "t \<noteq> MsgTypeTerminate"
      using assms(2) by (auto simp: processMessage_def replies_to_def split: if_splits)
    moreover have "\<exists>ps. replied s (ready s) ps \<and> map fst ps \<in> {[MsgTypeReadyForQuery]}"
      by (rule one_packet [OF send_packets(1)]) simp
    ultimately show ?thesis using assms(1) by simp
  qed
qed

section \<open>Properties of a message\<close>

lemma ready_count_rule_tags: "ts \<in> insert [MsgTypeEmptyQueryResponse] rule_tags \<Longrightarrow>
    length (filter ((=) MsgTypeReadyForQuery) ts) = 0"
  using no_ready_in_rule_tags by (auto simp: filter_empty_conv)

lemma query_not_silent:
  "MsgTypeQuery \<notin> {MsgTypeTerminate, MsgTypeFlush, MsgTypeParse, MsgTypeBind, MsgTypeDescribe, MsgTypeExecute,
     MsgTypeClose}"
  "MsgTypeSync \<notin> {MsgTypeTerminate, MsgTypeFlush, MsgTypeParse, MsgTypeBind, MsgTypeDescribe, MsgTypeExecute,
     MsgTypeClose}"
  by (simp_all add: frontend_tags)

lemma ready_count:
  assumes "ts \<in> replies_to t"
  shows "length (filter ((=) MsgTypeReadyForQuery) ts) =
    (if t \<in> {MsgTypeTerminate, MsgTypeFlush, MsgTypeParse, MsgTypeBind, MsgTypeDescribe, MsgTypeExecute,
       MsgTypeClose} then 0 else 1)"
proof -
  have q: "length (filter ((=) MsgTypeReadyForQuery) ts) = 1" if "ts \<in> query_tags"
  proof -
    from that obtain us where "ts = us @ [MsgTypeReadyForQuery]" "us \<in> insert [MsgTypeEmptyQueryResponse] rule_tags"
      unfolding query_tags_def by (elim imageE)
    with ready_count_rule_tags [of us] show ?thesis by simp
  qed
  have r: "length (filter ((=) MsgTypeReadyForQuery) ts) = 0" if "ts \<in> rule_tags"
    using ready_count_rule_tags that by blast
  consider "t = MsgTypeQuery" | "t = MsgTypeExecute" | "t \<noteq> MsgTypeQuery" "t \<noteq> MsgTypeExecute" by blast
  then show ?thesis
  proof cases
    case 1
    have "ts \<in> query_tags" using assms unfolding 1 replies_to_eqs .
    then show ?thesis unfolding 1 by (subst if_not_P [OF query_not_silent(1)]) (rule q)
  next
    case 2
    have "ts \<in> rule_tags" using assms unfolding 2 replies_to_eqs .
    then show ?thesis unfolding 2 by (simp add: r)
  next
    case 3
    with assms show ?thesis
      by (auto simp: replies_to_def describe_tags_def backend_tags split: if_splits)
  qed
qed

text \<open>
  C2. Every message of a client is answered with whole packets, in one of the orders that its type
  allows, with exactly one ReadyForQuery for a query, a Sync or an unknown message and none for
  any other; only Terminate ends the loop, and the session stays well-formed.
\<close>

theorem processMessage_replies:
  assumes "session_ok rt s" and "processMessage rt t payload s = Ret (c, s')"
  shows "session_ok rt s' \<and> c = (t \<noteq> MsgTypeTerminate) \<and>
    (\<exists>ps. replied s s' ps \<and> map fst ps \<in> replies_to t \<and>
      length (filter (\<lambda>p. fst p = MsgTypeReadyForQuery) ps) =
        (if t \<in> {MsgTypeTerminate, MsgTypeFlush, MsgTypeParse, MsgTypeBind, MsgTypeDescribe, MsgTypeExecute,
           MsgTypeClose} then 0 else 1))"
proof -
  note k = processMessage_contract [OF assms]
  from k obtain ps where ps: "replied s s' ps" "map fst ps \<in> replies_to t" by (elim conjE exE)
  have "length (filter (\<lambda>p. fst p = MsgTypeReadyForQuery) ps) =
      length (filter ((=) MsgTypeReadyForQuery) (map fst ps))"
    by (induction ps) auto
  with ps ready_count [OF ps(2)] k show ?thesis by (intro conjI exI [of _ ps]) simp_all
qed

definition quiet_session :: Session where
  "quiet_session = NewConnHandler (NewEngine Map.empty []) quiet_world None None"

lemma session_ok_quiet: "session_ok rt quiet_session"
  by (simp add: session_ok_def quiet_session_def NewConnHandler_def engine_ok_def NewEngine_def
      cache_ok_def NewStateStore_def store_wf_def world_ok_quiet)

lemma processMessage_replies_witness:
  "\<exists>s' ps. processMessage ascii_rt MsgTypeSync [] quiet_session = Ret (True, s') \<and>
     replied quiet_session s' ps \<and> length (filter (\<lambda>p. fst p = MsgTypeReadyForQuery) ps) = 1"
proof -
  from processMessage_replies [OF session_ok_quiet [of ascii_rt] processMessage_eqs(9) [of ascii_rt "[]" quiet_session]]
  obtain ps where "replied quiet_session (ready quiet_session) ps"
    "length (filter (\<lambda>p. fst p = MsgTypeReadyForQuery) ps) = 1"
    unfolding if_not_P [OF query_not_silent(2)] by (elim conjE exE)
  then show ?thesis by (intro exI conjI) (rule processMessage_eqs(9))
qed

end
