(* ===== verification/Conn_Run.thy ===== *)
theory Conn_Run
  imports Conn_Laws
begin

text \<open>
  The life of a connection: the loop of \<open>Handle\<close> against a reference that runs through a list of
  decoded messages, the stream a client receives, and what a client can do to the whole process.
\<close>

section \<open>The loop and the list of messages\<close>

lemma unat_header: "length p < 2 ^ 31 \<Longrightarrow>
    ReadMessageHeader (packet t p @ r) = Ret ((t, word_of_nat (length p)), p @ r) \<and>
    sint (word_of_nat (length p) :: 32 word) = int (length p)"
proof -
  assume len: "length p < 2 ^ 31"
  then have "uint (packet_len p) = 4 + int (length p)"
    using unat_small_32 [of "4 + length p"] by (simp add: packet_len_def uint_nat)
  then show ?thesis
    using ReadMessageHeader_cases [of t "packet_len p" "p @ r"] sint_len32 [of p] len
    by (simp add: packet_def packet_len_def len32_def)
qed

lemma header_packet:
  assumes "ReadMessageHeader input = Ret ((t, n), r)" and "0 \<le> sint n"
    and "read_full (nat (sint n)) r = Ret (p, r')"
  shows "input = packet t p @ r' \<and> length p < 2 ^ 31"
proof -
  from assms(1) obtain a b where 1: "input = a @ b @ r" "length a = 1" "length b = 4" "t = hd a"
    "n = get_u32 b - 4"
    by (auto simp: ReadMessageHeader_def and_then_pair_Ret read_full_iff Let_def split: if_splits)
  from assms(3) have p: "length p = nat (sint n)" "r = p @ r'" by (simp_all add: read_full_iff)
  have "sint n < 2 ^ 31" using sint_lt [of n] by simp
  then have "nat (sint n) < 2 ^ 31" by simp
  with p have len: "length p < 2 ^ 31" by simp
  have "(word_of_nat (length p) :: 32 word) = n" using p(1) assms(2) by simp
  then have "packet_len p = get_u32 b" using 1(5) by (simp add: packet_len_def)
  then have "put_u32 (packet_len p) = b" using put_get_u32 [OF 1(3)] by simp
  moreover have "a = [t]" using 1(2,4) by (cases a) simp_all
  ultimately show ?thesis using 1(1) p(2) len by (simp add: packet_def)
qed

text \<open>What the loop goes on with after a message: the rest, or what was buffered at a close.\<close>

definition still_read :: "nat \<Rightarrow> Session \<Rightarrow> Session \<Rightarrow> bytes \<Rightarrow> bytes" where
  "still_read ahead s s' r = (if closed s' \<and> \<not> closed s then take ahead r else r)"

lemma serve_packet:
  assumes "length p < 2 ^ 31"
  shows "serve rt ahead (packet t p @ r) s =
    (case processMessage rt t p s of
       Ret (c, s') \<Rightarrow> if c then serve rt ahead (still_read ahead s s' r) s' else Ret s'
     | _ \<Rightarrow> Panic)"
  using unat_header [OF assms, of t r]
  by (subst serve.simps) (simp add: still_read_def split: outcome.split)

lemma serve_end: "serve rt ahead [] s = Ret s"
  by (subst serve.simps) (simp add: ReadMessageHeader_def read_full_def)

lemma serve_cases:
  assumes "serve rt ahead input s = Ret s'"
  obtains "s' = s"
    | t p r s1 where "input = packet t p @ r" and "length p < 2 ^ 31" and "processMessage rt t p s = Ret (True, s1)"
        and "serve rt ahead (still_read ahead s s1 r) s1 = Ret s'"
    | t p r where "input = packet t p @ r" and "length p < 2 ^ 31" and "processMessage rt t p s = Ret (False, s')"
proof (cases "ReadMessageHeader input")
  case (Ret x)
  obtain t n r where x: "x = ((t, n), r)" by (cases x) auto
  show thesis
  proof (cases "sint n < 0")
    case True
    with assms Ret x show thesis by (subst (asm) serve.simps) simp
  next
    case False
    show thesis
    proof (cases "read_full (nat (sint n)) r")
      case (Ret y)
      obtain p r' where y: "y = (p, r')" by (cases y)
      have i: "input = packet t p @ r'" "length p < 2 ^ 31"
        using header_packet [OF \<open>ReadMessageHeader input = Ret x\<close> [unfolded x]] False Ret y by simp_all
      note eq = assms [unfolded i(1) serve_packet [OF i(2)]]
      then show thesis
        using that(2) [OF i] that(3) [OF i] by (auto split: outcome.splits prod.splits if_splits)
    next
      case (Err e)
      with assms \<open>ReadMessageHeader input = Ret x\<close> x False show thesis
        by (subst (asm) serve.simps) (simp add: that(1))
    qed simp
  qed
next
  case (Err e)
  with assms show thesis by (subst (asm) serve.simps) (simp add: that(1))
qed (use assms in \<open>subst (asm) serve.simps, simp add: that(1)\<close>)

text \<open>The reference: the messages one after the other, until Terminate.\<close>

fun run_messages :: "go_rt \<Rightarrow> (byte \<times> bytes) list \<Rightarrow> Session \<Rightarrow> (unit, Session) outcome" where
  "run_messages rt [] s = Ret s"
| "run_messages rt ((t, p) # ms) s =
     (case processMessage rt t p s of
        Ret (c, s) \<Rightarrow> if c then run_messages rt ms s else Ret s
      | _ \<Rightarrow> Panic)"

text \<open>No message of the list makes the program close the connection.\<close>

fun stays_open :: "go_rt \<Rightarrow> (byte \<times> bytes) list \<Rightarrow> Session \<Rightarrow> bool" where
  "stays_open rt [] s \<longleftrightarrow> True"
| "stays_open rt ((t, p) # ms) s \<longleftrightarrow>
     (case processMessage rt t p s of
        Ret (c, s') \<Rightarrow> closed s' = closed s \<and> stays_open rt ms s'
      | _ \<Rightarrow> True)"

definition message_fits :: "byte \<times> bytes \<Rightarrow> bool" where
  "message_fits m \<longleftrightarrow> length (snd m) < 2 ^ 31"

lemma serve_run_messages:
  assumes "list_all message_fits ms" and "stays_open rt ms s \<or> length (frames ms) \<le> ahead"
  shows "serve rt ahead (frames ms) s = run_messages rt ms s"
  using assms
proof (induction ms arbitrary: s)
  case (Cons m ms)
  obtain t p where m: "m = (t, p)" by (cases m)
  have len: "length p < 2 ^ 31" using Cons.prems(1) by (simp add: m message_fits_def)
  show ?case
  proof (cases "processMessage rt t p s")
    case (Ret x)
    obtain c s' where x: "x = (c, s')" by (cases x)
    have "still_read ahead s s' (frames ms) = frames ms"
      using Cons.prems(2) Ret x by (auto simp: m still_read_def)
    moreover have "stays_open rt ms s' \<or> length (frames ms) \<le> ahead"
      using Cons.prems(2) Ret x by (auto simp: m)
    ultimately show ?thesis
      using Cons.IH [of s'] Cons.prems(1) Ret x by (simp add: m serve_packet [OF len])
  qed (simp_all add: m serve_packet [OF len])
qed (simp add: serve_end)

text \<open>
  What is left when the input breaks off inside a packet, or at its end, is never processed.  So
  whatever closes the connection on the way, the loop runs through a prefix of the messages.
\<close>

definition broken_off :: "bytes \<Rightarrow> bool" where
  "broken_off b \<longleftrightarrow> (\<exists>t p r. length p < 2 ^ 31 \<and> packet t p = b @ r \<and> r \<noteq> [])"

lemma broken_off_Nil: "broken_off []"
  unfolding broken_off_def by (intro exI [of _ NUL] exI [of _ "[]"] exI [of _ "packet NUL []"]) (simp add: packet_def)

lemma broken_off_take: "broken_off b \<Longrightarrow> broken_off (take n b)"
proof -
  assume "broken_off b"
  then obtain t p r where "length p < 2 ^ 31" "packet t p = b @ r" "r \<noteq> []" by (auto simp: broken_off_def)
  then show ?thesis
    unfolding broken_off_def by (intro exI [of _ t] exI [of _ p] exI [of _ "drop n b @ r"]) simp
qed

lemma short_header:
  assumes "length b < 5"
  shows "\<exists>e. ReadMessageHeader b = Err e"
  using assms by (cases "b = []") (auto simp: ReadMessageHeader_def read_full_def Let_def)

lemma serve_broken_off:
  assumes "broken_off b"
  shows "serve rt ahead b s = Ret s"
proof -
  from assms obtain t p r where b: "length p < 2 ^ 31" "packet t p = b @ r" "r \<noteq> []" by (auto simp: broken_off_def)
  show ?thesis
  proof (cases "length b < 5")
    case True
    from short_header [OF this] show ?thesis by (subst serve.simps) auto
  next
    case False
    let ?q = "drop 5 b"
    have "take 5 (packet t p) = t # put_u32 (packet_len p)" "drop 5 (packet t p) = p" by (simp_all add: packet_def)
    then have "take 5 b = t # put_u32 (packet_len p)" and q2: "p = ?q @ r" using b(2) False by simp_all
    then have q1: "b = t # put_u32 (packet_len p) @ ?q" by (metis append_Cons append_take_drop_id)
    have h: "ReadMessageHeader (packet t p) = Ret ((t, word_of_nat (length p)), p)"
      "sint (word_of_nat (length p) :: 32 word) = int (length p)" using unat_header [OF b(1), of t "[]"] by simp_all
    then have "\<not> uint (packet_len p) < 4" "packet_len p - 4 = word_of_nat (length p)"
      using ReadMessageHeader_cases [of t "packet_len p" p] by (auto simp: packet_def split: if_splits)
    then have "ReadMessageHeader b = Ret ((t, word_of_nat (length p)), ?q)"
      using ReadMessageHeader_cases [of t "packet_len p" ?q] q1 by simp
    moreover have "length ?q < length p" using b(3) arg_cong [OF q2, of length] by simp
    ultimately show ?thesis using h(2) by (subst serve.simps) (simp add: read_full_def)
  qed
qed

lemma take_frames:
  assumes "list_all message_fits ms"
  shows "\<exists>j b. j \<le> length ms \<and> broken_off b \<and> take n (frames ms) = frames (take j ms) @ b \<and>
    (j = length ms \<or> n < length (frames (take (Suc j) ms)))"
  using assms
proof (induction ms arbitrary: n)
  case Nil
  from broken_off_Nil show ?case by simp
next
  case (Cons m ms)
  obtain t p where m: "m = (t, p)" by (cases m)
  show ?case
  proof (cases "n < length (packet t p)")
    case True
    have "broken_off (take n (packet t p))"
      unfolding broken_off_def using Cons.prems True
      by (intro exI [of _ t] exI [of _ p] exI [of _ "drop n (packet t p)"]) (simp add: m message_fits_def)
    then show ?thesis using True by (intro exI [of _ 0] exI [of _ "take n (packet t p)"]) (simp add: m)
  next
    case False
    from Cons.IH [of "n - length (packet t p)"] Cons.prems obtain j b where
      "j \<le> length ms" "broken_off b" "take (n - length (packet t p)) (frames ms) = frames (take j ms) @ b"
      "j = length ms \<or> n - length (packet t p) < length (frames (take (Suc j) ms))" by auto
    with False show ?thesis by (intro exI [of _ "Suc j"] exI [of _ b]) (auto simp: m)
  qed
qed

lemma serve_within:
  assumes "list_all message_fits ms" and "broken_off b" and "length (frames ms @ b) \<le> ahead"
  shows "serve rt ahead (frames ms @ b) s = run_messages rt ms s"
  using assms(1,3)
proof (induction ms arbitrary: s)
  case Nil
  from serve_broken_off [OF assms(2)] show ?case by simp
next
  case (Cons m ms)
  obtain t p where m: "m = (t, p)" by (cases m)
  have len: "length p < 2 ^ 31" using Cons.prems(1) by (simp add: m message_fits_def)
  have "still_read ahead s s' (frames ms @ b) = frames ms @ b" for s' using Cons.prems(2) by (auto simp: still_read_def m)
  with Cons show ?case by (simp add: m serve_packet [OF len] split: outcome.split)
qed

text \<open>
  Which prefix: all of the messages, or, after the connection was closed at the end of a first part, those
  that lie whole in the next \<open>ahead\<close> bytes.
\<close>

definition read_of :: "go_rt \<Rightarrow> nat \<Rightarrow> (byte \<times> bytes) list \<Rightarrow> Session \<Rightarrow> nat \<Rightarrow> nat \<Rightarrow> bool" where
  "read_of rt ahead ms s j k \<longleftrightarrow> (\<exists>s'. run_messages rt (take j ms) s = Ret s' \<and> closed s') \<and>
     length (frames (take (k - j) (drop j ms))) \<le> ahead \<and> ahead < length (frames (take (Suc (k - j)) (drop j ms)))"

lemma serve_prefix:
  assumes "list_all message_fits ms"
  shows "\<exists>k \<le> length ms. serve rt ahead (frames ms) s = run_messages rt (take k ms) s \<and>
    (k = length ms \<or> (\<exists>j \<le> k. read_of rt ahead ms s j k))"
  using assms
proof (induction ms arbitrary: s)
  case Nil
  show ?case by (simp add: serve_end)
next
  case (Cons m ms)
  obtain t p where m: "m = (t, p)" by (cases m)
  have fits: "list_all message_fits ms" using Cons.prems by simp
  have len: "length p < 2 ^ 31" using Cons.prems by (simp add: m message_fits_def)
  show ?case
  proof (cases "\<exists>s'. processMessage rt t p s = Ret (True, s')")
    case True
    then obtain s' where s': "processMessage rt t p s = Ret (True, s')" ..
    show ?thesis
    proof (cases "closed s' \<and> \<not> closed s")
      case True
      obtain j b where j: "j \<le> length ms" "broken_off b" "take ahead (frames ms) = frames (take j ms) @ b"
        "j = length ms \<or> ahead < length (frames (take (Suc j) ms))" using take_frames [OF fits] by blast
      have l: "length (frames (take j ms) @ b) \<le> ahead" unfolding j(3) [symmetric] by simp
      have "list_all message_fits (take j ms)" using fits by (auto simp: list_all_iff dest: in_set_takeD)
      from serve_within [OF this j(2) l] have "serve rt ahead (frames (m # ms)) s = run_messages rt (take (Suc j) (m # ms)) s"
        using True by (simp add: m serve_packet [OF len] s' still_read_def j(3))
      moreover have "Suc j = length (m # ms) \<or> read_of rt ahead (m # ms) s 1 (Suc j)"
        using j(4) l True by (auto simp: read_of_def m s')
      ultimately show ?thesis using j(1) by (intro exI [of _ "Suc j"]) auto
    next
      case False
      obtain k where k: "k \<le> length ms" "serve rt ahead (frames ms) s' = run_messages rt (take k ms) s'"
        "k = length ms \<or> (\<exists>j \<le> k. read_of rt ahead ms s' j k)" using Cons.IH [OF fits] by blast
      have "read_of rt ahead (m # ms) s (Suc j) (Suc k)" if "read_of rt ahead ms s' j k" for j
        using that by (simp add: read_of_def m s')
      with k False show ?thesis
        by (intro exI [of _ "Suc k"]) (auto simp: m serve_packet [OF len] s' still_read_def)
    qed
  next
    case False
    then show ?thesis
      by (intro exI [of _ "Suc (length ms)"]) (auto simp: m serve_packet [OF len] split: outcome.splits)
  qed
qed

section \<open>Connections that stay open\<close>

text \<open>Only a rule of the registry can have the flag that drops the connection.\<close>

lemma statements_never_drop:
  "\<not> r_drop (fst (exec_create rt q m s))" "\<not> r_drop (fst (exec_drop rt q m s))"
  "\<not> r_drop (fst (exec_truncate rt q m s))" "\<not> r_drop (fst (exec_select rt q ps m s))"
  "\<not> r_drop (fst (exec_update rt q ps m s))" "\<not> r_drop (fst (exec_delete rt q ps m s))"
  by (simp_all add: exec_create_def exec_drop_def exec_truncate_def exec_select_def exec_update_def
      exec_delete_def missing_table_def Let_def empty_rule_def split: option.split)

lemma insert_never_drops: "exec_insert rt q ps m s = Ret (r, s') \<Longrightarrow> \<not> r_drop r"
  by (auto simp: exec_insert_def and_then_pair_Ret Let_def empty_rule_def split: if_splits)

lemma MatchAndExecute_never_drops: "MatchAndExecute rt q ps s = Ret (Some r, s') \<Longrightarrow> \<not> r_drop r"
  by (auto simp: MatchAndExecute_def Let_def outcome_simps case_prod_unfold statements_never_drop
      dest: insert_never_drops split: option.splits)

lemma catalog_never_drops: "MatchCatalogQuery rt q = Some r \<Longrightarrow> \<not> r_drop r"
  by (auto simp: MatchCatalogQuery_def schema_catalog_rule_def Let_def catalog_rule_def buildPGTypeCatalogRule_def empty_rule_def
      split: if_splits)

lemma system_never_drops: "matchDefaultSystemQuery rt q = Some r \<Longrightarrow> \<not> r_drop r"
  by (auto simp: matchDefaultSystemQuery_def Let_def plain_answer_def empty_rule_def split: if_splits)

lemma built_in_never_drops: "built_in rt q ps st = Ret (r, m, st') \<Longrightarrow> \<not> r_drop r"
  by (auto simp: built_in_def Let_def map_ret_Ret_iff fallback_rule_def plain_answer_def empty_rule_def
      dest: MatchAndExecute_never_drops catalog_never_drops system_never_drops split: option.splits)

definition no_drops :: "go_rt \<Rightarrow> Session \<Rightarrow> bool" where
  "no_drops rt s \<longleftrightarrow> session_ok rt s \<and> (\<forall>r \<in> set (e_rules (s_engine s)). \<not> r_drop r)"

lemma Match_no_drop:
  assumes "cache_ok rt (e_cache e)" and "\<forall>r \<in> set (e_rules e). \<not> r_drop r" and "Match rt now q ps e = Ret (r, e')"
  shows "\<not> r_drop r \<and> (\<forall>r \<in> set (e_rules e'). \<not> r_drop r)"
proof -
  have a: "answers rt now q ps e r e'" using Match_cases [OF assms(1,3)] by simp
  show ?thesis
  proof (cases "first_rule rt (e_rules e) q ps")
    case None
    with a assms(2) show ?thesis by (auto simp: answers_def dest: built_in_never_drops)
  next
    case (Some i)
    then have "i < length (e_rules e)" by (simp add: first_rule_Some)
    with a assms(2) Some have "\<not> r_drop r" by (simp add: answers_def IncrementHits_def)
    moreover have "set (e_rules e') \<subseteq> insert r (set (e_rules e))"
      using a Some by (simp add: answers_def set_update_subset_insert)
    ultimately show ?thesis using assms(2) by blast
  qed
qed

text \<open>A handler that, as long as no rule drops connections, leaves the connection open.\<close>

locale open_handler =
  fixes rt :: go_rt and handler :: "Session \<Rightarrow> (unit, Session) outcome"
  assumes opens: "no_drops rt s \<Longrightarrow> handler s = Ret s' \<Longrightarrow> no_drops rt s' \<and> closed s' = closed s"
begin

lemma continues_open:
  assumes "no_drops rt s" and "continue (handler s) = Ret (c, s')"
  shows "no_drops rt s' \<and> closed s' = closed s"
  using assms opens by (auto simp: continue_def outcome_simps)

end

lemma open_simps [simp]:
  "closed (send c s) = closed s" "closed (ready s) = closed s" "closed (send_error a m s) = closed s"
  "closed (count_query s) = closed s" "closed (emit (Sleep n) s) = closed s"
  "closed (s\<lparr>s_stmts := st\<rparr>) = closed s" "closed (s\<lparr>s_portals := po\<rparr>) = closed s"
  "closed (s\<lparr>s_world := w\<rparr>) = closed s" "closed (s\<lparr>s_tx := t\<rparr>) = closed s"
  by (auto simp: closed_def send_def ready_def send_error_def count_query_def emit_def)

lemma no_drops_simps [simp]:
  "no_drops rt (send c s) = no_drops rt s" "no_drops rt (ready s) = no_drops rt s"
  "no_drops rt (send_error a m s) = no_drops rt s" "no_drops rt (count_query s) = no_drops rt s"
  "no_drops rt (s\<lparr>s_stmts := st\<rparr>) = no_drops rt s" "no_drops rt (s\<lparr>s_portals := po\<rparr>) = no_drops rt s"
  by (simp_all add: no_drops_def) (simp_all add: send_def ready_def send_error_def count_query_def)

lemma engine_match_open:
  assumes "no_drops rt s" and "engine_match rt q ps s = Ret (r, s')"
  shows "no_drops rt s' \<and> closed s' = closed s \<and> \<not> r_drop r"
proof -
  from assms(2) obtain e now where e: "Match rt now q ps (s_engine s) = Ret (r, e)"
    "s' = s\<lparr>s_engine := e, s_world := tick (s_world s)\<rparr>"
    by (auto simp: engine_match_def Let_def and_then_pair_Ret)
  have "cache_ok rt (e_cache (s_engine s))" "\<forall>r \<in> set (e_rules (s_engine s)). \<not> r_drop r" "session_ok rt s"
    using assms(1) by (simp_all add: no_drops_def session_ok_def engine_ok_def)
  with Match_no_drop [OF _ _ e(1)] engine_match_ok [OF _ assms(2)]
  have "\<not> r_drop r \<and> (\<forall>r \<in> set (e_rules e). \<not> r_drop r)" "session_ok rt s' \<and> s_out s' = s_out s" by blast+
  then show ?thesis using e(2) by (auto simp: no_drops_def closed_def)
qed

lemma send_rows_closed: "send_rows rt rule params fs rows s = Ret s' \<Longrightarrow> closed s' = closed s"
proof (induction rows arbitrary: s)
  case (Cons row rows)
  from Cons.prems obtain cs w where "send_rows rt rule params fs rows
      (send (WriteDataRow cs) (s\<lparr>s_world := w\<rparr>)) = Ret s'" by (auto simp: and_then_pair_Ret)
  from Cons.IH [OF this] show ?case by simp
qed simp

lemma executeRuleResponse_closed:
  "executeRuleResponse rt rule params fs s = Ret s' \<Longrightarrow> \<not> r_drop rule \<Longrightarrow> closed s' = closed s"
  by (auto simp: executeRuleResponse_def success_response_def delay_def Let_def outcome_simps
      dest: send_rows_closed split: if_splits option.splits)

lemma same_state_engine: "same_state rt s s' \<Longrightarrow> s_engine s' = s_engine s"
  by (cases s; cases s') (simp add: same_state_def)

lemma answer_query_open:
  assumes "no_drops rt s" and "answer_query rt q ps fs s = Ret s'"
  shows "no_drops rt s' \<and> closed s' = closed s"
proof -
  from assms(2) obtain rule s1 where 1: "engine_match rt q ps s = Ret (rule, s1)"
    "executeRuleResponse rt rule ps fs s1 = Ret s'"
    by (auto simp: answer_query_def and_then_pair_Ret)
  note o = engine_match_open [OF assms(1) 1(1)]
  then have "same_state rt s1 s'"
    using executeRuleResponse_replied [OF 1(2)] by (simp add: no_drops_def session_ok_def)
  from same_state_engine [OF this] same_state_ok [OF this] o executeRuleResponse_closed [OF 1(2)]
  show ?thesis by (auto simp: no_drops_def)
qed

interpretation open_query: open_handler rt "handleSimpleQuery rt payload" for rt payload
proof
  fix s s'
  assume o: "no_drops rt s" and h: "handleSimpleQuery rt payload s = Ret s'"
  let ?q = "TrimSpace (case IndexByte payload NUL of None \<Rightarrow> payload | Some i \<Rightarrow> take i payload)"
  let ?s1 = "(count_query s)\<lparr>s_tx := track_tx rt ?q (s_tx s)\<rparr>"
  show "no_drops rt s' \<and> closed s' = closed s"
  proof (cases "?q = [] \<or> ?q = '';''")
    case True
    with h o show ?thesis by (auto simp: handleSimpleQuery_cases)
  next
    case False
    then obtain s2 where 2: "answer_query rt ?q [] [] ?s1 = Ret s2" "s' = ready s2"
      using h by (auto simp: handleSimpleQuery_cases Let_def outcome_simps)
    have "no_drops rt ?s1"
      using o track_tx_ok by (simp add: no_drops_def session_ok_def count_query_def)
    from answer_query_open [OF this 2(1)] 2(2) show ?thesis by simp
  qed
qed

interpretation open_execute: open_handler rt "handleExecute rt payload" for rt payload
proof
  fix s s'
  assume o: "no_drops rt s" and h: "handleExecute rt payload s = Ret s'"
  from h show "no_drops rt s' \<and> closed s' = closed s"
  proof (cases rule: execute_query)
    case (1 q ps fs)
    with answer_query_open [OF _ 1] o show ?thesis by simp
  qed (use o in simp)
qed

lemma describe_query_open:
  "no_drops rt s \<Longrightarrow> describe_query rt q fs s = Ret s' \<Longrightarrow> no_drops rt s' \<and> closed s' = closed s"
  by (auto simp: describe_query_def and_then_pair_Ret dest: engine_match_open split: if_splits)

interpretation open_describe: open_handler rt "handleDescribe rt payload" for rt payload
proof
  fix s s'
  assume o: "no_drops rt s" and h: "handleDescribe rt payload s = Ret s'"
  from h show "no_drops rt s' \<and> closed s' = closed s"
  proof (cases rule: describe_query_steps)
    case (2 oids q)
    with describe_query_open [OF _ 2] o show ?thesis by simp
  next
    case (3 q fs)
    with describe_query_open [OF o 3] show ?thesis by simp
  qed (use o in simp)
qed

interpretation open_parse: open_handler rt "handleParse payload" for rt payload
  by unfold_locales (auto simp: handleParse_def split: outcome.splits)

interpretation open_bind: open_handler rt "handleBind rt payload" for rt payload
  by unfold_locales (auto simp: handleBind_def Let_def split: outcome.splits if_splits)

interpretation open_close: open_handler rt "handleClose payload" for rt payload
  by unfold_locales (auto simp: handleClose_def split: outcome.splits if_splits)

lemma processMessage_open:
  assumes "no_drops rt s" and "processMessage rt t payload s = Ret (c, s')"
  shows "no_drops rt s' \<and> closed s' = closed s"
  using assms(2) open_query.continues_open [OF assms(1)] open_execute.continues_open [OF assms(1)]
    open_describe.continues_open [OF assms(1)] open_parse.continues_open [OF assms(1)]
    open_bind.continues_open [OF assms(1)] open_close.continues_open [OF assms(1)] assms(1)
  by (auto simp: processMessage_def split: if_splits)

lemma no_drops_stays_open: "no_drops rt s \<Longrightarrow> stays_open rt ms s"
proof (induction ms arbitrary: s)
  case (Cons m ms)
  obtain t p where m: "m = (t, p)" by (cases m)
  show ?case
  proof (cases "processMessage rt t p s")
    case (Ret x)
    obtain c s' where x: "x = (c, s')" by (cases x)
    with processMessage_open [OF Cons.prems] Ret Cons.IH show ?thesis by (simp add: m)
  qed (simp_all add: m)
qed simp

text \<open>
  C3. Reading the loop's input is the inverse of sending messages: for any messages shorter than
  2 GiB, serving their concatenated packets is running through the messages one by one, until
  Terminate; this holds unless a rule that drops connections cuts off what was not yet buffered.
\<close>

theorem serve_messages:
  assumes "session_ok rt s" and "list_all message_fits ms"
    and "(\<forall>r \<in> set (e_rules (s_engine s)). \<not> r_drop r) \<or> length (frames ms) \<le> ahead"
  shows "serve rt ahead (frames ms) s = run_messages rt ms s"
  using serve_run_messages [OF assms(2)] no_drops_stays_open [of rt s ms] assms(1,3)
  by (auto simp: no_drops_def)

lemma serve_messages_witness:
  "serve ascii_rt 0 (frames [(MsgTypeQuery, cstr ''BEGIN''), (MsgTypeSync, []), (MsgTypeTerminate, [])]) quiet_session =
   run_messages ascii_rt [(MsgTypeQuery, cstr ''BEGIN''), (MsgTypeSync, []), (MsgTypeTerminate, [])] quiet_session"
  by (rule serve_messages [OF session_ok_quiet])
    (simp_all add: message_fits_def cstr_def quiet_session_def NewConnHandler_def NewEngine_def)

section \<open>What a client receives\<close>

text \<open>
  Each message of a prefix of the input gets its answer, in the order of the messages; what
  follows that prefix is not answered.
\<close>

definition answered :: "bytes \<Rightarrow> (byte \<times> bytes) list \<Rightarrow> (byte \<times> bytes) list list \<Rightarrow> bool" where
  "answered input ms pss \<longleftrightarrow> (\<exists>rest. input = frames ms @ rest) \<and>
     list_all2 (\<lambda>m ps. map fst ps \<in> replies_to (fst m)) ms pss"

lemma answered_Nil: "answered input [] []"
  by (simp add: answered_def)

lemma still_read_prefix: "\<exists>rest. r = still_read ahead s s' r @ rest"
  by (auto simp: still_read_def intro: exI [of _ "drop ahead r"] exI [of _ "[]"])

lemma answered_Cons:
  assumes "answered (still_read ahead s s' r) ms pss" and "map fst ps \<in> replies_to t"
  shows "answered (packet t p @ r) ((t, p) # ms) (ps # pss)"
proof -
  from still_read_prefix [of r ahead s s'] obtain r' where r: "r = still_read ahead s s' r @ r'" ..
  from assms(1) obtain rest where "still_read ahead s s' r = frames ms @ rest" by (auto simp: answered_def)
  with r have "packet t p @ r = frames ((t, p) # ms) @ rest @ r'" by simp
  with assms show ?thesis by (auto simp: answered_def)
qed

lemma serve_replied:
  "session_ok rt s \<Longrightarrow> serve rt ahead input s = Ret s' \<Longrightarrow>
   (session_ok rt s' \<and> s_active s' = s_active s) \<and> (\<exists>ms pss. answered input ms pss \<and> replied s s' (concat pss))"
proof (induction "length input" arbitrary: input s rule: less_induct)
  case less
  from less.prems(2) show ?case
  proof (cases rule: serve_cases)
    case 1
    then show ?thesis using less.prems(1) by (intro conjI exI [of _ "[]"]) (simp_all add: answered_Nil)
  next
    case (2 t p r s1)
    have l: "length (still_read ahead s s1 r) < length input" by (simp add: 2(1) packet_def still_read_def min_less_iff_disj)
    from processMessage_contract [OF less.prems(1) 2(3)] obtain ps where
      1: "session_ok rt s1" "s_active s1 = s_active s" "replied s s1 ps" "map fst ps \<in> replies_to t"
      by (elim conjE exE)
    from less.hyps [OF l 1(1) 2(4)] obtain ms pss where 3: "session_ok rt s'" "s_active s' = s_active s1"
      "answered (still_read ahead s s1 r) ms pss" "replied s1 s' (concat pss)"
      by (elim conjE exE)
    have "answered input ((t, p) # ms) (ps # pss)" unfolding 2(1) by (rule answered_Cons [OF 3(3) 1(4)])
    moreover have "replied s s' (concat (ps # pss))" using replied_trans [OF 1(3) 3(4)] by simp
    ultimately have "\<exists>ms pss. answered input ms pss \<and> replied s s' (concat pss)" by (intro exI conjI)
    with 3(1,2) 1(2) show ?thesis by simp
  next
    case (3 t p r)
    from processMessage_contract [OF less.prems(1) 3(3)] obtain ps where
      1: "session_ok rt s'" "s_active s' = s_active s" "replied s s' ps" "map fst ps \<in> replies_to t"
      by (elim conjE exE)
    have "answered input [(t, p)] [ps]" using 1(4) by (simp add: answered_def 3(1))
    moreover have "replied s s' (concat [ps])" using 1(3) by simp
    ultimately have "\<exists>ms pss. answered input ms pss \<and> replied s s' (concat pss)" by (intro exI conjI)
    with 1(1,2) show ?thesis by simp
  qed
qed

text \<open>The handshake: one byte for an SSLRequest, then the greeting.\<close>

definition greeting_packets :: "(bytes \<times> bytes) list \<Rightarrow> byte \<Rightarrow> (byte \<times> bytes) list" where
  "greeting_packets order tx =
     (MsgTypeAuth, put_u32 0) # map (\<lambda>(k, v). (MsgTypeParameterStatus, cstr k @ cstr v)) order @
     [(MsgTypeBackendKeyData, put_u32 1000 @ put_u32 4242), (MsgTypeReadyForQuery, [tx])]"

lemma status_frames:
  "concat (WriteStandardParameterStatuses order) =
   frames (map (\<lambda>(k, v). (MsgTypeParameterStatus, cstr k @ cstr v)) order)"
proof (induction order)
  case (Cons kv order)
  have "concat (WriteStandardParameterStatuses (kv # order)) =
      concat ((\<lambda>(k, v). WriteParameterStatus k v) kv) @ concat (WriteStandardParameterStatuses order)"
    by (simp add: WriteStandardParameterStatuses_def)
  with Cons parameter_status.framed [of kv] show ?case by (cases kv) simp
qed (simp add: WriteStandardParameterStatuses_def)

lemma greeting_replied: "replied s (greeting order s) (greeting_packets order (s_tx s))"
proof -
  have "greeting order s = send (WriteAuthOK @ WriteStandardParameterStatuses order @
      WriteBackendKeyData 1000 4242 @ WriteReadyForQuery (s_tx s)) s"
    by (simp add: greeting_def ready_def send_def)
  then show ?thesis
    using auth_ok.framed backend_key_data.framed [of "(1000, 4242)"] ready_for_query.framed [of "s_tx s"]
    by (simp add: replied_send greeting_packets_def status_frames)
qed

definition ssl_answer :: "(bytes \<Rightarrow> bytes option) option \<Rightarrow> bytes \<Rightarrow> bytes" where
  "ssl_answer tls input =
     (case ReadStartupOrSSL input of
        Ret ((True, _), _) \<Rightarrow> (if tls = None then ''N'' else ''S'')
      | _ \<Rightarrow> [])"

lemma handleHandshake_fst:
  "fst (handleHandshake tls order input s) =
     (case read_startup input of
        Ret (False, r) \<Rightarrow> Ret r
      | Ret (True, r) \<Rightarrow>
          (case tls of
             Some accept \<Rightarrow> (case accept r of None \<Rightarrow> Err TLSFailed | Some r \<Rightarrow> read_second_startup r)
           | None \<Rightarrow> read_second_startup r)
      | Err e \<Rightarrow> Err e
      | Panic \<Rightarrow> Panic)"
  by (auto simp: handleHandshake_def Let_def split: outcome.splits bool.splits option.splits prod.splits)

lemma handleHandshake_replied:
  assumes "handleHandshake tls order input s = (res, s')"
  shows "session_ok rt s' = session_ok rt s \<and> s_active s' = s_active s \<and> s_tx s' = s_tx s \<and>
    (\<exists>evs. s_out s' = s_out s @ evs \<and>
      wire evs = ssl_answer tls input @
        (case res of Ret _ \<Rightarrow> frames (greeting_packets order (s_tx s)) | _ \<Rightarrow> []))"
proof -
  let ?pre = "if ssl_answer tls input = [] then s else send [ssl_answer tls input] s"
  have s': "s' = (case res of Ret _ \<Rightarrow> greeting order ?pre | _ \<Rightarrow> ?pre)"
    using assms by (auto simp: handleHandshake_def Let_def read_startup_def ssl_answer_def WriteSSLRefusal_def
        split: outcome.splits bool.splits option.splits prod.splits)
  have pre: "session_ok rt ?pre = session_ok rt s" "s_active ?pre = s_active s" "s_tx ?pre = s_tx s"
    "s_out ?pre = s_out s @ (if ssl_answer tls input = [] then [] else [Write (ssl_answer tls input)])"
    by (simp_all add: send_def session_ok_def)
  show ?thesis
  proof (cases res)
    case (Ret r)
    from greeting_replied [of ?pre order] obtain evs where evs: "s_out (greeting order ?pre) = s_out ?pre @ evs"
      "wire evs = frames (greeting_packets order (s_tx ?pre))" unfolding replied_def by (elim exE conjE)
    have "session_ok rt (greeting order ?pre) = session_ok rt ?pre" "s_active (greeting order ?pre) = s_active ?pre"
      "s_tx (greeting order ?pre) = s_tx ?pre" by (simp_all add: greeting_def)
    with evs pre s' Ret show ?thesis by simp
  qed (use pre s' in \<open>simp_all del: if_split add: if_distrib [of wire] cong: if_cong\<close>)
qed

text \<open>
  C1. Whatever a client sends, a connection that ends passes to \<open>Write\<close> exactly: the byte that answers an
  SSLRequest, the greeting if the handshake succeeds, and then, message by message in their order,
  a complete answer of a kind allowed for each message of a prefix of what followed; then it
  closes.  The counter of active connections is back where it was and the shared state stays
  well-formed.
\<close>

theorem Handle_stream:
  assumes "session_ok rt s" and "Handle rt tls order ahead input s = Ret s'"
  shows "session_ok rt s' \<and> s_active s' = s_active s \<and>
    (\<exists>evs. s_out s' = s_out s @ evs @ [CloseConn] \<and>
      (case fst (handleHandshake tls order input s) of
         Ret r \<Rightarrow> \<exists>ms pss. answered r ms pss \<and>
           wire evs = ssl_answer tls input @ frames (greeting_packets order (s_tx s)) @ frames (concat pss)
       | _ \<Rightarrow> wire evs = ssl_answer tls input))"
proof -
  let ?s0 = "s\<lparr>s_active := map_option (\<lambda>n. n + 1) (s_active s)\<rparr>"
  obtain res s1 where h: "handleHandshake tls order input ?s0 = (res, s1)" by (cases "handleHandshake tls order input ?s0")
  have same: "fst (handleHandshake tls order input s) = res"
    using arg_cong [OF h, of fst] unfolding handleHandshake_fst by simp
  have ok: "session_ok rt ?s0" using assms(1) by (simp add: session_ok_def)
  have undo: "map_option (\<lambda>n. n - 1) (map_option (\<lambda>n. n + 1) a) = a" for a :: "int option" by (cases a) simp_all
  have tx: "s_tx ?s0 = s_tx s" "s_out ?s0 = s_out s" by simp_all
  note k = handleHandshake_replied [OF h, where rt = rt, unfolded tx]
  from k ok obtain evs where 1: "session_ok rt s1" "s_active s1 = s_active ?s0"
    "s_out s1 = s_out s @ evs" "wire evs = ssl_answer tls input @
        (case res of Ret _ \<Rightarrow> frames (greeting_packets order (s_tx s)) | _ \<Rightarrow> [])" by (elim conjE exE) (rule that, simp_all)
  let ?leave = "\<lambda>s. (emit CloseConn s)\<lparr>s_active := map_option (\<lambda>n. n - 1) (s_active s)\<rparr>"
  show ?thesis
  proof (cases res)
    case (Ret r)
    with assms(2) h obtain s2 where 2: "serve rt ahead r s1 = Ret s2" "s' = ?leave s2"
      by (auto simp: Handle_def Let_def outcome_simps emit_def)
    from serve_replied [OF 1(1) 2(1)] obtain ms pss where 3: "session_ok rt s2" "s_active s2 = s_active s1"
      "answered r ms pss" "replied s1 s2 (concat pss)" by (elim conjE exE)
    from 3(4) obtain evs' where "s_out s2 = s_out s1 @ evs'" "wire evs' = frames (concat pss)"
      unfolding replied_def by (elim exE conjE)
    with 1 2(2) 3 Ret same undo show ?thesis
      by (intro conjI exI [of _ "evs @ evs'"]) (auto simp: emit_def session_ok_def)
  next
    case (Err e)
    with assms(2) h have "s' = ?leave s1" by (simp add: Handle_def Let_def emit_def)
    with 1 Err same undo show ?thesis by (intro conjI exI [of _ evs]) (auto simp: emit_def session_ok_def)
  qed (use assms(2) h in \<open>simp add: Handle_def Let_def\<close>)
qed

lemma Handle_stream_witness:
  "\<exists>s'. Handle ascii_rt None [] 0 (put_u32 8 @ put_u32 SSLRequestCode @ encode_startup [] @
       frames [(MsgTypeSync, []), (MsgTypeTerminate, [])]) quiet_session = Ret s' \<and>
     session_ok ascii_rt s' \<and> CloseConn \<in> set (s_out s')"
proof -
  have "returned (Handle ascii_rt None [] 0 (put_u32 8 @ put_u32 SSLRequestCode @ encode_startup [] @
       frames [(MsgTypeSync, []), (MsgTypeTerminate, [])]) quiet_session)" by code_simp
  then obtain s' where s': "Handle ascii_rt None [] 0 (put_u32 8 @ put_u32 SSLRequestCode @ encode_startup [] @
       frames [(MsgTypeSync, []), (MsgTypeTerminate, [])]) quiet_session = Ret s'" by (rule returnedE)
  from Handle_stream [OF session_ok_quiet s'] show ?thesis
    by (intro exI [of _ s'] conjI s') auto
qed

end
