(* ===== verification/Conn_Protocol.thy ===== *)
theory Conn_Protocol
  imports Conn_Run
begin

text \<open>
  What a conversation means: the transaction status a client is told, the extended protocol against
  the simple one, errors that start after a number of calls, dropped connections, and the inputs
  that end the whole process.
\<close>

section \<open>Transaction status\<close>

definition query_text :: "bytes \<Rightarrow> bytes" where
  "query_text payload = TrimSpace (case IndexByte payload NUL of None \<Rightarrow> payload | Some i \<Rightarrow> take i payload)"

definition empty_text :: "bytes \<Rightarrow> bool" where
  "empty_text q \<longleftrightarrow> q = [] \<or> q = '';''"

lemma handleSimpleQuery_text:
  "handleSimpleQuery rt payload s =
     (let q = query_text payload in
      if empty_text q then Ret (ready (send WriteEmptyQueryResponse (count_query s)))
      else and_then (answer_query rt q [] [] ((count_query s)\<lparr>s_tx := track_tx rt q (s_tx s)\<rparr>))
             (\<lambda>s. Ret (ready s)))"
  by (simp only: handleSimpleQuery_cases query_text_def empty_text_def)

text \<open>The status after a list of messages: only simple queries count, up to Terminate.\<close>

fun tx_after :: "go_rt \<Rightarrow> (byte \<times> bytes) list \<Rightarrow> byte \<Rightarrow> byte" where
  "tx_after rt [] tx = tx"
| "tx_after rt ((t, p) # ms) tx =
     (if t = MsgTypeTerminate then tx
      else if t = MsgTypeQuery \<and> \<not> empty_text (query_text p)
      then tx_after rt ms (track_tx rt (query_text p) tx)
      else tx_after rt ms tx)"

lemma answer_query_tx: "session_ok rt s \<Longrightarrow> answer_query rt q ps fs s = Ret s' \<Longrightarrow> s_tx s' = s_tx s"
  by (erule (1) answer_query_replied)

lemma with_tx_ok: "session_ok rt s \<Longrightarrow> session_ok rt ((count_query s)\<lparr>s_tx := track_tx rt q (s_tx s)\<rparr>)"
  using track_tx_ok by (simp add: session_ok_def count_query_def)

lemma handleSimpleQuery_tx:
  assumes "session_ok rt s" and "handleSimpleQuery rt p s = Ret s'"
  shows "s_tx s' = tx_after rt [(MsgTypeQuery, p)] (s_tx s)"
proof (cases "empty_text (query_text p)")
  case True
  with assms(2) show ?thesis by (auto simp: handleSimpleQuery_text Let_def)
next
  case False
  with assms(2) obtain s2 where "answer_query rt (query_text p) [] []
      ((count_query s)\<lparr>s_tx := track_tx rt (query_text p) (s_tx s)\<rparr>) = Ret s2" "s' = ready s2"
    by (auto simp: handleSimpleQuery_text Let_def outcome_simps)
  with answer_query_tx [OF with_tx_ok [OF assms(1)] this(1)] False show ?thesis
    by (simp add: not_terminate)
qed

text \<open>Every other handler leaves the status alone.\<close>

lemma handleExecute_tx:
  assumes "session_ok rt s" and "handleExecute rt p s = Ret s'"
  shows "s_tx s' = s_tx s"
  using assms(2)
proof (cases rule: execute_query)
  case (1 q ps fs)
  with answer_query_tx [OF _ 1] assms(1) show ?thesis by simp
qed simp

lemma describe_query_tx: "session_ok rt s \<Longrightarrow> describe_query rt q fs s = Ret s' \<Longrightarrow> s_tx s' = s_tx s"
  by (auto simp: describe_query_def and_then_pair_Ret dest: engine_match_ok split: if_splits)

lemma handleDescribe_tx:
  assumes "session_ok rt s" and "handleDescribe rt p s = Ret s'"
  shows "s_tx s' = s_tx s"
  using assms(2)
proof (cases rule: describe_query_steps)
  case (2 oids q)
  with describe_query_tx [OF _ 2] assms(1) show ?thesis by simp
next
  case (3 q fs)
  with describe_query_tx [OF assms(1) 3] show ?thesis by simp
qed simp

lemma quiet_handlers_tx:
  "handleParse p s = Ret s' \<Longrightarrow> s_tx s' = s_tx s" "handleBind rt p s = Ret s' \<Longrightarrow> s_tx s' = s_tx s"
  "handleClose p s = Ret s' \<Longrightarrow> s_tx s' = s_tx s"
  by (auto simp: handleParse_def handleBind_def handleClose_def Let_def split: outcome.splits if_splits)

lemma processMessage_tx:
  assumes "session_ok rt s" and "processMessage rt t p s = Ret (c, s')"
  shows "s_tx s' = tx_after rt [(t, p)] (s_tx s)"
proof (cases "t = MsgTypeQuery")
  case True
  with assms(2) have "handleSimpleQuery rt p s = Ret s'"
    by (simp add: processMessage_eqs continue_def outcome_simps)
  from handleSimpleQuery_tx [OF assms(1) this] True show ?thesis by simp
next
  case False
  with assms(2) have "s_tx s' = s_tx s"
    using quiet_handlers_tx handleExecute_tx [OF assms(1)] handleDescribe_tx [OF assms(1)]
    by (auto simp: processMessage_def continue_def outcome_simps split: if_splits)
  with False show ?thesis by simp
qed

lemma tx_after_Cons: "t \<noteq> MsgTypeTerminate \<Longrightarrow> tx_after rt ((t, p) # ms) tx = tx_after rt ms (tx_after rt [(t, p)] tx)"
  by simp

text \<open>
  C13. The transaction status a client is told follows the simple queries alone: it is
  what \<open>BEGIN\<close>, \<open>START TRANSACTION\<close>, \<open>COMMIT\<close> and \<open>ROLLBACK\<close> sent as simple queries make of it,
  is never the failed status, whatever errors are answered, and ignores the same statements sent
  through the extended protocol.
\<close>

theorem transaction_status:
  assumes "session_ok rt s" and "run_messages rt ms s = Ret s'"
  shows "s_tx s' = tx_after rt ms (s_tx s) \<and> s_tx s' \<in> {TxStatusIdle, TxStatusInBlock}"
  using assms
proof (induction ms arbitrary: s)
  case (Cons m ms)
  obtain t p where m: "m = (t, p)" by (cases m)
  from Cons.prems(2) obtain c s1 where 1: "processMessage rt t p s = Ret (c, s1)"
    "if c then run_messages rt ms s1 = Ret s' else s' = s1"
    by (auto simp: m split: outcome.splits if_splits)
  from processMessage_contract [OF Cons.prems(1) 1(1)] have
    ok: "session_ok rt s1" "c = (t \<noteq> MsgTypeTerminate)" by simp_all
  note tx = processMessage_tx [OF Cons.prems(1) 1(1)]
  show ?case
  proof (cases c)
    case True
    with ok(2) have "tx_after rt ((t, p) # ms) (s_tx s) = tx_after rt ms (s_tx s1)"
      unfolding tx by (intro tx_after_Cons) simp
    moreover have "run_messages rt ms s1 = Ret s'" using 1(2) True by simp
    note Cons.IH [OF ok(1) this]
    ultimately show ?thesis unfolding m by metis
  next
    case False
    with 1(2) ok tx show ?thesis by (simp add: m session_ok_def)
  qed
qed (simp add: session_ok_def)

lemma transaction_status_witness:
  "\<exists>s'. run_messages ascii_rt [(MsgTypeQuery, cstr ''begin;''), (MsgTypeSync, [])] quiet_session = Ret s' \<and>
     s_tx s' = TxStatusInBlock"
proof -
  let ?ms = "[(MsgTypeQuery, cstr ''begin;''), (MsgTypeSync, [])]"
  have "returned (run_messages ascii_rt ?ms quiet_session)" by code_simp
  then obtain s' where s': "run_messages ascii_rt ?ms quiet_session = Ret s'" by (rule returnedE)
  have "tx_after ascii_rt ?ms (s_tx quiet_session) = TxStatusInBlock" by code_simp
  with transaction_status [OF session_ok_quiet s'] s' show ?thesis by auto
qed

lemma run_messages_replied:
  "session_ok rt s \<Longrightarrow> run_messages rt ms s = Ret s' \<Longrightarrow> \<exists>evs. s_out s' = s_out s @ evs"
proof (induction ms arbitrary: s)
  case (Cons m ms)
  obtain t p where m: "m = (t, p)" by (cases m)
  from Cons.prems(2) obtain c s1 where 1: "processMessage rt t p s = Ret (c, s1)"
    "if c then run_messages rt ms s1 = Ret s' else s' = s1"
    by (auto simp: m split: outcome.splits if_splits)
  from processMessage_contract [OF Cons.prems(1) 1(1)] obtain evs where "session_ok rt s1" "s_out s1 = s_out s @ evs"
    by (auto simp: replied_def)
  with Cons.IH [of s1] 1(2) show ?case by (auto split: if_splits)
qed simp

section \<open>The extended protocol and the simple one\<close>

text \<open>
  \<open>alike a b s t\<close>: \<open>s\<close> and \<open>t\<close> share the engine and the environment, and what they sent after
  \<open>a\<close> and after \<open>b\<close> is the same.  Answering a query keeps this, whatever else differs.
\<close>

definition alike :: "event list \<Rightarrow> event list \<Rightarrow> Session \<Rightarrow> Session \<Rightarrow> bool" where
  "alike a b s t \<longleftrightarrow> s_engine s = s_engine t \<and> s_world s = s_world t \<and>
     (\<exists>evs. s_out s = a @ evs \<and> s_out t = b @ evs)"

definition alike_results ::
  "event list \<Rightarrow> event list \<Rightarrow> (unit, Session) outcome \<Rightarrow> (unit, Session) outcome \<Rightarrow> bool" where
  "alike_results a b x y \<longleftrightarrow>
     (case (x, y) of (Ret s, Ret t) \<Rightarrow> alike a b s t | (Err _, Err _) \<Rightarrow> True | (Panic, Panic) \<Rightarrow> True | _ \<Rightarrow> False)"

lemma alike_results_simps [simp]:
  "alike_results a b (Ret s) (Ret t) = alike a b s t" "alike_results a b Panic Panic" "alike_results a b (Err e) (Err e')"
  by (simp_all add: alike_results_def)

lemma alike_start: "s_engine s = s_engine t \<Longrightarrow> s_world s = s_world t \<Longrightarrow> alike (s_out s) (s_out t) s t"
  by (simp add: alike_def)

lemma alike_send: "alike a b s t \<Longrightarrow> alike a b (send c s) (send c t)"
  by (auto simp: alike_def send_def)

lemma alike_emit: "alike a b s t \<Longrightarrow> alike a b (emit ev s) (emit ev t)"
  by (auto simp: alike_def emit_def)

lemma alike_update: "alike a b s t \<Longrightarrow> alike a b (s\<lparr>s_world := w\<rparr>) (t\<lparr>s_world := w\<rparr>)"
  "alike a b s t \<Longrightarrow> alike a b (s\<lparr>s_engine := e\<rparr>) (t\<lparr>s_engine := e\<rparr>)"
  by (auto simp: alike_def)

lemma alike_world: "alike a b s t \<Longrightarrow> s_world s = s_world t" and alike_engine: "alike a b s t \<Longrightarrow> s_engine s = s_engine t"
  by (simp_all add: alike_def)

lemma alike_send_rows:
  "alike a b s t \<Longrightarrow> alike_results a b (send_rows rt rule ps fs rows s) (send_rows rt rule ps fs rows t)"
proof (induction rows arbitrary: s t)
  case (Cons row rows)
  show ?case
  proof (cases "result_cells rt rule ps fs row [0..<length (r_columns rule)] (s_world t)")
    case (Ret x)
    obtain cs w where x: "x = (cs, w)" by (cases x)
    from Cons.IH [OF alike_send [OF alike_update(1) [OF Cons.prems]]] Ret x alike_world [OF Cons.prems]
    show ?thesis by simp
  qed (use alike_world [OF Cons.prems] in simp_all)
qed simp

lemma alike_delay: "alike a b s t \<Longrightarrow> alike a b (delay rule s) (delay rule t)"
  using alike_world [of a b s t] by (auto simp: delay_def Let_def intro!: alike_emit alike_update)

lemma alike_then:
  "alike_results a b x y \<Longrightarrow> (\<And>s t. alike a b s t \<Longrightarrow> alike_results a b (f s) (g t)) \<Longrightarrow>
   alike_results a b (and_then x f) (and_then y g)"
  by (cases x; cases y) (simp_all add: alike_results_def)

lemma alike_response:
  "alike a b s t \<Longrightarrow> alike_results a b (executeRuleResponse rt rule ps fs s) (executeRuleResponse rt rule ps fs t)"
  unfolding executeRuleResponse_def success_response_def Let_def
  by (auto intro!: alike_then alike_emit alike_send alike_delay alike_send_rows split: option.split)

lemma alike_answer_query:
  assumes "alike a b s t"
  shows "alike_results a b (answer_query rt q ps fs s) (answer_query rt q ps fs t)"
proof (cases "Match rt (w_clock (s_world t) (w_tick (s_world t))) q ps (s_engine t)")
  case (Ret x)
  obtain r e where x: "x = (r, e)" by (cases x)
  from alike_response [OF alike_update(1) [OF alike_update(2) [OF assms]]] Ret x
    alike_world [OF assms] alike_engine [OF assms]
  show ?thesis by (simp add: answer_query_def engine_match_def Let_def)
qed (use alike_world [OF assms] alike_engine [OF assms] in \<open>simp_all add: answer_query_def engine_match_def Let_def\<close>)

text \<open>Parse, Bind, Execute and Sync of one statement, as a driver pipelines them.\<close>

definition extended :: "bytes \<Rightarrow> BindMessage \<Rightarrow> (byte \<times> bytes) list" where
  "extended q m =
     [(MsgTypeParse, encode_parse \<lparr>p_statement = b_statement m, p_query = q, p_oids = []\<rparr>),
      (MsgTypeBind, encode_bind m), (MsgTypeExecute, cstr (b_portal m) @ put_u32 0), (MsgTypeSync, [])]"

definition bound :: "bytes \<Rightarrow> BindMessage \<Rightarrow> Session \<Rightarrow> Session" where
  "bound q m s =
     (let stmt = \<lparr>p_statement = b_statement m, p_query = q, p_oids = []\<rparr>;
          s = send WriteParseComplete (s\<lparr>s_stmts := (s_stmts s)(b_statement m \<mapsto> stmt)\<rparr>)
      in send WriteBindComplete (s\<lparr>s_portals := (s_portals s)(b_portal m \<mapsto>
           \<lparr>ps_stmt = Some stmt, ps_params = b_params m, ps_formats = b_results m\<rparr>)\<rparr>))"

lemma ReadExecute_encoded: "no_nul p \<Longrightarrow> ReadExecute (cstr p @ put_u32 n) = Ret \<lparr>e_portal = p, e_max_rows = n\<rparr>"
  using int32_item.get_put [of n "[]"] by (simp add: ReadExecute_def readNullString_cstr)

lemma run_extended:
  assumes "bind_ok m" and "no_nul q"
  shows "run_messages rt (extended q m) s =
    (case answer_query rt q (b_params m) (b_results m) (count_query (bound q m s)) of
       Ret s2 \<Rightarrow> Ret (ready s2) | _ \<Rightarrow> Panic)"
proof -
  let ?stmt = "\<lparr>p_statement = b_statement m, p_query = q, p_oids = []\<rparr>"
  let ?s1 = "send WriteParseComplete (s\<lparr>s_stmts := (s_stmts s)(b_statement m \<mapsto> ?stmt)\<rparr>)"
  have n: "no_nul (b_statement m)" "no_nul (b_portal m)" using assms(1) by (simp_all add: bind_ok_def)
  have "ReadParse (encode_parse ?stmt) = Ret ?stmt"
    using ReadParse_encoded [of ?stmt "[]"] n assms(2) by (simp add: parse_ok_def)
  then have 1: "handleParse (encode_parse ?stmt) s = Ret ?s1" by (simp add: handleParse_def)
  have "ReadBind (encode_bind m) = Ret m" using ReadBind_encoded [OF assms(1), of "[]"] by simp
  then have 2: "handleBind rt (encode_bind m) ?s1 = Ret (bound q m s)"
    by (simp add: handleBind_def bound_def Let_def send_def)
  have po: "s_portals (bound q m s) (b_portal m) =
      Some \<lparr>ps_stmt = Some ?stmt, ps_params = b_params m, ps_formats = b_results m\<rparr>"
    by (simp add: bound_def send_def Let_def)
  have 3: "handleExecute rt (cstr (b_portal m) @ put_u32 0) (bound q m s) =
      answer_query rt q (b_params m) (b_results m) (count_query (bound q m s))"
    by (simp add: handleExecute_cases ReadExecute_encoded n Let_def po portal_query_def portal_params_def
        portal_formats_def)
  show ?thesis
    by (simp add: extended_def processMessage_eqs continue_def 1 2 3)
      (simp add: continue_def processMessage_eqs split: outcome.split)
qed

lemma bound_parts: "s_engine (bound q m s) = s_engine s" "s_world (bound q m s) = s_world s" "s_tx (bound q m s) = s_tx s"
  "s_out (bound q m s) = s_out s @ map Write (WriteParseComplete @ WriteBindComplete)"
  "session_ok rt (bound q m s) = session_ok rt s"
  by (simp_all add: bound_def send_def Let_def session_ok_def)

lemma query_text_trimmed: "no_nul q \<Longrightarrow> TrimSpace q = q \<Longrightarrow> query_text (cstr q) = q"
  using IndexByte_cstr [of q "[]"] take_drop_cstr(1) [of q "[]"] by (simp add: query_text_def)

text \<open>
  C9. Parse, Bind, Execute and Sync of a statement without parameters (its text trimmed, not empty and without a NUL byte) do what the same text does as
  a simple query: they panic in the same cases, leave the engine in the same state, and between
  the completions of Parse and Bind and the final ReadyForQuery they send exactly the same events,
  delays and dropped connections included.
\<close>

theorem extended_is_simple:
  assumes "session_ok rt s" and "bind_ok m" and "b_params m = []" and "b_results m = []"
    and "no_nul q" and "TrimSpace q = q" and "\<not> empty_text q"
  shows "case (run_messages rt (extended q m) s, run_messages rt [(MsgTypeQuery, cstr q)] s) of
      (Ret s1, Ret s2) \<Rightarrow> s_engine s1 = s_engine s2 \<and>
        (\<exists>evs. s_out s1 = s_out s @ map Write (WriteParseComplete @ WriteBindComplete) @ evs @
                 map Write (WriteReadyForQuery (s_tx s)) \<and>
               s_out s2 = s_out s @ evs @ map Write (WriteReadyForQuery (track_tx rt q (s_tx s))))
    | (x, y) \<Rightarrow> x = Panic \<and> y = Panic"
proof -
  let ?s1 = "count_query (bound q m s)" and ?s2 = "(count_query s)\<lparr>s_tx := track_tx rt q (s_tx s)\<rparr>"
  have simple: "run_messages rt [(MsgTypeQuery, cstr q)] s =
      (case answer_query rt q [] [] ?s2 of Ret s2 \<Rightarrow> Ret (ready s2) | _ \<Rightarrow> Panic)"
    using assms(7) query_text_trimmed [OF assms(5,6)]
    by (simp add: processMessage_eqs continue_def handleSimpleQuery_text split: outcome.split)
  note ext = run_extended [OF assms(2,5), of rt s, unfolded assms(3,4)]
  have "alike (s_out ?s1) (s_out ?s2) ?s1 ?s2"
    by (rule alike_start) (simp_all add: count_query_def bound_parts)
  note al = alike_answer_query [OF this, of rt q "[]" "[]"]
  show ?thesis
  proof (cases "answer_query rt q [] [] ?s1")
    case (Ret t1)
    with al obtain t2 where 2: "answer_query rt q [] [] ?s2 = Ret t2" "alike (s_out ?s1) (s_out ?s2) t1 t2"
      by (auto simp: alike_results_def split: outcome.splits)
    then obtain evs where e: "s_engine t1 = s_engine t2" "s_out t1 = s_out ?s1 @ evs" "s_out t2 = s_out ?s2 @ evs"
      by (auto simp: alike_def)
    have tx: "s_tx t1 = s_tx s" "s_tx t2 = track_tx rt q (s_tx s)"
      using answer_query_tx [OF _ Ret] answer_query_tx [OF with_tx_ok [OF assms(1)] 2(1)] assms(1)
      by (simp_all add: bound_parts)
    show ?thesis unfolding ext simple Ret 2(1)
      by (simp add: e tx ready_def send_def bound_parts count_query_def)
  next
    case (Err x)
    with al obtain y where "answer_query rt q [] [] ?s2 = Err y"
      by (auto simp: alike_results_def split: outcome.splits)
    with Err show ?thesis unfolding ext simple by simp
  next
    case Panic
    with al have "answer_query rt q [] [] ?s2 = Panic" by (auto simp: alike_results_def split: outcome.splits)
    with Panic show ?thesis unfolding ext simple by simp
  qed
qed

lemma extended_is_simple_witness:
  "\<exists>s1 s2. run_messages ascii_rt (extended ''BEGIN'' \<lparr>b_portal = [], b_statement = [], b_formats = [],
       b_params = [], b_results = []\<rparr>) quiet_session = Ret s1 \<and>
     run_messages ascii_rt [(MsgTypeQuery, cstr ''BEGIN'')] quiet_session = Ret s2 \<and> s_engine s1 = s_engine s2"
proof -
  let ?m = "\<lparr>b_portal = [], b_statement = [], b_formats = [], b_params = [], b_results = []\<rparr> :: BindMessage"
  let ?x = "run_messages ascii_rt (extended ''BEGIN'' ?m) quiet_session"
  let ?y = "run_messages ascii_rt [(MsgTypeQuery, cstr ''BEGIN'')] quiet_session"
  have "returned ?y" by code_simp
  then obtain s2 where r: "?y = Ret s2" by (rule returnedE)
  have "bind_ok ?m" by (simp add: bind_ok_def no_nul_def)
  moreover have "no_nul ''BEGIN''" "TrimSpace ''BEGIN'' = ''BEGIN''" "\<not> empty_text ''BEGIN''" by code_simp+
  ultimately show ?thesis
    using extended_is_simple [OF session_ok_quiet [of ascii_rt], of ?m "''BEGIN''"] r
    by (cases ?x) auto
qed

section \<open>Errors after a number of calls\<close>

text \<open>
  What the \<open>k\<close>-th further call of a rule is answered with, given its counter: the error
  from call number \<open>fail_after_n + 1\<close> on, or always when \<open>fail_after_n\<close> is not positive.
\<close>

definition fails_at :: "Rule \<Rightarrow> nat \<Rightarrow> bool" where
  "fails_at rule k \<longleftrightarrow> r_fail_after rule \<le> 0 \<or> r_fail_after rule < r_hits rule + int k"

lemma answer_query_rule:
  assumes "session_ok rt s" and "answer_query rt q ps fs s = Ret s'"
    and "first_rule rt (e_rules (s_engine s)) q ps = Some i"
  shows "(let r = IncrementHits (e_rules (s_engine s) ! i) in rule_replied rt r fs s s' \<and>
    e_rules (s_engine s') = (e_rules (s_engine s))[i := r]) \<and> session_ok rt s' \<and> s_tx s' = s_tx s"
proof -
  from answer_query_replied [OF assms(1,2)] obtain rule s1 where 1: "engine_match rt q ps s = Ret (rule, s1)"
    "rule_replied rt rule fs s s'" "same_state rt s1 s'" "session_ok rt s'" "s_tx s' = s_tx s" by metis
  from 1(1) obtain e where e: "Match rt (w_clock (s_world s) (w_tick (s_world s))) q ps (s_engine s) = Ret (rule, e)"
    "s1 = s\<lparr>s_engine := e, s_world := tick (s_world s)\<rparr>"
    by (auto simp: engine_match_def Let_def and_then_pair_Ret)
  have "cache_ok rt (e_cache (s_engine s))" using assms(1) by (simp add: session_ok_def engine_ok_def)
  from Match_cases [OF this e(1)] assms(3) have "rule = IncrementHits (e_rules (s_engine s) ! i)"
    "e_rules e = (e_rules (s_engine s))[i := rule]" by (simp_all add: answers_def)
  with 1 same_state_engine [OF 1(3)] e(2) show ?thesis by simp
qed

lemma rule_matches_counter: "rule_matches rt (IncrementHits r) q ps = rule_matches rt r q ps"
  by (simp add: rule_matches_def IncrementHits_def)

lemma first_rule_counter:
  assumes "first_rule rt rs q ps = Some i"
  shows "first_rule rt (rs[i := IncrementHits (rs ! i)]) q ps = Some i"
  using assms by (auto simp: first_rule_Some nth_list_update rule_matches_counter)

definition call_answer :: "Rule \<Rightarrow> MockError \<Rightarrow> byte \<Rightarrow> nat \<Rightarrow> (byte \<times> bytes) list \<Rightarrow> bool" where
  "call_answer rule e tx k ps \<longleftrightarrow>
     (if fails_at rule k then ps = [(MsgTypeErrorResponse, error_body (rule_error e)), (MsgTypeReadyForQuery, [tx])]
      else \<exists>cells. cells_fit rule cells \<and> ps = answer_packets rule [] cells @ [(MsgTypeReadyForQuery, [tx])])"

lemma counter_parts:
  "r_types (IncrementHits r) = r_types r" "r_columns (IncrementHits r) = r_columns r"
  "r_rows (IncrementHits r) = r_rows r" "r_tag (IncrementHits r) = r_tag r"
  "r_drop (IncrementHits r) = r_drop r" "r_error (IncrementHits r) = r_error r"
  "r_fail_after (IncrementHits r) = r_fail_after r" "r_hits (IncrementHits r) = r_hits r + 1"
  by (simp_all add: IncrementHits_def)

lemma counter_answer: "answer_packets (IncrementHits r) fs cells = answer_packets r fs cells"
  "cells_fit (IncrementHits r) cells = cells_fit r cells"
  unfolding answer_packets_def cells_fit_def result_fields_def column_oid_def response_tag_def counter_parts
  by (rule refl)+

lemma call_answer_next: "call_answer (IncrementHits r) e tx k ps = call_answer r e tx (Suc k) ps"
  by (simp add: call_answer_def fails_at_def counter_parts counter_answer algebra_simps)

lemma one_call:
  assumes "session_ok rt s" and "first_rule rt (e_rules (s_engine s)) q [] = Some i"
    and "rule = e_rules (s_engine s) ! i" and "r_error rule = Some e" and "\<not> r_drop rule"
    and "no_nul q" and "TrimSpace q = q" and "\<not> empty_text q"
    and "processMessage rt MsgTypeQuery (cstr q) s = Ret (c, s')"
  shows "c \<and> session_ok rt s' \<and> s_tx s' = track_tx rt q (s_tx s) \<and>
    e_rules (s_engine s') = (e_rules (s_engine s))[i := IncrementHits rule] \<and>
    (\<exists>ps. replied s s' ps \<and> call_answer rule e (s_tx s') 1 ps)"
proof -
  let ?s1 = "(count_query s)\<lparr>s_tx := track_tx rt q (s_tx s)\<rparr>" and ?r = "IncrementHits rule"
  from assms(8,9) query_text_trimmed [OF assms(6,7)] obtain s2 where
    2: "answer_query rt q [] [] ?s1 = Ret s2" "s' = ready s2" "c"
    by (auto simp: processMessage_eqs continue_def handleSimpleQuery_text outcome_simps)
  have "first_rule rt (e_rules (s_engine ?s1)) q [] = Some i" using assms(2) by (simp add: count_query_def)
  from answer_query_rule [OF with_tx_ok [OF assms(1)] 2(1) this] assms(3)
  have 3: "rule_replied rt ?r [] ?s1 s2" "e_rules (s_engine s2) = (e_rules (s_engine s))[i := ?r]"
    "session_ok rt s2" "s_tx s2 = track_tx rt q (s_tx s)" by (simp_all add: count_query_def Let_def)
  have r: "r_drop ?r = r_drop rule" "r_error ?r = r_error rule" "should_fail ?r = fails_at rule 1"
    by (auto simp: counter_parts should_fail_def fails_at_def Hits_def)
  have "\<exists>ps. replied ?s1 s2 ps \<and> call_answer rule e (s_tx s') 1 (ps @ [(MsgTypeReadyForQuery, [s_tx s'])])"
    using 3(1) assms(4,5) r
    by (auto simp: rule_replied_def raised_def call_answer_def counter_answer split: if_splits)
  then obtain ps where ps: "replied ?s1 s2 ps" "call_answer rule e (s_tx s') 1 (ps @ [(MsgTypeReadyForQuery, [s_tx s'])])"
    by blast
  have "replied s s2 ps" by (rule replied_out [OF _ ps(1)]) (simp add: count_query_def)
  then have "replied s s' (ps @ [(MsgTypeReadyForQuery, [s_tx s'])])"
    unfolding 2(2) by (rule replied_trans) simp
  moreover have "session_ok rt s'" "s_tx s' = track_tx rt q (s_tx s)" "s_engine s' = s_engine s2"
    using 2(2) 3(3,4) by (simp_all, simp add: ready_def send_def)
  ultimately show ?thesis using ps(2) 2(3) 3(2) by auto
qed

lemma track_tx_again: "track_tx rt q (track_tx rt q tx) = track_tx rt q tx"
  by (simp add: track_tx_def Let_def)

text \<open>
  C11. \<open>fail_after_n\<close>: send the same query \<open>n\<close> times while the rule that is the first to match it
  raises an error.  Counting the calls it had before, the rule answers the first \<open>fail_after_n\<close> calls with
  its result and every later one with its error (every one, if the number is not positive), each
  followed by ReadyForQuery; its counter has grown by \<open>n\<close>.
\<close>

theorem fail_after_n:
  assumes "session_ok rt s" and "first_rule rt (e_rules (s_engine s)) q [] = Some i"
    and "r_error (e_rules (s_engine s) ! i) = Some e" and "\<not> r_drop (e_rules (s_engine s) ! i)"
    and "no_nul q" and "TrimSpace q = q" and "\<not> empty_text q"
    and "run_messages rt (replicate n (MsgTypeQuery, cstr q)) s = Ret s'"
  shows "\<exists>pss. length pss = n \<and> replied s s' (concat pss) \<and>
    (\<forall>k < n. call_answer (e_rules (s_engine s) ! i) e (track_tx rt q (s_tx s)) (Suc k) (pss ! k)) \<and>
    r_hits (e_rules (s_engine s') ! i) = r_hits (e_rules (s_engine s) ! i) + int n"
  using assms
proof (induction n arbitrary: s)
  case 0
  then show ?case by (intro exI [of _ "[]"]) simp
next
  case (Suc n)
  let ?r = "e_rules (s_engine s) ! i" and ?tx = "track_tx rt q (s_tx s)"
  from Suc.prems(8) obtain c s1 where 1: "processMessage rt MsgTypeQuery (cstr q) s = Ret (c, s1)"
    "if c then run_messages rt (replicate n (MsgTypeQuery, cstr q)) s1 = Ret s' else s' = s1"
    by (auto split: outcome.splits if_splits)
  from one_call [OF Suc.prems(1,2) refl Suc.prems(3-7) 1(1)] obtain ps where
    2: "c" "session_ok rt s1" "s_tx s1 = ?tx" "e_rules (s_engine s1) = (e_rules (s_engine s))[i := IncrementHits ?r]"
      "replied s s1 ps" "call_answer ?r e ?tx 1 ps" by auto
  have i: "i < length (e_rules (s_engine s))" using Suc.prems(2) by (simp add: first_rule_Some)
  then have r1: "e_rules (s_engine s1) ! i = IncrementHits ?r" by (simp add: 2(4))
  have "first_rule rt (e_rules (s_engine s1)) q [] = Some i"
    unfolding 2(4) by (rule first_rule_counter [OF Suc.prems(2)])
  moreover have "run_messages rt (replicate n (MsgTypeQuery, cstr q)) s1 = Ret s'" using 1(2) 2(1) by simp
  ultimately obtain pss where 3: "length pss = n" "replied s1 s' (concat pss)"
    "\<forall>k < n. call_answer ?r e ?tx (Suc (Suc k)) (pss ! k)" "r_hits (e_rules (s_engine s') ! i) = r_hits ?r + int (Suc n)"
    using Suc.IH [OF 2(2)] Suc.prems(3-7)
    by (auto simp: r1 counter_parts call_answer_next 2(3) track_tx_again)
  have "\<forall>k < Suc n. call_answer ?r e ?tx (Suc k) ((ps # pss) ! k)"
    using 2(6) 3(3) by (auto simp: All_less_Suc2)
  with 3 replied_trans [OF 2(5) 3(2)] show ?case by (intro exI [of _ "ps # pss"]) simp
qed

definition flaky :: Rule where
  "flaky = empty_rule\<lparr>r_id := ''flaky'', r_query := ''ping'', r_tag := ''PONG'', r_fail_after := 1,
     r_error := Some \<lparr>me_code = ''57P01'', me_message = ''down'', me_severity = [], me_detail = [], me_hint = []\<rparr>\<rparr>"

definition flaky_session :: Session where
  "flaky_session = NewConnHandler (NewEngine Map.empty [flaky]) quiet_world None None"

lemma session_ok_flaky: "session_ok rt flaky_session"
  using session_ok_quiet [of rt]
  by (simp add: session_ok_def flaky_session_def quiet_session_def NewConnHandler_def engine_ok_def NewEngine_def)

lemma fail_after_n_witness:
  "\<exists>s' pss. run_messages ascii_rt (replicate 2 (MsgTypeQuery, cstr ''ping'')) flaky_session = Ret s' \<and>
     replied flaky_session s' (concat pss) \<and> map fst (concat pss) =
       [MsgTypeCommandComplete, MsgTypeReadyForQuery, MsgTypeErrorResponse, MsgTypeReadyForQuery]"
proof -
  have "returned (run_messages ascii_rt (replicate 2 (MsgTypeQuery, cstr ''ping'')) flaky_session)" by code_simp
  then obtain s' where s': "run_messages ascii_rt (replicate 2 (MsgTypeQuery, cstr ''ping'')) flaky_session = Ret s'"
    by (rule returnedE)
  have e: "e_rules (s_engine flaky_session) ! 0 = flaky"
    by (simp add: flaky_session_def NewConnHandler_def NewEngine_def)
  have "text_matches ascii_rt ''ping'' ''ping''" by code_simp
  then have "first_rule ascii_rt [flaky] ''ping'' [] = Some 0"
    by (simp add: rule_matches_def flaky_def empty_rule_def)
  then have f: "first_rule ascii_rt (e_rules (s_engine flaky_session)) ''ping'' [] = Some 0"
    by (simp add: flaky_session_def NewConnHandler_def NewEngine_def)
  have g: "no_nul ''ping''" "TrimSpace ''ping'' = ''ping''" "\<not> empty_text ''ping''" by code_simp+
  from fail_after_n [OF session_ok_flaky f _ _ g s', unfolded e] obtain pss where
    p: "length pss = 2" "replied flaky_session s' (concat pss)"
      "\<forall>k < 2. call_answer flaky (the (r_error flaky)) (track_tx ascii_rt ''ping'' (s_tx flaky_session)) (Suc k) (pss ! k)"
    by (auto simp: flaky_def empty_rule_def)
  from p(1) obtain a b where ab: "pss = [a, b]" by (auto simp: numeral_2_eq_2 length_Suc_conv)
  with p(3) have "map fst a = [MsgTypeCommandComplete, MsgTypeReadyForQuery]" "map fst b = [MsgTypeErrorResponse, MsgTypeReadyForQuery]"
    by (auto simp: All_less_Suc2 numeral_2_eq_2 call_answer_def fails_at_def answer_packets_def flaky_def empty_rule_def)
  with p(2) s' ab show ?thesis by (intro exI [of _ s'] exI [of _ pss] conjI) simp_all
qed

section \<open>Results without tags\<close>

text \<open>The cells of a row as they are sent when no tag has to be rendered.\<close>

definition literal_cells :: "Rule \<Rightarrow> bytes list \<Rightarrow> bytes option list" where
  "literal_cells rule row =
     map (\<lambda>i. if i < length row \<and> row ! i \<noteq> ''NULL'' then Some (row ! i) else None) [0..<length (r_columns rule)]"

definition literal_row :: "bytes list \<Rightarrow> bool" where
  "literal_row row \<longleftrightarrow> list_all (\<lambda>c. \<not> Contains c ''{{'') row"

lemma result_cells_literal:
  "literal_row row \<Longrightarrow> result_cells rt rule ps [] row is w =
     Ret (map (\<lambda>i. if i < length row \<and> row ! i \<noteq> ''NULL'' then Some (row ! i) else None) is, w)"
  by (induction "is")
    (simp_all add: result_cell_def is_binary_def RenderTemplate_def literal_row_def list_all_length)

lemma send_rows_literal:
  assumes "list_all literal_row rows"
  shows "\<exists>s'. send_rows rt rule ps [] rows s = Ret s' \<and> same_state rt s s' \<and>
    replied s s' (map (\<lambda>row. (MsgTypeDataRow, data_row_body (literal_cells rule row))) rows)"
  using assms
proof (induction rows arbitrary: s)
  case (Cons row rows)
  let ?s1 = "send (WriteDataRow (literal_cells rule row)) s"
  from Cons.IH [of ?s1] Cons.prems obtain s' where 1: "send_rows rt rule ps [] rows ?s1 = Ret s'"
    "same_state rt ?s1 s'" "replied ?s1 s' (map (\<lambda>row. (MsgTypeDataRow, data_row_body (literal_cells rule row))) rows)"
    by auto
  have "result_cells rt rule ps [] row [0..<length (r_columns rule)] (s_world s) = Ret (literal_cells rule row, s_world s)"
    using Cons.prems result_cells_literal [of row rt rule ps _ "s_world s"] by (simp add: literal_cells_def)
  with 1(1) have "send_rows rt rule ps [] (row # rows) s = Ret s'" by simp
  with 1 replied_trans [OF send_packets(9) 1(3)] same_state_trans [OF same_state_send(1) 1(2)] show ?case by auto
qed simp

lemma literal_response:
  assumes "world_ok (s_world s)" and "\<not> r_drop rule" and "raised rule = None" and "list_all literal_row (r_rows rule)"
  shows "\<exists>s'. executeRuleResponse rt rule ps [] s = Ret s' \<and> same_state rt s s' \<and>
    replied s s' (answer_packets rule [] (map (literal_cells rule) (r_rows rule)))"
proof -
  let ?s1 = "delay rule s"
  have d: "same_state rt s ?s1" "replied s ?s1 []" using delay_state [OF assms(1)] by blast+
  have e: "executeRuleResponse rt rule ps [] s = success_response rt rule ps [] ?s1"
    using assms(2,3) by (auto simp: executeRuleResponse_def Let_def raised_def split: option.splits)
  show ?thesis
  proof (cases "r_columns rule = []")
    case True
    let ?s2 = "send (WriteCommandComplete (response_tag rule)) ?s1"
    have "executeRuleResponse rt rule ps [] s = Ret ?s2" using True by (simp add: e success_response_def)
    moreover have "replied s ?s2 (answer_packets rule [] (map (literal_cells rule) (r_rows rule)))"
      using replied_trans [OF d(2) send_packets(10)] True by (simp add: answer_packets_def)
    ultimately show ?thesis using same_state_trans [OF d(1) same_state_send(1)] by blast
  next
    case False
    let ?s2 = "send (WriteRowDescription (result_fields rule [])) ?s1"
    from send_rows_literal [OF assms(4), of rt rule ps ?s2] obtain s3 where 3:
      "send_rows rt rule ps [] (r_rows rule) ?s2 = Ret s3" "same_state rt ?s2 s3"
      "replied ?s2 s3 (map (\<lambda>row. (MsgTypeDataRow, data_row_body (literal_cells rule row))) (r_rows rule))" by blast
    let ?s4 = "send (WriteCommandComplete (response_tag rule)) s3"
    have "executeRuleResponse rt rule ps [] s = Ret ?s4" using False 3(1) by (simp add: e success_response_def)
    moreover have "replied s ?s4 ((([] @ [(MsgTypeRowDescription, row_description_body (result_fields rule []))]) @
        map (\<lambda>row. (MsgTypeDataRow, data_row_body (literal_cells rule row))) (r_rows rule)) @
        [(MsgTypeCommandComplete, cstr (response_tag rule))])"
      by (intro replied_trans [OF _ send_packets(10)] replied_trans [OF _ 3(3)] replied_trans [OF d(2) send_packets(8)])
    then have "replied s ?s4 (answer_packets rule [] (map (literal_cells rule) (r_rows rule)))"
      using False by (simp add: answer_packets_def comp_def)
    moreover have "same_state rt s ?s4"
      by (intro same_state_trans [OF _ same_state_send(1)] same_state_trans [OF _ 3(2)]
          same_state_trans [OF d(1) same_state_send(1)])
    ultimately show ?thesis by blast
  qed
qed

lemma literal_payload_answer:
  assumes "session_ok rt s" and "first_rule rt (e_rules (s_engine s)) q [] = Some i"
    and "rule = e_rules (s_engine s) ! i"
    and "\<not> r_drop rule" and "r_error rule = None" and "list_all literal_row (r_rows rule)"
    and "query_text p = q" and "\<not> empty_text q"
  shows "\<exists>s'. processMessage rt MsgTypeQuery p s = Ret (True, s') \<and>
    replied s s' (answer_packets rule [] (map (literal_cells rule) (r_rows rule)) @
      [(MsgTypeReadyForQuery, [track_tx rt q (s_tx s)])]) \<and> closed s' = closed s"
proof -
  let ?s1 = "(count_query s)\<lparr>s_tx := track_tx rt q (s_tx s)\<rparr>" and ?r = "IncrementHits rule"
  have c: "cache_ok rt (e_cache (s_engine s))" using assms(1) by (simp add: session_ok_def engine_ok_def)
  from first_match_first_rule [OF c] assms(2) obtain c' where
    "first_match rt (e_cache (s_engine s)) (e_rules (s_engine s)) q [] = (Some i, c')" by metis
  from Match_rule [OF this] assms(3) obtain e where
    m: "engine_match rt q [] ?s1 = Ret (?r, ?s1\<lparr>s_engine := e, s_world := tick (s_world s)\<rparr>)"
    by (simp add: engine_match_def Let_def count_query_def)
  let ?s2 = "?s1\<lparr>s_engine := e, s_world := tick (s_world s)\<rparr>"
  have w: "world_ok (s_world ?s2)" using assms(1) by (simp add: session_ok_def)
  have r: "\<not> r_drop ?r" "raised ?r = None" "list_all literal_row (r_rows ?r)"
    using assms(4-6) by (simp_all add: raised_def counter_parts)
  have "literal_cells ?r = literal_cells rule" by (rule ext) (simp add: literal_cells_def counter_parts)
  then have eq: "answer_packets ?r [] (map (literal_cells ?r) (r_rows ?r)) =
      answer_packets rule [] (map (literal_cells rule) (r_rows rule))"
    by (simp add: counter_answer counter_parts)
  from literal_response [OF w r, of rt "[]", unfolded eq] obtain s3 where
    3: "executeRuleResponse rt ?r [] [] ?s2 = Ret s3" "same_state rt ?s2 s3"
      "replied ?s2 s3 (answer_packets rule [] (map (literal_cells rule) (r_rows rule)))"
    by (elim exE conjE)
  have "processMessage rt MsgTypeQuery p s = Ret (True, ready s3)"
    using assms(7,8) m 3(1)
    by (simp add: processMessage_eqs continue_def handleSimpleQuery_text answer_query_def Let_def)
  moreover have "replied s s3 (answer_packets rule [] (map (literal_cells rule) (r_rows rule)))"
    by (rule replied_out [OF _ 3(3)]) (simp add: count_query_def)
  then have "replied s (ready s3) (answer_packets rule [] (map (literal_cells rule) (r_rows rule)) @
      [(MsgTypeReadyForQuery, [s_tx s3])])" by (rule replied_trans) simp
  moreover have "s_tx s3 = track_tx rt q (s_tx s)" using same_state_tx [OF 3(2)] by simp
  moreover have "closed ?s2 = closed s" by (simp add: closed_def count_query_def)
  then have "closed (ready s3) = closed s" using executeRuleResponse_closed [OF 3(1) r(1)] by simp
  ultimately show ?thesis by auto
qed

lemma literal_answer:
  assumes "session_ok rt s" and "first_rule rt (e_rules (s_engine s)) q [] = Some i"
    and "rule = e_rules (s_engine s) ! i"
    and "\<not> r_drop rule" and "r_error rule = None" and "list_all literal_row (r_rows rule)"
    and "no_nul q" and "TrimSpace q = q" and "\<not> empty_text q"
  shows "\<exists>s'. processMessage rt MsgTypeQuery (cstr q) s = Ret (True, s') \<and>
    replied s s' (answer_packets rule [] (map (literal_cells rule) (r_rows rule)) @
      [(MsgTypeReadyForQuery, [track_tx rt q (s_tx s)])])"
  using literal_payload_answer [OF assms(1-6) query_text_trimmed [OF assms(7,8)] assms(9)] by blast

text \<open>
  C10. A query that a rule answers is answered with the rule's result, as it stands in the rule:
  if the rule is the first to match, raises no error, does not drop connections and has no tags, the
  simple query returns (it cannot panic), with its columns, one row for each of its rows, a value for each
  column (NULL for a missing cell and for one that reads \<open>NULL\<close>), its command tag and ReadyForQuery.
\<close>

theorem literal_rule_answer:
  assumes "session_ok rt s" and "first_rule rt (e_rules (s_engine s)) q [] = Some i"
    and "rule = e_rules (s_engine s) ! i"
    and "\<not> r_drop rule" and "r_error rule = None" and "list_all literal_row (r_rows rule)"
    and "no_nul q" and "TrimSpace q = q" and "\<not> empty_text q"
  shows "\<exists>s'. processMessage rt MsgTypeQuery (cstr q) s = Ret (True, s') \<and>
    replied s s' (answer_packets rule [] (map (literal_cells rule) (r_rows rule)) @
      [(MsgTypeReadyForQuery, [track_tx rt q (s_tx s)])])"
  using assms by (rule literal_answer)

definition users_rule :: Rule where
  "users_rule = empty_rule\<lparr>r_query := ''users'', r_columns := [''id'', ''name''], r_rows := [[''1''], [''NULL'', ''bob'']]\<rparr>"

definition users_session :: Session where
  "users_session = NewConnHandler (NewEngine Map.empty [users_rule]) quiet_world None None"

lemma literal_rule_answer_witness:
  "\<exists>s'. processMessage ascii_rt MsgTypeQuery (cstr ''users'') users_session = Ret (True, s') \<and>
     replied users_session s' (answer_packets users_rule [] [[Some ''1'', None], [None, Some ''bob'']] @
       [(MsgTypeReadyForQuery, [track_tx ascii_rt ''users'' (s_tx users_session)])])"
proof -
  have "text_matches ascii_rt ''users'' ''users''" by code_simp
  then have f: "first_rule ascii_rt (e_rules (s_engine users_session)) ''users'' [] = Some 0"
    by (simp add: users_session_def NewConnHandler_def NewEngine_def rule_matches_def users_rule_def empty_rule_def)
  have r: "users_rule = e_rules (s_engine users_session) ! 0"
    by (simp add: users_session_def NewConnHandler_def NewEngine_def)
  have ok: "session_ok ascii_rt users_session"
    using session_ok_quiet [of ascii_rt]
    by (simp add: session_ok_def users_session_def quiet_session_def NewConnHandler_def engine_ok_def NewEngine_def)
  have l: "list_all literal_row (r_rows users_rule)" "no_nul ''users''" "TrimSpace ''users'' = ''users''"
    "\<not> empty_text ''users''" by code_simp+
  have "map (literal_cells users_rule) (r_rows users_rule) = [[Some ''1'', None], [None, Some ''bob'']]" by code_simp
  with literal_rule_answer [OF ok f r _ _ l] show ?thesis
    by (simp add: users_rule_def empty_rule_def)
qed

section \<open>Inputs that end the process\<close>

lemma long_header_panics:
  assumes "2 ^ 31 + 4 \<le> uint n"
  shows "serve rt ahead (t # put_u32 n @ rest) s = Panic"
proof -
  have "\<not> uint n < 4" using assms by simp
  with ReadMessageHeader_cases [of t n rest] assms show ?thesis
    by (subst serve.simps) simp
qed

lemma negative_count_panics: "ReadBind ([NUL, NUL] @ put_u16 (- 1) @ rest) = Panic"
  using readNullString_cstr [of "[]" "NUL # put_u16 (- 1) @ rest"] readNullString_cstr [of "[]" "put_u16 (- 1) @ rest"]
    int16_item.get_put [of "- 1" rest]
  by (simp add: ReadBind_def cstr_def no_nul_def make_len_def)

definition wide_interval :: bytes where
  "wide_interval = ''{{random 0 9223372036854775807}}''"

lemma stored_template_panics:
  "run_messages ascii_rt [(MsgTypeQuery, cstr (''INSERT INTO t VALUES ('' @ wide_interval @ '')'')),
     (MsgTypeQuery, cstr ''SELECT * FROM t'')] quiet_session = Panic"
  (is "?x = Panic")
proof -
  have "case ?x of Panic \<Rightarrow> True | _ \<Rightarrow> False" by code_simp
  then show ?thesis by (cases ?x) (simp_all del: run_messages.simps)
qed

text \<open>
  C16. Three inputs by which any client ends the whole server, since nothing recovers from a panic: a message
  header with a length of \<open>2^31 + 4\<close> or more, whatever follows it; a Bind with a negative count;
  and, with stateful mode on, a row that holds a random tag whose interval is too wide, once it is
  selected.
\<close>

theorem client_can_crash:
  "(2 ^ 31 + 4 \<le> uint n \<longrightarrow> serve rt ahead (t # put_u32 n @ rest) s = Panic) \<and>
   serve rt ahead (frames [(MsgTypeBind, [NUL, NUL] @ put_u16 (- 1))]) s = Panic \<and>
   serve ascii_rt ahead (frames [(MsgTypeQuery, cstr (''INSERT INTO t VALUES ('' @ wide_interval @ '')'')),
     (MsgTypeQuery, cstr ''SELECT * FROM t'')]) quiet_session = Panic"
proof (intro conjI impI)
  show "2 ^ 31 + 4 \<le> uint n \<Longrightarrow> serve rt ahead (t # put_u32 n @ rest) s = Panic"
    by (rule long_header_panics)
  have "processMessage rt MsgTypeBind ([NUL, NUL] @ put_u16 (- 1)) s = Panic"
    using negative_count_panics [of "[]"] by (simp add: processMessage_eqs continue_def handleBind_def)
  then show "serve rt ahead (frames [(MsgTypeBind, [NUL, NUL] @ put_u16 (- 1))]) s = Panic"
    using serve_packet [of "[NUL, NUL] @ put_u16 (- 1)" rt ahead MsgTypeBind "[]" s] by simp
  let ?ms = "[(MsgTypeQuery, cstr (''INSERT INTO t VALUES ('' @ wide_interval @ '')'')),
     (MsgTypeQuery, cstr ''SELECT * FROM t'')]"
  have "no_drops ascii_rt quiet_session"
    using session_ok_quiet by (simp add: no_drops_def quiet_session_def NewConnHandler_def NewEngine_def)
  then have "stays_open ascii_rt ?ms quiet_session" by (rule no_drops_stays_open)
  moreover have "list_all message_fits ?ms" by (simp add: message_fits_def cstr_def wide_interval_def)
  ultimately show "serve ascii_rt ahead (frames ?ms) quiet_session = Panic"
    using serve_run_messages [of ?ms ascii_rt quiet_session ahead] stored_template_panics by simp
qed

lemma client_can_crash_witness:
  "serve ascii_rt 0 (CHR ''Q'' # put_u32 0xFFFFFFFF @ []) quiet_session = Panic"
proof -
  have "2 ^ 31 + 4 \<le> uint (0xFFFFFFFF :: 32 word)" by simp
  with client_can_crash [of "0xFFFFFFFF" ascii_rt 0 "CHR ''Q''" "[]" quiet_session] show ?thesis by blast
qed

section \<open>Dropped connections\<close>

text \<open>
  C38. A rule with \<open>drop_connection\<close> closes the connection at once: nothing is sent in answer to the query, the
  events of any latency included, and nothing that the handler writes for messages still buffered
  reaches the client, although they are executed.
\<close>

theorem dropped_connection:
  assumes "session_ok rt s" and "\<not> closed s" and "first_rule rt (e_rules (s_engine s)) q [] = Some i"
    and "r_drop (e_rules (s_engine s) ! i)"
    and "no_nul q" and "TrimSpace q = q" and "\<not> empty_text q"
    and "run_messages rt ((MsgTypeQuery, cstr q) # ms) s = Ret s'"
  shows "closed s' \<and> delivered (s_out s') = wire (s_out s) \<and>
    (\<exists>s1. processMessage rt MsgTypeQuery (cstr q) s = Ret (True, s1) \<and> run_messages rt ms s1 = Ret s')"
proof -
  let ?s1 = "(count_query s)\<lparr>s_tx := track_tx rt q (s_tx s)\<rparr>"
  from assms(8) obtain c s1 where 1: "processMessage rt MsgTypeQuery (cstr q) s = Ret (c, s1)"
    "if c then run_messages rt ms s1 = Ret s' else s' = s1" by (auto split: outcome.splits if_splits)
  from assms(7) query_text_trimmed [OF assms(5,6)] 1(1) obtain s2 where
    2: "answer_query rt q [] [] ?s1 = Ret s2" "s1 = ready s2" "c"
    by (auto simp: processMessage_eqs continue_def handleSimpleQuery_text outcome_simps)
  have "first_rule rt (e_rules (s_engine ?s1)) q [] = Some i" using assms(3) by (simp add: count_query_def)
  from answer_query_rule [OF with_tx_ok [OF assms(1)] 2(1) this] assms(4)
  have "s_out s2 = s_out s @ [CloseConn]" by (simp add: rule_replied_def Let_def counter_parts count_query_def)
  then have out: "s_out s1 = s_out s @ CloseConn # map Write (WriteReadyForQuery (s_tx s2))"
    by (simp add: 2(2) ready_def send_def)
  have ok: "session_ok rt s1" using processMessage_contract [OF assms(1) 1(1)] by simp
  have run: "run_messages rt ms s1 = Ret s'" using 1(2) 2(3) by simp
  from run_messages_replied [OF ok run] obtain evs where "s_out s' = s_out s1 @ evs" by blast
  then have "s_out s' = s_out s @ CloseConn # map Write (WriteReadyForQuery (s_tx s2)) @ evs" by (simp add: out)
  with assms(2) delivered_drop [of "s_out s"] 1(1) 2(3) run show ?thesis by (simp add: closed_def)
qed

definition dropping_session :: Session where
  "dropping_session =
     NewConnHandler (NewEngine Map.empty [empty_rule\<lparr>r_query := ''boom'', r_drop := True\<rparr>]) quiet_world None None"

lemma dropped_connection_witness:
  "\<exists>s'. run_messages ascii_rt [(MsgTypeQuery, cstr ''boom''), (MsgTypeSync, [])] dropping_session = Ret s' \<and>
     delivered (s_out s') = []"
proof -
  let ?ms = "[(MsgTypeQuery, cstr ''boom''), (MsgTypeSync, [])]"
  have "returned (run_messages ascii_rt ?ms dropping_session)" by code_simp
  then obtain s' where s': "run_messages ascii_rt ?ms dropping_session = Ret s'" by (rule returnedE)
  have "text_matches ascii_rt ''boom'' ''boom''" by code_simp
  then have f: "first_rule ascii_rt (e_rules (s_engine dropping_session)) ''boom'' [] = Some 0"
    "r_drop (e_rules (s_engine dropping_session) ! 0)" "s_out dropping_session = []" "\<not> closed dropping_session"
    by (simp_all add: dropping_session_def NewConnHandler_def NewEngine_def rule_matches_def empty_rule_def closed_def)
  have ok: "session_ok ascii_rt dropping_session"
    using session_ok_quiet [of ascii_rt]
    by (simp add: session_ok_def dropping_session_def quiet_session_def NewConnHandler_def engine_ok_def NewEngine_def)
  have "no_nul ''boom''" "TrimSpace ''boom'' = ''boom''" "\<not> empty_text ''boom''" by code_simp+
  from dropped_connection [OF ok f(4,1,2) this s'] f(3) s' show ?thesis by auto
qed

end
