(* ===== verification/Events.thy ===== *)
theory Events
  imports Go_Strings Transitions "HOL-Library.Sublist"
begin

text \<open>
  \<open>internal/admin/events.go\<close>: the broker of server-sent events.  Channels live in a heap (a list
  indexed by their number) with their buffer and whether they are closed; the broker's map holds the
  subscribed ones.  Sending to a closed channel and closing one twice panic in Go, so the
  operations can panic.  The HTTP connections are a step relation over the broker's operations.
\<close>

section \<open>The broker\<close>

record Channel =
  ch_buf :: "bytes list"
  ch_closed :: bool

record EventBroker =
  br_heap :: "Channel list"
  br_clients :: "nat list"

definition NewEventBroker :: EventBroker where
  "NewEventBroker = \<lparr>br_heap = [], br_clients = []\<rparr>"

definition Subscribe :: "EventBroker \<Rightarrow> nat \<times> EventBroker" where
  "Subscribe b =
     (let ch = length (br_heap b) in
      (ch, b\<lparr>br_heap := br_heap b @ [\<lparr>ch_buf = [], ch_closed = False\<rparr>], br_clients := br_clients b @ [ch]\<rparr>))"

definition close_channel :: "nat \<Rightarrow> Channel list \<Rightarrow> (unit, Channel list) outcome" where
  "close_channel ch heap =
     (if ch_closed (heap ! ch) then Panic else Ret (heap[ch := (heap ! ch)\<lparr>ch_closed := True\<rparr>]))"

definition Unsubscribe :: "nat \<Rightarrow> EventBroker \<Rightarrow> (unit, EventBroker) outcome" where
  "Unsubscribe ch b =
     (if ch \<in> set (br_clients b) then
        and_then (close_channel ch (br_heap b)) (\<lambda>heap.
          Ret (b\<lparr>br_clients := remove1 ch (br_clients b), br_heap := heap\<rparr>))
      else Ret b)"

text \<open>The capacity of every channel, and the send that skips a full buffer.\<close>

definition capacity :: nat where
  "capacity = 64"

definition try_send :: "bytes \<Rightarrow> nat \<Rightarrow> Channel list \<Rightarrow> (unit, Channel list) outcome" where
  "try_send msg ch heap =
     (let c = heap ! ch in
      if ch_closed c then Panic
      else if length (ch_buf c) < capacity then Ret (heap[ch := c\<lparr>ch_buf := ch_buf c @ [msg]\<rparr>])
      else Ret heap)"

fun send_all :: "bytes \<Rightarrow> nat list \<Rightarrow> Channel list \<Rightarrow> (unit, Channel list) outcome" where
  "send_all msg [] heap = Ret heap"
| "send_all msg (ch # chs) heap = and_then (try_send msg ch heap) (send_all msg chs)"

definition event_text :: "bytes \<Rightarrow> bytes \<Rightarrow> bytes" where
  "event_text eventType payload =
     ''event: '' @ eventType @ [CHR 0x0A] @ ''data: '' @ payload @ [CHR 0x0A, CHR 0x0A]"

text \<open>\<open>payload\<close> is the result of \<open>json.Marshal\<close>, \<open>None\<close> for its error.\<close>

definition Broadcast :: "bytes \<Rightarrow> bytes option \<Rightarrow> EventBroker \<Rightarrow> (unit, EventBroker) outcome" where
  "Broadcast eventType payload b =
     (case payload of
        None \<Rightarrow> Ret b
      | Some p \<Rightarrow>
          and_then (send_all (event_text eventType p) (br_clients b) (br_heap b)) (\<lambda>heap.
            Ret (b\<lparr>br_heap := heap\<rparr>)))"

section \<open>The connections\<close>

text \<open>
  Connection number \<open>n\<close> is the one that subscribed channel \<open>n\<close>: what was written to it, and
  whether its handler still runs.  \<open>log\<close> are the messages broadcast so far, \<open>from\<close> the position in it
  at which a connection subscribed; the program does not keep these two.
\<close>

record Stream =
  st_broker :: EventBroker
  st_out :: "bytes list list"
  st_open :: "bool list"
  st_log :: "bytes list"
  st_from :: "nat list"

definition no_streams :: Stream where
  "no_streams = \<lparr>st_broker = NewEventBroker, st_out = [], st_open = [], st_log = [], st_from = []\<rparr>"

definition buffer :: "nat \<Rightarrow> Stream \<Rightarrow> bytes list" where
  "buffer n s = ch_buf (br_heap (st_broker s) ! n)"

definition take_message :: "nat \<Rightarrow> Stream \<Rightarrow> Stream" where
  "take_message n s =
     (let b = st_broker s; c = br_heap b ! n in
      s\<lparr>st_broker := b\<lparr>br_heap := (br_heap b)[n := c\<lparr>ch_buf := List.tl (ch_buf c)\<rparr>]\<rparr>\<rparr>)"

definition connected_text :: bytes where
  "connected_text = event_text ''connected'' (''{'' @ [CHR 0x22] @ ''status'' @ [CHR 0x22] @ '':'' @
     [CHR 0x22] @ ''connected'' @ [CHR 0x22] @ ''}'')"

text \<open>
  What \<open>ServeHTTP\<close> begins with: an error with its status if the connection cannot be flushed, else a
  channel, the header lines and the first event.
\<close>

definition stream_headers :: "(bytes \<times> bytes) list" where
  "stream_headers = [(''Content-Type'', ''text/event-stream''), (''Cache-Control'', ''no-cache''),
     (''Connection'', ''keep-alive''), (''Access-Control-Allow-Origin'', ''*'')]"

definition open_stream ::
  "bool \<Rightarrow> EventBroker \<Rightarrow> (bytes \<times> nat) + (nat \<times> EventBroker \<times> (bytes \<times> bytes) list \<times> bytes)" where
  "open_stream flushes b =
     (if flushes then (case Subscribe b of (ch, b) \<Rightarrow> Inr (ch, b, stream_headers, connected_text))
      else Inl (''Streaming unsupported'', 500))"

lemma open_stream_Inr [simp]:
  "open_stream f b = Inr (n, b', hs, first) \<longleftrightarrow>
     f \<and> Subscribe b = (n, b') \<and> hs = stream_headers \<and> first = connected_text"
  by (auto simp: open_stream_def split: prod.splits)

text \<open>
  The steps of \<open>ServeHTTP\<close>: a request subscribes and gets the first event; then, as long as it is
  open, a message is taken from the buffer and written, or the write fails, or the request ends;
  in the last two cases the handler unsubscribes.  A broadcast may come between any two steps.
\<close>

inductive sse_step :: "Stream \<Rightarrow> Stream \<Rightarrow> bool" where
  connect: "open_stream True (st_broker s) = Inr (n, b, headers, first) \<Longrightarrow>
     sse_step s (s\<lparr>st_broker := b, st_out := st_out s @ [[first]], st_open := st_open s @ [True],
                   st_from := st_from s @ [length (st_log s)]\<rparr>)"
| deliver: "n < length (st_open s) \<Longrightarrow> st_open s ! n \<Longrightarrow> buffer n s = m # ms \<Longrightarrow>
     sse_step s ((take_message n s)\<lparr>st_out := (st_out s)[n := st_out s ! n @ [m]]\<rparr>)"
| lose: "n < length (st_open s) \<Longrightarrow> st_open s ! n \<Longrightarrow> buffer n s = m # ms \<Longrightarrow>
     Unsubscribe n (st_broker (take_message n s)) = Ret b \<Longrightarrow>
     sse_step s (s\<lparr>st_broker := b, st_open := (st_open s)[n := False]\<rparr>)"
| leave: "n < length (st_open s) \<Longrightarrow> st_open s ! n \<Longrightarrow> Unsubscribe n (st_broker s) = Ret b \<Longrightarrow>
     sse_step s (s\<lparr>st_broker := b, st_open := (st_open s)[n := False]\<rparr>)"
| publish: "Broadcast eventType payload (st_broker s) = Ret b \<Longrightarrow>
     sse_step s (s\<lparr>st_broker := b, st_log := st_log s @
       (case payload of None \<Rightarrow> [] | Some p \<Rightarrow> [event_text eventType p])\<rparr>)"

abbreviation sse_reachable :: "Stream \<Rightarrow> bool" where
  "sse_reachable \<equiv> reach ((=) no_streams) sse_step"

lemma sse_start: "sse_reachable no_streams"
  by (rule reach_start) (rule refl)

section \<open>The invariant\<close>

text \<open>
  The subscribed channels are those of the open connections, and none of them is closed.  What
  an open connection was sent and has buffered is a part of the log since it subscribed, in order,
  and all of it unless more than the capacity was broadcast.
\<close>

definition broker_inv :: "Stream \<Rightarrow> bool" where
  "broker_inv s \<longleftrightarrow>
     (let h = br_heap (st_broker s) in
      length h = length (st_open s) \<and> length (st_out s) = length (st_open s) \<and>
      length (st_from s) = length (st_open s) \<and> distinct (br_clients (st_broker s)) \<and>
      set (br_clients (st_broker s)) = {n. n < length (st_open s) \<and> st_open s ! n} \<and>
      (\<forall>n < length (st_open s). ch_closed (h ! n) \<longleftrightarrow> \<not> st_open s ! n))"

definition stream_inv :: "Stream \<Rightarrow> nat \<Rightarrow> bool" where
  "stream_inv s n \<longleftrightarrow>
     length (buffer n s) \<le> capacity \<and> st_from s ! n \<le> length (st_log s) \<and>
     (\<exists>got. st_out s ! n = connected_text # got \<and>
        subseq (got @ buffer n s) (drop (st_from s ! n) (st_log s)) \<and>
        (st_open s ! n \<longrightarrow> length (st_log s) - st_from s ! n \<le> capacity \<longrightarrow>
           got @ buffer n s = drop (st_from s ! n) (st_log s)))"

text \<open>Sending to channels that are all open never panics and extends each buffer that has room.\<close>

definition extended_buf :: "bytes \<Rightarrow> bytes list \<Rightarrow> bytes list" where
  "extended_buf m buf = (if length buf < capacity then buf @ [m] else buf)"

lemma send_all_open:
  assumes "distinct chs" and "\<forall>ch \<in> set chs. ch < length heap \<and> \<not> ch_closed (heap ! ch)"
  shows "\<exists>heap'. send_all m chs heap = Ret heap' \<and> length heap' = length heap \<and>
    (\<forall>n < length heap. heap' ! n = (if n \<in> set chs
       then (heap ! n)\<lparr>ch_buf := extended_buf m (ch_buf (heap ! n))\<rparr> else heap ! n))"
  using assms
proof (induction chs arbitrary: heap)
  case (Cons ch chs)
  let ?h = "heap[ch := (heap ! ch)\<lparr>ch_buf := extended_buf m (ch_buf (heap ! ch))\<rparr>]"
  have ch: "ch < length heap" "\<not> ch_closed (heap ! ch)" using Cons.prems(2) by simp_all
  have s: "try_send m ch heap = Ret ?h"
    using ch by (simp add: try_send_def Let_def extended_buf_def)
  have "\<forall>c \<in> set chs. c < length ?h \<and> \<not> ch_closed (?h ! c)"
    using Cons.prems by (auto simp: nth_list_update)
  from Cons.IH [OF _ this] Cons.prems(1) obtain heap' where
    "send_all m chs ?h = Ret heap'" "length heap' = length heap"
    "\<forall>n < length heap. heap' ! n = (if n \<in> set chs
       then (?h ! n)\<lparr>ch_buf := extended_buf m (ch_buf (?h ! n))\<rparr> else ?h ! n)" by auto
  with s ch Cons.prems(1) show ?case by (auto simp: nth_list_update)
qed simp

lemma Broadcast_open:
  assumes "broker_inv s"
  shows "\<exists>heap. Broadcast t (Some p) (st_broker s) = Ret ((st_broker s)\<lparr>br_heap := heap\<rparr>) \<and>
    length heap = length (st_open s) \<and>
    (\<forall>n < length (st_open s). heap ! n = (let c = br_heap (st_broker s) ! n in
       if st_open s ! n then c\<lparr>ch_buf := extended_buf (event_text t p) (ch_buf c)\<rparr> else c))"
proof -
  from assms have "distinct (br_clients (st_broker s))"
    "\<forall>ch \<in> set (br_clients (st_broker s)). ch < length (br_heap (st_broker s)) \<and> \<not> ch_closed (br_heap (st_broker s) ! ch)"
    "set (br_clients (st_broker s)) = {n. n < length (st_open s) \<and> st_open s ! n}"
    "length (br_heap (st_broker s)) = length (st_open s)"
    by (auto simp: broker_inv_def Let_def)
  with send_all_open [OF this(1,2), of "event_text t p"] show ?thesis
    by (auto simp: Broadcast_def Let_def)
qed

lemma Unsubscribe_open:
  assumes "broker_inv s" and "n < length (st_open s)" and "st_open s ! n"
  shows "Unsubscribe n (st_broker s) = Ret \<lparr>br_heap = (br_heap (st_broker s))
      [n := (br_heap (st_broker s) ! n)\<lparr>ch_closed := True\<rparr>], br_clients = remove1 n (br_clients (st_broker s))\<rparr>"
  using assms by (simp add: broker_inv_def Let_def Unsubscribe_def close_channel_def)

lemma take_message_inv: "broker_inv s \<Longrightarrow> n < length (st_open s) \<Longrightarrow> broker_inv (take_message n s)"
  by (auto simp: broker_inv_def take_message_def Let_def nth_list_update)

lemma buffer_take: "n < length (br_heap (st_broker s)) \<Longrightarrow>
    buffer k (take_message n s) = (if k = n then List.tl (buffer n s) else buffer k s)"
  by (simp add: buffer_def take_message_def Let_def nth_list_update)

lemma broker_inv_close:
  assumes "broker_inv s" and "n < length (st_open s)" and "st_open s ! n" and "Unsubscribe n (st_broker s) = Ret b"
  shows "broker_inv (s\<lparr>st_broker := b, st_open := (st_open s)[n := False]\<rparr>)"
  using assms Unsubscribe_open [OF assms(1-3)]
  by (auto simp: broker_inv_def Let_def nth_list_update)

lemma broker_inv_step: "sse_step s t \<Longrightarrow> broker_inv s \<Longrightarrow> broker_inv t"
proof (induction rule: sse_step.induct)
  case (connect s n b headers first)
  then show ?case by (auto simp: broker_inv_def Let_def Subscribe_def nth_append less_Suc_eq)
next
  case (deliver n s m ms)
  from take_message_inv [OF deliver(4,1)] show ?case by (simp add: broker_inv_def take_message_def Let_def)
next
  case (lose n s m ms b)
  have "broker_inv (take_message n s)" using take_message_inv lose by blast
  from broker_inv_close [OF this] lose show ?case by (simp add: broker_inv_def take_message_def Let_def)
next
  case (leave n s b)
  then show ?case using broker_inv_close by blast
next
  case (publish t p s b)
  show ?case
  proof (cases p)
    case None
    with publish show ?thesis by (simp add: broker_inv_def Let_def Broadcast_def)
  next
    case (Some x)
    with Broadcast_open [OF publish(2), of t x] publish obtain heap where
      "b = (st_broker s)\<lparr>br_heap := heap\<rparr>" "length heap = length (st_open s)"
      "\<forall>n < length (st_open s). ch_closed (heap ! n) = ch_closed (br_heap (st_broker s) ! n)"
      by (auto simp: Let_def)
    with publish(2) show ?thesis by (simp add: broker_inv_def Let_def)
  qed
qed

text \<open>One broadcast, seen by one stream.\<close>

lemma stream_inv_publish:
  assumes "stream_inv s n" and "st_open s ! n"
    and "buffer n t = extended_buf m (buffer n s)" and "st_out t ! n = st_out s ! n" and "st_from t ! n = st_from s ! n"
    and "st_open t ! n" and "st_log t = st_log s @ [m]"
  shows "stream_inv t n"
proof -
  from assms(1,2) obtain got where g: "length (buffer n s) \<le> capacity" "st_from s ! n \<le> length (st_log s)"
    "st_out s ! n = connected_text # got" "subseq (got @ buffer n s) (drop (st_from s ! n) (st_log s))"
    "length (st_log s) - st_from s ! n \<le> capacity \<longrightarrow> got @ buffer n s = drop (st_from s ! n) (st_log s)"
    by (auto simp: stream_inv_def)
  have dr: "drop (st_from s ! n) (st_log s @ [m]) = drop (st_from s ! n) (st_log s) @ [m]" using g(2) by simp
  have "subseq (got @ extended_buf m (buffer n s)) (drop (st_from s ! n) (st_log s) @ [m])"
    using g(4) subseq_append_iff by (auto simp: extended_buf_def list_emb_append_mono [of _ _ _ "[m]" "[m]"] subseq_append
        simp flip: append_assoc)
  moreover have "got @ extended_buf m (buffer n s) = drop (st_from s ! n) (st_log s) @ [m]"
    if "Suc (length (st_log s)) - st_from s ! n \<le> capacity"
  proof -
    from that g(2) have l: "length (st_log s) - st_from s ! n < capacity" by simp
    with g(5) have eq: "got @ buffer n s = drop (st_from s ! n) (st_log s)" by simp
    then have "length (buffer n s) \<le> length (st_log s) - st_from s ! n" by (metis length_append length_drop le_add2)
    with l eq show ?thesis by (simp add: extended_buf_def flip: append_assoc)
  qed
  ultimately show ?thesis using g(1-3) assms(3-7) dr
    by (auto simp: stream_inv_def extended_buf_def split: if_splits)
qed

text \<open>A stream that a step does not touch.\<close>

lemma stream_inv_same:
  assumes "stream_inv s n" and "buffer n t = buffer n s" and "st_out t ! n = st_out s ! n"
    and "st_from t ! n = st_from s ! n" and "st_open t ! n = st_open s ! n" and "st_log t = st_log s"
  shows "stream_inv t n"
  using assms by (simp add: stream_inv_def)

text \<open>A closed stream keeps what it had, however long the log grows.\<close>

lemma stream_inv_closed:
  assumes "stream_inv s n" and "subseq (buffer n t) (buffer n s)" and "st_out t ! n = st_out s ! n"
    and "st_from t ! n = st_from s ! n" and "\<not> st_open t ! n" and "st_log t = st_log s @ ms"
  shows "stream_inv t n"
proof -
  from assms(1) obtain got where g: "length (buffer n s) \<le> capacity" "st_from s ! n \<le> length (st_log s)"
    "st_out s ! n = connected_text # got" "subseq (got @ buffer n s) (drop (st_from s ! n) (st_log s))"
    by (auto simp: stream_inv_def)
  have "subseq (got @ buffer n t) (got @ buffer n s)" by (rule list_emb_append_mono [OF subseq_order.refl assms(2)])
  then have "subseq (got @ buffer n t) (drop (st_from s ! n) (st_log s) @ ms)"
    using g(4) by (meson subseq_order.trans list_emb_append2 subseq_rev_drop_many)
  moreover have "length (buffer n t) \<le> length (buffer n s)" using assms(2) by (rule list_emb_length)
  ultimately show ?thesis using g(1-3) assms(3-6) by (auto simp: stream_inv_def)
qed

lemma stream_inv_deliver:
  assumes "stream_inv s n" and "buffer n s = m # ms" and "buffer n t = ms" and "st_out t ! n = st_out s ! n @ [m]"
    and "st_from t ! n = st_from s ! n" and "st_open t ! n = st_open s ! n" and "st_log t = st_log s"
  shows "stream_inv t n"
  using assms by (auto simp: stream_inv_def)

definition sse_inv :: "Stream \<Rightarrow> bool" where
  "sse_inv s \<longleftrightarrow> broker_inv s \<and> (\<forall>n < length (st_open s). stream_inv s n)"

lemma broker_inv_lengths: "broker_inv s \<Longrightarrow> length (br_heap (st_broker s)) = length (st_open s) \<and>
    length (st_out s) = length (st_open s) \<and> length (st_from s) = length (st_open s)"
  by (simp add: broker_inv_def Let_def)

lemma sse_inv_step: "sse_step s t \<Longrightarrow> sse_inv s \<Longrightarrow> sse_inv t"
proof -
  assume st: "sse_step s t" and inv: "sse_inv s"
  then have b: "broker_inv s" "broker_inv t" and old: "\<And>k. k < length (st_open s) \<Longrightarrow> stream_inv s k"
    using broker_inv_step [OF st] by (auto simp: sse_inv_def)
  note len = broker_inv_lengths [OF b(1)]
  from st have "\<forall>k < length (st_open t). stream_inv t k"
  proof cases
    case (connect n br headers first)
    show ?thesis
    proof (intro allI impI)
      fix k assume k: "k < length (st_open t)"
      show "stream_inv t k"
      proof (cases "k < length (st_open s)")
        case True
        have "buffer k t = buffer k s" using connect len True by (auto simp: buffer_def Subscribe_def Let_def nth_append)
        with True connect len show ?thesis by (intro stream_inv_same [OF old [OF True]]) (simp_all add: nth_append)
      next
        case False
        with k connect have "k = length (st_open s)" by simp
        with connect len show ?thesis
          by (auto simp: stream_inv_def buffer_def Subscribe_def Let_def nth_append)
      qed
    qed
  next
    case (deliver n m ms)
    show ?thesis
    proof (intro allI impI)
      fix k assume "k < length (st_open t)"
      then have k: "k < length (st_open s)" using deliver(1) by (simp add: take_message_def Let_def)
      have bf: "buffer k t = (if k = n then ms else buffer k s)"
        using buffer_take [of n s k] deliver len by (simp add: buffer_def)
      show "stream_inv t k"
      proof (cases "k = n")
        case True
        show ?thesis unfolding True
          by (rule stream_inv_deliver [OF old [OF deliver(2)] deliver(4)])
            (use bf True deliver len in \<open>simp_all add: take_message_def Let_def\<close>)
      next
        case False
        show ?thesis
          by (rule stream_inv_same [OF old [OF k]]) (use bf False deliver in \<open>simp_all add: take_message_def Let_def\<close>)
      qed
    qed
  next
    case (lose n m ms br)
    have u: "br = \<lparr>br_heap = (br_heap (st_broker (take_message n s)))
        [n := (br_heap (st_broker (take_message n s)) ! n)\<lparr>ch_closed := True\<rparr>],
        br_clients = remove1 n (br_clients (st_broker (take_message n s)))\<rparr>"
      using Unsubscribe_open [OF take_message_inv [OF b(1) lose(2)], of n] lose by (simp add: take_message_def Let_def)
    show ?thesis
    proof (intro allI impI)
      fix k assume "k < length (st_open t)"
      then have k: "k < length (st_open s)" using lose(1) by simp
      have bf: "buffer k t = (if k = n then ms else buffer k s)"
        using buffer_take [of n s k] lose u len by (auto simp: buffer_def take_message_def Let_def nth_list_update)
      show "stream_inv t k"
      proof (cases "k = n")
        case True
        have "subseq (buffer n t) (buffer n s)" using bf True lose(4) by (auto intro: list_emb_Cons)
        then show ?thesis unfolding True
          by (rule stream_inv_closed [OF old [OF lose(2)], where ms = "[]"]) (use lose in simp_all)
      next
        case False
        show ?thesis by (rule stream_inv_same [OF old [OF k]]) (use bf False lose in simp_all)
      qed
    qed
  next
    case (leave n br)
    note u = Unsubscribe_open [OF b(1) leave(2,3)]
    show ?thesis
    proof (intro allI impI)
      fix k assume "k < length (st_open t)"
      then have k: "k < length (st_open s)" using leave(1) by simp
      have bf: "buffer k t = buffer k s"
        using leave u len by (auto simp: buffer_def nth_list_update)
      show "stream_inv t k"
      proof (cases "k = n")
        case True
        show ?thesis unfolding True
          by (rule stream_inv_closed [OF old [OF leave(2)], where ms = "[]"]) (use leave bf True in simp_all)
      next
        case False
        show ?thesis by (rule stream_inv_same [OF old [OF k]]) (use bf False leave in simp_all)
      qed
    qed
  next
    case (publish ty pay br)
    show ?thesis
    proof (cases pay)
      case None
      with publish have "t = s" by (simp add: Broadcast_def)
      then show ?thesis using old by simp
    next
      case (Some x)
      from Broadcast_open [OF b(1), of ty x] publish Some obtain heap where h:
        "br = (st_broker s)\<lparr>br_heap := heap\<rparr>"
        "\<forall>n < length (st_open s). heap ! n = (let c = br_heap (st_broker s) ! n in
          if st_open s ! n then c\<lparr>ch_buf := extended_buf (event_text ty x) (ch_buf c)\<rparr> else c)" by auto
      show ?thesis
      proof (intro allI impI)
        fix k assume "k < length (st_open t)"
        then have k: "k < length (st_open s)" using publish(1) by simp
        have bf: "buffer k t = (if st_open s ! k then extended_buf (event_text ty x) (buffer k s) else buffer k s)"
          using h k publish(1) by (simp add: buffer_def Let_def)
        show "stream_inv t k"
        proof (cases "st_open s ! k")
          case True
          show ?thesis by (rule stream_inv_publish [OF old [OF k] True]) (use bf True publish Some in simp_all)
        next
          case False
          show ?thesis by (rule stream_inv_closed [OF old [OF k], where ms = "[event_text ty x]"])
              (use bf False publish Some in simp_all)
        qed
      qed
    qed
  qed
  with b(2) show "sse_inv t" by (simp add: sse_inv_def)
qed

interpretation sse: invariant_of "(=) no_streams" sse_step sse_inv
proof
  show "sse_inv s" if "no_streams = s" for s
    using that by (auto simp: sse_inv_def broker_inv_def no_streams_def NewEventBroker_def Let_def)
qed (rule sse_inv_step)

lemma broker_never_panics:
  assumes "broker_inv s"
  shows "Broadcast t p (st_broker s) \<noteq> Panic \<and> Unsubscribe n (st_broker s) \<noteq> Panic"
proof
  show "Broadcast t p (st_broker s) \<noteq> Panic"
  proof (cases p)
    case (Some x)
    with Broadcast_open [OF assms, of t x] show ?thesis by auto
  qed (simp add: Broadcast_def)
  show "Unsubscribe n (st_broker s) \<noteq> Panic"
    using assms by (auto simp: Unsubscribe_def close_channel_def broker_inv_def Let_def)
qed

text \<open>
  C25. However requests, broadcasts, deliveries and disconnects interleave: the broker never sends to a
  closed channel and never closes one twice, no buffer exceeds 64 messages, and every connection
  gets, after the greeting, broadcast messages in order and none twice; as long as at most 64 were
  broadcast since it subscribed, it has lost none of them.
\<close>

theorem event_streams:
  assumes "sse_reachable s"
  shows "Broadcast t p (st_broker s) \<noteq> Panic \<and> Unsubscribe ch (st_broker s) \<noteq> Panic \<and>
    (\<forall>n < length (st_open s). length (buffer n s) \<le> 64 \<and>
      (\<exists>got. st_out s ! n = connected_text # got \<and>
         subseq (got @ buffer n s) (drop (st_from s ! n) (st_log s)) \<and>
         (st_open s ! n \<longrightarrow> length (st_log s) - st_from s ! n \<le> 64 \<longrightarrow>
            got @ buffer n s = drop (st_from s ! n) (st_log s))))"
proof -
  from sse.always [OF assms] have inv: "broker_inv s" "\<forall>n < length (st_open s). stream_inv s n"
    by (simp_all add: sse_inv_def)
  from inv(2) have "\<forall>n < length (st_open s). length (buffer n s) \<le> 64 \<and>
      (\<exists>got. st_out s ! n = connected_text # got \<and>
         subseq (got @ buffer n s) (drop (st_from s ! n) (st_log s)) \<and>
         (st_open s ! n \<longrightarrow> length (st_log s) - st_from s ! n \<le> 64 \<longrightarrow>
            got @ buffer n s = drop (st_from s ! n) (st_log s)))"
    unfolding stream_inv_def capacity_def by blast
  with broker_never_panics [OF inv(1), of t p ch] show ?thesis by blast
qed

lemma event_streams_witness:
  "\<exists>s. sse_reachable s \<and> st_log s = [event_text ''query'' ''x''] \<and> buffer 0 s = [event_text ''query'' ''x'']"
proof -
  let ?b1 = "snd (Subscribe NewEventBroker)"
  let ?s1 = "no_streams\<lparr>st_broker := ?b1, st_out := [[connected_text]], st_open := [True], st_from := [0]\<rparr>"
  let ?b2 = "\<lparr>br_heap = [\<lparr>ch_buf = [event_text ''query'' ''x''], ch_closed = False\<rparr>], br_clients = [0]\<rparr>"
  let ?s2 = "?s1\<lparr>st_broker := ?b2, st_log := [event_text ''query'' ''x'']\<rparr>"
  have "sse_step no_streams ?s1"
    using sse_step.connect [of no_streams 0 ?b1 stream_headers connected_text] by (simp add: no_streams_def Subscribe_def NewEventBroker_def Let_def)
  then have "sse_reachable ?s1" by (rule reach_step [OF sse_start])
  moreover have "Broadcast ''query'' (Some ''x'') (st_broker ?s1) = Ret ?b2"
    by (simp add: Broadcast_def Subscribe_def NewEventBroker_def try_send_def capacity_def Let_def)
  from sse_step.publish [OF this] have "sse_step ?s1 ?s2" by (simp add: no_streams_def)
  ultimately have r: "sse_reachable ?s2" by (rule reach_step)
  have "\<exists>got. st_out ?s2 ! 0 = connected_text # got \<and> got @ buffer 0 ?s2 = drop 0 (st_log ?s2)"
    using event_streams [OF r] by (simp add: no_streams_def)
  then have "buffer 0 ?s2 = [event_text ''query'' ''x'']" by (simp add: no_streams_def)
  with r show ?thesis by (intro exI [of _ ?s2] conjI) simp_all
qed

text \<open>
  Every buffered message can still be delivered: from any reachable state the handler of an open
  connection reaches, in as many steps as its buffer holds, a state in which the client has received
  all of it.
\<close>

theorem buffered_events_arrive:
  assumes "sse_reachable s" and "n < length (st_open s)" and "st_open s ! n"
  shows "\<exists>t. (sse_step ^^ length (buffer n s)) s t \<and> st_out t ! n = st_out s ! n @ buffer n s \<and> buffer n t = []"
  using assms
proof (induction "buffer n s" arbitrary: s)
  case Nil
  then show ?case by (intro exI [of _ s]) simp
next
  case (Cons m ms)
  let ?s1 = "(take_message n s)\<lparr>st_out := (st_out s)[n := st_out s ! n @ [m]]\<rparr>"
  have step: "sse_step s ?s1" by (rule sse_step.deliver [OF Cons.prems(2,3) Cons.hyps(2) [symmetric]])
  have len: "length (br_heap (st_broker s)) = length (st_open s)" "length (st_out s) = length (st_open s)"
    using sse.always [OF Cons.prems(1)] broker_inv_lengths by (simp_all add: sse_inv_def)
  have b: "buffer n ?s1 = ms"
    using buffer_take [of n s n] len Cons.prems(2) Cons.hyps(2) [symmetric] by (simp add: buffer_def)
  have o: "st_open ?s1 = st_open s" by (simp add: take_message_def Let_def)
  have "sse_reachable ?s1" by (rule reach_step [OF Cons.prems(1) step])
  from Cons.hyps(1) [OF b [symmetric] this] o Cons.prems(2,3) obtain t where
    t: "(sse_step ^^ length ms) ?s1 t" "st_out t ! n = st_out ?s1 ! n @ ms" "buffer n t = []"
    unfolding b by auto
  have "(sse_step ^^ Suc (length ms)) s t" using step t(1) by (rule relpowp_Suc_I2)
  with t(2,3) len Cons.prems(2) Cons.hyps(2) [symmetric] show ?case by auto
qed

lemma buffered_events_arrive_witness:
  "\<exists>s t. sse_reachable s \<and> (sse_step ^^ 0) s t \<and> st_out t ! 0 = [connected_text]"
proof -
  let ?s1 = "no_streams\<lparr>st_broker := snd (Subscribe NewEventBroker), st_out := [[connected_text]],
     st_open := [True], st_from := [0]\<rparr>"
  have "sse_step no_streams ?s1"
    using sse_step.connect [of no_streams 0 "snd (Subscribe NewEventBroker)" stream_headers connected_text]
    by (simp add: no_streams_def Subscribe_def NewEventBroker_def Let_def)
  then have r: "sse_reachable ?s1" by (rule reach_step [OF sse_start])
  have b: "buffer 0 ?s1 = []" by (simp add: buffer_def Subscribe_def NewEventBroker_def Let_def)
  from buffered_events_arrive [OF r, of 0, unfolded b] obtain t where
    "(sse_step ^^ 0) ?s1 t" "st_out t ! 0 = [connected_text]" by auto
  with r show ?thesis by blast
qed

end
