(* ===== verification/Admin.thy ===== *)
theory Admin
  imports Engine Events
begin

text \<open>
  \<open>internal/admin/api.go\<close>: the HTTP interface over the engine.  The parts of \<open>net/http\<close> and
  \<open>encoding/json\<close> are data: a request is its method, path and body, a response its status, content
  type and body, a JSON text the value it stands for; decoding a body is a parameter.  The
  event stream of \<open>GET /api/events\<close> is in theory \<open>Events\<close>.
\<close>

section \<open>Requests, responses and JSON\<close>

datatype json =
    JStr bytes | JInt int | JBool bool | JTime int | JArr "json list" | JObj "(bytes \<times> json) list"

datatype body =
    Json json | Plain bytes | File bytes
  | MovedTo bytes    \<comment> \<open>no body, and the path in the \<open>Location\<close> header\<close>

record Request =
  rq_method :: bytes
  rq_path :: bytes
  rq_body :: bytes

record Response =
  rs_code :: nat
  rs_type :: bytes
  rs_body :: body

definition respondJSON :: "nat \<Rightarrow> json \<Rightarrow> Response" where
  "respondJSON c data = \<lparr>rs_code = c, rs_type = ''application/json'', rs_body = Json data\<rparr>"

text \<open>\<open>http.Error\<close>.\<close>

definition http_error :: "bytes \<Rightarrow> nat \<Rightarrow> Response" where
  "http_error msg c =
     \<lparr>rs_code = c, rs_type = ''text/plain; charset=utf-8'', rs_body = Plain (msg @ [CHR 0x0A])\<rparr>"

text \<open>The JSON of the structs, with the fields that \<open>omitempty\<close> leaves out.\<close>

definition omit_empty :: "bytes \<Rightarrow> 'a list \<Rightarrow> ('a list \<Rightarrow> json) \<Rightarrow> (bytes \<times> json) list" where
  "omit_empty k xs f = (if xs = [] then [] else [(k, f xs)])"

definition omit_zero :: "bytes \<Rightarrow> int \<Rightarrow> (bytes \<times> json) list" where
  "omit_zero k n = (if n = 0 then [] else [(k, JInt n)])"

definition jstrs :: "bytes list \<Rightarrow> json" where
  "jstrs xs = JArr (map JStr xs)"

definition error_json :: "MockError \<Rightarrow> json" where
  "error_json e = JObj [(''code'', JStr (me_code e)), (''message'', JStr (me_message e)),
     (''severity'', JStr (me_severity e)), (''detail'', JStr (me_detail e)), (''hint'', JStr (me_hint e))]"

definition rule_json :: "Rule \<Rightarrow> json" where
  "rule_json r = JObj (omit_empty ''id'' (r_id r) JStr @ [(''query'', JStr (r_query r))] @
     omit_empty ''pattern'' (r_pattern r) JStr @ omit_empty ''params'' (r_params r) jstrs @
     omit_empty ''columns'' (r_columns r) jstrs @
     omit_empty ''types'' (r_types r) (\<lambda>ts. JArr (map (\<lambda>t. JInt (sint t)) ts)) @
     omit_empty ''rows'' (r_rows r) (\<lambda>rows. JArr (map jstrs rows)) @ omit_empty ''tag'' (r_tag r) JStr @
     (case r_error r of None \<Rightarrow> [] | Some e \<Rightarrow> [(''error'', error_json e)]) @
     omit_zero ''latency_ms'' (r_latency r) @ omit_zero ''jitter_ms'' (r_jitter r) @
     (if r_drop r then [(''drop_connection'', JBool True)] else []) @ omit_zero ''fail_after_n'' (r_fail_after r))"

definition log_json :: "QueryLog \<Rightarrow> json" where
  "log_json l = JObj ([(''timestamp'', JTime (l_time l)), (''query'', JStr (l_query l))] @
     omit_empty ''params'' (l_params l) jstrs @ omit_empty ''matched_rule_id'' (l_rule l) JStr)"

section \<open>The handlers\<close>

text \<open>\<open>ad_pg\<close>: active connections and total queries of the PostgreSQL server, if there is one.\<close>

record AdminServer =
  ad_engine :: Engine
  ad_pg :: "(int \<times> int) option"

definition NewAdminServer :: "Engine \<Rightarrow> (int \<times> int) option \<Rightarrow> AdminServer" where
  "NewAdminServer e pg = \<lparr>ad_engine = SetOnQueryHook True e, ad_pg = pg\<rparr>"

text \<open>
  \<open>Start\<close> binds the address and serves it with two timeouts, in milliseconds; the handlers it registers are
  those of \<open>route\<close> below.  \<open>bound\<close> is the address a listener reports.
\<close>

record HttpServer =
  hs_addr :: bytes
  hs_read_timeout :: nat
  hs_write_timeout :: nat
  hs_serving :: bool

definition AdminStart :: "(bytes \<Rightarrow> bytes option) \<Rightarrow> bytes \<Rightarrow> (bytes, HttpServer) outcome" where
  "AdminStart listen addr =
     (case listen addr of
        Some e \<Rightarrow> Err (''failed to bind admin API on '' @ addr @ '': '' @ e)
      | None \<Rightarrow> Ret \<lparr>hs_addr = addr, hs_read_timeout = 5000, hs_write_timeout = 5000, hs_serving = True\<rparr>)"

definition AdminAddr :: "(bytes \<Rightarrow> bytes) \<Rightarrow> bytes \<Rightarrow> HttpServer option \<Rightarrow> bytes" where
  "AdminAddr bound addr http = (case http of None \<Rightarrow> addr | Some h \<Rightarrow> bound (hs_addr h))"

text \<open>
  Stop, if Start was called: \<open>shutdown\<close> is the result of \<open>http.Server.Shutdown\<close> within the given number of milliseconds,
  which closes the listener also when the time runs out.
\<close>

definition AdminStop :: "(nat \<Rightarrow> bytes option) \<Rightarrow> HttpServer option \<Rightarrow> bytes option \<times> HttpServer option" where
  "AdminStop shutdown http =
     (case http of
        None \<Rightarrow> (None, None)
      | Some h \<Rightarrow> (shutdown 2000, Some (h\<lparr>hs_serving := False\<rparr>)))"

definition handleHealth :: Response where
  "handleHealth = respondJSON 200 (JObj [(''status'', JStr ''healthy''), (''version'', JStr ''1.0.0''),
     (''service'', JStr ''pgwire-mock'')])"

definition metric :: "bytes \<Rightarrow> bytes \<Rightarrow> bytes \<Rightarrow> int \<Rightarrow> bytes" where
  "metric name help kind n =
     ''# HELP '' @ name @ '' '' @ help @ [CHR 0x0A] @ ''# TYPE '' @ name @ '' '' @ kind @ [CHR 0x0A] @
     name @ '' '' @ Itoa n @ [CHR 0x0A]"

definition handleMetrics :: "AdminServer \<Rightarrow> Response" where
  "handleMetrics s =
     (let (activeConns, totalQueries) = (case ad_pg s of None \<Rightarrow> (0, 0) | Some c \<Rightarrow> c);
          rulesCount = int (length (GetRules (ad_engine s)))
      in \<lparr>rs_code = 200, rs_type = ''text/plain; version=0.0.4'', rs_body = Plain (
           metric ''pgwire_active_connections'' ''Current active PostgreSQL client connections'' ''gauge'' activeConns @
           metric ''pgwire_total_queries'' ''Cumulative total queries processed'' ''counter'' totalQueries @
           metric ''pgwire_mock_rules_total'' ''Active mock rules registered'' ''gauge'' rulesCount)\<rparr>)"

definition handleGetRules :: "AdminServer \<Rightarrow> Response" where
  "handleGetRules s =
     (let rules = GetRules (ad_engine s) in
      respondJSON 200 (JObj [(''rules'', JArr (map rule_json rules)), (''count'', JInt (int (length rules)))]))"

text \<open>\<open>decoded\<close> is the decoded body or the text of the error, \<open>now\<close> the clock in nanoseconds.\<close>

definition posted_rule :: "int \<Rightarrow> Rule \<Rightarrow> Rule" where
  "posted_rule now rule =
     complete_types (complete_tag
       (if r_id rule = [] then rule\<lparr>r_id := ''rule-dyn-'' @ Itoa now\<rparr> else rule))"

definition handleAddRule :: "int \<Rightarrow> bytes + Rule \<Rightarrow> AdminServer \<Rightarrow> Response \<times> AdminServer" where
  "handleAddRule now decoded s =
     (case decoded of
        Inl err \<Rightarrow> (http_error (''invalid JSON payload: '' @ err) 400, s)
      | Inr rule \<Rightarrow>
          (let rule = posted_rule now rule in
           (respondJSON 201 (rule_json rule), s\<lparr>ad_engine := PrependRule rule (ad_engine s)\<rparr>)))"

definition handleDeleteRule :: "go_rt \<Rightarrow> bytes \<Rightarrow> AdminServer \<Rightarrow> Response \<times> AdminServer" where
  "handleDeleteRule rt path s =
     (let ident = TrimPrefix path ''/api/rules/'' in
      if ident = [] then (http_error ''missing rule ID in path'' 400, s)
      else (case DeleteRule ident (ad_engine s) of
          (False, _) \<Rightarrow> (http_error (''rule '' @ quoted rt ident @ '' not found'') 404, s)
        | (True, e) \<Rightarrow> (respondJSON 200 (JObj [(''deleted'', JStr ident)]), s\<lparr>ad_engine := e\<rparr>)))"

definition handleGetQueries :: "AdminServer \<Rightarrow> Response" where
  "handleGetQueries s =
     (let logs = GetLogs (ad_engine s) in
      respondJSON 200 (JObj [(''queries'', JArr (map log_json logs)), (''count'', JInt (int (length logs)))]))"

record AssertRequest =
  as_query :: bytes
  as_count :: "int option"
  as_min :: "int option"
  as_params :: "bytes list"

text \<open>Whether a logged call counts, and whether its parameters are the expected ones.\<close>

definition asserted_call :: "go_rt \<Rightarrow> bytes \<Rightarrow> QueryLog \<Rightarrow> bool" where
  "asserted_call rt query l =
     (let normExpected = NormalizeSQL query; normActual = NormalizeSQL (l_query l) in
      query = [] \<or> EqualFold rt normExpected normActual \<or>
      Contains (ToUpper rt normActual) (ToUpper rt normExpected))"

definition exact_params :: "bytes list \<Rightarrow> bytes list \<Rightarrow> bool" where
  "exact_params expected actual \<longleftrightarrow>
     length expected = length actual \<and> list_all (\<lambda>i. expected ! i = actual ! i) [0..<length expected]"

fun count_calls :: "go_rt \<Rightarrow> AssertRequest \<Rightarrow> QueryLog list \<Rightarrow> nat \<times> bool \<Rightarrow> nat \<times> bool" where
  "count_calls rt req [] acc = acc"
| "count_calls rt req (l # logs) (matchingCalls, found) =
     (if asserted_call rt (as_query req) l then
        count_calls rt req logs (matchingCalls + 1,
          if 0 < length (as_params req) \<and> exact_params (as_params req) (l_params l) then True else found)
      else count_calls rt req logs (matchingCalls, found))"

text \<open>\<open>%v\<close> of a list of strings.\<close>

fun join_blank :: "bytes list \<Rightarrow> bytes" where
  "join_blank [] = []"
| "join_blank [x] = x"
| "join_blank (x # y # xs) = x @ '' '' @ join_blank (y # xs)"

definition failed_assert :: "nat \<Rightarrow> bytes \<Rightarrow> Response" where
  "failed_assert n msg = respondJSON 200 (JObj [(''passed'', JBool False), (''actual_count'', JInt (int n)),
     (''error'', JStr (''assertion failed: '' @ msg))])"

text \<open>The three checks, each with the text of its failure.\<close>

definition count_error :: "go_rt \<Rightarrow> AssertRequest \<Rightarrow> nat \<Rightarrow> bytes option" where
  "count_error rt req matchingCalls =
     (case as_count req of
        Some n \<Rightarrow>
          if int matchingCalls \<noteq> n
          then Some (''expected '' @ Itoa n @ '' calls for '' @ quoted rt (as_query req) @ '', but got '' @
            Itoa (int matchingCalls))
          else None
      | None \<Rightarrow> None)"

definition min_error :: "go_rt \<Rightarrow> AssertRequest \<Rightarrow> nat \<Rightarrow> bytes option" where
  "min_error rt req matchingCalls =
     (case as_min req of
        Some n \<Rightarrow>
          if int matchingCalls < n
          then Some (''expected at least '' @ Itoa n @ '' calls for '' @ quoted rt (as_query req) @ '', but got '' @
            Itoa (int matchingCalls))
          else None
      | None \<Rightarrow> None)"

definition params_error :: "go_rt \<Rightarrow> AssertRequest \<Rightarrow> bool \<Rightarrow> bytes option" where
  "params_error rt req foundExactParams =
     (if 0 < length (as_params req) \<and> \<not> foundExactParams
      then Some (''parameters ['' @ join_blank (as_params req) @ ''] were not matched in any execution of '' @
        quoted rt (as_query req))
      else None)"

definition handleAssert :: "go_rt \<Rightarrow> bytes + AssertRequest \<Rightarrow> AdminServer \<Rightarrow> Response" where
  "handleAssert rt decoded s =
     (case decoded of
        Inl err \<Rightarrow> http_error (''invalid assert payload: '' @ err) 400
      | Inr req \<Rightarrow>
          (case count_calls rt req (GetLogs (ad_engine s)) (0, False) of
             (matchingCalls, foundExactParams) \<Rightarrow>
               (case count_error rt req matchingCalls of
                  Some msg \<Rightarrow> failed_assert matchingCalls msg
                | None \<Rightarrow>
               (case min_error rt req matchingCalls of
                  Some msg \<Rightarrow> failed_assert matchingCalls msg
                | None \<Rightarrow>
               (case params_error rt req foundExactParams of
                  Some msg \<Rightarrow> failed_assert matchingCalls msg
                | None \<Rightarrow> respondJSON 200 (JObj [(''passed'', JBool True),
                    (''actual_count'', JInt (int matchingCalls))]))))))"

definition handleReset :: "AdminServer \<Rightarrow> Response \<times> AdminServer" where
  "handleReset s =
     (respondJSON 200 (JObj [(''status'', JStr ''cleared'')]), s\<lparr>ad_engine := ResetLogs (ad_engine s)\<rparr>)"

text \<open>The embedded page, \<open>None\<close> if it cannot be read.\<close>

definition handleDashboard :: "bytes option \<Rightarrow> Response" where
  "handleDashboard page =
     (case page of
        None \<Rightarrow> http_error ''dashboard unavailable'' 404
      | Some data \<Rightarrow> \<lparr>rs_code = 200, rs_type = ''text/html; charset=utf-8'', rs_body = File data\<rparr>)"

section \<open>Routes\<close>

datatype endpoint =
    Dashboard | EventStream | Health | Metrics | ListRules | PostRule | RemoveRule | Queries | Assert | ClearLogs | AddSlash

text \<open>
  The patterns \<open>Start\<close> registers, as \<open>ServeMux\<close> resolves them for a cleaned path: a GET
  pattern also serves HEAD, the longer pattern wins, a path that matches only with a slash at its end is
  redirected there, and since \<open>GET /\<close> matches every path, what matches no pattern is answered 405.
\<close>

definition route :: "bytes \<Rightarrow> bytes \<Rightarrow> endpoint option" where
  "route meth path =
     (if meth = ''GET'' \<or> meth = ''HEAD'' then
        Some (if path = ''/api/events'' then EventStream
              else if path = ''/health'' then Health
              else if path = ''/metrics'' then Metrics
              else if path = ''/api/rules'' then ListRules
              else if path = ''/api/queries'' then Queries
              else Dashboard)
      else if meth = ''POST'' \<and> path = ''/api/rules'' then Some PostRule
      else if meth = ''POST'' \<and> path = ''/api/assert'' then Some Assert
      else if meth = ''POST'' \<and> path = ''/api/reset'' then Some ClearLogs
      else if meth = ''DELETE'' \<and> HasPrefix path ''/api/rules/'' then Some RemoveRule
      else if meth = ''DELETE'' \<and> path = ''/api/rules'' then Some AddSlash
      else None)"

text \<open>A request other than for the event stream; \<open>dr\<close> and \<open>da\<close> decode the body.\<close>

definition handle_request ::
  "go_rt \<Rightarrow> (bytes \<Rightarrow> bytes + Rule) \<Rightarrow> (bytes \<Rightarrow> bytes + AssertRequest) \<Rightarrow> bytes option \<Rightarrow> int \<Rightarrow>
    Request \<Rightarrow> AdminServer \<Rightarrow> Response \<times> AdminServer" where
  "handle_request rt dr da page now rq s =
     (case route (rq_method rq) (rq_path rq) of
        None \<Rightarrow> (http_error ''Method Not Allowed'' 405, s)
      | Some PostRule \<Rightarrow> handleAddRule now (dr (rq_body rq)) s
      | Some RemoveRule \<Rightarrow> handleDeleteRule rt (rq_path rq) s
      | Some ClearLogs \<Rightarrow> handleReset s
      | Some AddSlash \<Rightarrow> (\<lparr>rs_code = 301, rs_type = [], rs_body = MovedTo (rq_path rq @ ''/'')\<rparr>, s)
      | Some Assert \<Rightarrow> (handleAssert rt (da (rq_body rq)) s, s)
      | Some Health \<Rightarrow> (handleHealth, s)
      | Some Metrics \<Rightarrow> (handleMetrics s, s)
      | Some ListRules \<Rightarrow> (handleGetRules s, s)
      | Some Queries \<Rightarrow> (handleGetQueries s, s)
      | Some _ \<Rightarrow> (handleDashboard page, s))"

section \<open>Assertions\<close>

text \<open>The calls an assertion is about, and the verdict on them.\<close>

definition asserted_calls :: "go_rt \<Rightarrow> AssertRequest \<Rightarrow> AdminServer \<Rightarrow> QueryLog list" where
  "asserted_calls rt req s = filter (asserted_call rt (as_query req)) (e_logs (ad_engine s))"

definition assertion_holds :: "AssertRequest \<Rightarrow> QueryLog list \<Rightarrow> bool" where
  "assertion_holds req calls \<longleftrightarrow>
     (\<forall>n. as_count req = Some n \<longrightarrow> int (length calls) = n) \<and>
     (\<forall>n. as_min req = Some n \<longrightarrow> n \<le> int (length calls)) \<and>
     (as_params req \<noteq> [] \<longrightarrow> (\<exists>l \<in> set calls. l_params l = as_params req))"

lemma exact_params_eq: "exact_params xs ys \<longleftrightarrow> xs = ys"
  unfolding exact_params_def list_all_iff list_eq_iff_nth_eq [of xs ys] by auto

lemma count_calls_filter:
  "count_calls rt req logs (n, b) =
     (let calls = filter (asserted_call rt (as_query req)) logs in
      (n + length calls, b \<or> as_params req \<noteq> [] \<and> (\<exists>l \<in> set calls. l_params l = as_params req)))"
  by (induction logs arbitrary: n b) (auto simp: exact_params_eq Let_def)

text \<open>The two fields of a verdict that a test runner reads.\<close>

definition verdict :: "Response \<Rightarrow> (bool \<times> int) option" where
  "verdict r = (case rs_body r of
     Json (JObj ((_, JBool passed) # (_, JInt n) # _)) \<Rightarrow> Some (passed, n)
   | _ \<Rightarrow> None)"

lemma verdict_failed: "verdict (failed_assert n msg) = Some (False, int n) \<and> rs_code (failed_assert n msg) = 200"
  by (simp add: verdict_def failed_assert_def respondJSON_def)

lemma verdict_passed:
  "verdict (respondJSON 200 (JObj [(''passed'', JBool True), (''actual_count'', JInt n)])) = Some (True, n) \<and>
   rs_code (respondJSON 200 (JObj [(''passed'', JBool True), (''actual_count'', JInt n)])) = 200"
  by (simp add: verdict_def respondJSON_def)

text \<open>
  C26. An assertion passes exactly when the logged calls that match its query (the same up to case
  and layout, or containing it) meet every condition it states: the exact number, the minimum, and one call with
  exactly these parameters.  The verdict always reports the number of those calls, with status 200.
\<close>

theorem handleAssert_verdict:
  "verdict (handleAssert rt (Inr req) s) =
     Some (assertion_holds req (asserted_calls rt req s), int (length (asserted_calls rt req s))) \<and>
   rs_code (handleAssert rt (Inr req) s) = 200"
proof -
  let ?n = "length (asserted_calls rt req s)"
    and ?f = "as_params req \<noteq> [] \<and> (\<exists>l \<in> set (asserted_calls rt req s). l_params l = as_params req)"
  have counted: "count_calls rt req (GetLogs (ad_engine s)) (0, False) = (?n, ?f)"
    by (simp add: count_calls_filter GetLogs_def asserted_calls_def Let_def)
  have holds: "assertion_holds req (asserted_calls rt req s) \<longleftrightarrow>
      count_error rt req ?n = None \<and> min_error rt req ?n = None \<and> params_error rt req ?f = None"
    by (auto simp: assertion_holds_def count_error_def min_error_def params_error_def split: option.splits)
  show ?thesis
    by (cases "count_error rt req ?n"; cases "min_error rt req ?n"; cases "params_error rt req ?f")
      (simp_all add: handleAssert_def counted holds verdict_passed verdict_failed)
qed

section \<open>Rules posted at run time\<close>

lemma posted_rule_ready: "r_id rule \<noteq> [] \<or> now \<noteq> 0 \<Longrightarrow> rule_ready (posted_rule now rule)"
  by (simp add: rule_ready_def posted_rule_def complete_types_def complete_tag_def default_tag_nonempty)

lemma posted_rule_matches: "rule_matches rt (posted_rule now rule) q ps = rule_matches rt rule q ps"
  by (simp add: rule_matches_def posted_rule_def complete_types_def complete_tag_def)

lemma posted_rule_id: "r_id (posted_rule now rule) = (if r_id rule = [] then ''rule-dyn-'' @ Itoa now else r_id rule)"
  by (simp add: posted_rule_def complete_types_def complete_tag_def)

text \<open>
  A rule posted to the interface takes effect at once and before all others: the next query it matches, text
  and parameters, is answered by it, completed exactly as a rule of a file would be.
  Deleting it under its identifier restores the registry.
\<close>

theorem posted_rule_answers:
  fixes s :: AdminServer
  assumes "cache_ok rt (e_cache (ad_engine s))" and "rule_matches rt rule q ps"
  shows "let posted = posted_rule now rule; (response, s1) = handleAddRule now (Inr rule) s in
    rs_body response = Json (rule_json posted) \<and>
    (\<exists>e. Match rt t q ps (ad_engine s1) = Ret (IncrementHits posted, e)) \<and>
    rule_ready posted \<and> (r_id rule \<noteq> [] \<longrightarrow> posted = complete_rule k rule) \<and>
    (\<exists>r. handleDeleteRule rt (''/api/rules/'' @ r_id posted) s1 = (r, s) \<and> rs_code r = 200)"
proof -
  let ?p = "posted_rule now rule" and ?e1 = "PrependRule (posted_rule now rule) (ad_engine s)"
  have f: "first_rule rt (e_rules ?e1) q ps = Some 0"
    using assms(2) by (simp add: PrependRule_def posted_rule_matches)
  have c: "cache_ok rt (e_cache ?e1)" using assms(1) by (simp add: PrependRule_def)
  from first_match_first_rule [OF c] f obtain c' where
    "first_match rt (e_cache ?e1) (e_rules ?e1) q ps = (Some 0, c')" by metis
  from Match_rule [OF this, of t] have "\<exists>e. Match rt t q ps ?e1 = Ret (IncrementHits ?p, e)"
    by (simp add: PrependRule_def)
  moreover have "r_id rule \<noteq> [] \<longrightarrow> ?p = complete_rule k rule"
    by (simp add: posted_rule_def complete_rule_def complete_id_def)
  moreover have id: "r_id ?p \<noteq> []" by (simp add: posted_rule_id)
  moreover have "rule_ready ?p"
    by (simp add: rule_ready_def posted_rule_def complete_types_def complete_tag_def default_tag_nonempty)
  moreover have "TrimPrefix (''/api/rules/'' @ r_id ?p) ''/api/rules/'' = r_id ?p"
    by (simp add: TrimPrefix_def HasPrefix_def)
  with id have "\<exists>r. handleDeleteRule rt (''/api/rules/'' @ r_id ?p) (s\<lparr>ad_engine := ?e1\<rparr>) = (r, s) \<and> rs_code r = 200"
    by (simp add: handleDeleteRule_def Let_def DeleteRule_def PrependRule_def respondJSON_def)
  ultimately show ?thesis by (simp add: handleAddRule_def Let_def respondJSON_def)
qed

lemma posted_rule_answers_witness:
  "\<exists>e. Match ascii_rt 0 ''ping'' [] (ad_engine (snd (handleAddRule 7 (Inr (empty_rule\<lparr>r_query := ''ping''\<rparr>))
     (NewAdminServer (NewEngine Map.empty []) None)))) =
     Ret (IncrementHits (posted_rule 7 (empty_rule\<lparr>r_query := ''ping''\<rparr>)), e)"
proof -
  have "text_matches ascii_rt ''ping'' ''ping''" by code_simp
  then have "rule_matches ascii_rt (empty_rule\<lparr>r_query := ''ping''\<rparr>) ''ping'' []"
    by (simp add: rule_matches_def empty_rule_def)
  moreover have "cache_ok ascii_rt (e_cache (ad_engine (NewAdminServer (NewEngine Map.empty []) None)))"
    by (simp add: cache_ok_def NewAdminServer_def SetOnQueryHook_def NewEngine_def)
  ultimately show ?thesis
    using posted_rule_answers [of ascii_rt "NewAdminServer (NewEngine Map.empty []) None"
        "empty_rule\<lparr>r_query := ''ping''\<rparr>" "''ping''" "[]" 7 0 0]
    by (simp add: Let_def case_prod_unfold)
qed

end
