(* ===== verification/Engine_Race.thy ===== *)
theory Engine_Race
  imports Engine
begin

text \<open>
  The rule registry of \<open>internal/mock/engine.go\<close> at the level of its slices: Match copies the slice
  header under the lock and walks the rules without it, while the registry operations go on.  AddRule
  may write into spare capacity and DeleteRule shifts the rules in place, so both can write to the
  array that a search is walking.  Each registry operation, which holds the lock, is one step, and so is
  each look at one rule.  A stored pointer is the rule it points to: a search never changes what a rule
  matches.
\<close>

section \<open>Slices\<close>

text \<open>An array of the heap holds pointers, \<open>None\<close> for nil; a slice is an array number and a length.\<close>

record Registry =
  rg_arrays :: "Rule option list list"
  rg_slice :: "nat \<times> nat"

definition slots :: "Registry \<Rightarrow> Rule option list" where
  "slots g = take (snd (rg_slice g)) (rg_arrays g ! fst (rg_slice g))"

text \<open>
  \<open>append\<close>: in place when the array has room, otherwise into a new array with \<open>spare\<close> unused slots,
  a number the runtime chooses.
\<close>

definition append_slice :: "nat \<Rightarrow> Rule \<Rightarrow> Registry \<Rightarrow> Registry" where
  "append_slice spare r g =
     (let (a, n) = rg_slice g; arr = rg_arrays g ! a in
      if n < length arr then \<lparr>rg_arrays = (rg_arrays g)[a := arr[n := Some r]], rg_slice = (a, n + 1)\<rparr>
      else \<lparr>rg_arrays = rg_arrays g @ [arr @ [Some r] @ replicate spare None],
            rg_slice = (length (rg_arrays g), n + 1)\<rparr>)"

definition prepend_slice :: "nat \<Rightarrow> Rule \<Rightarrow> Registry \<Rightarrow> Registry" where
  "prepend_slice spare r g =
     \<lparr>rg_arrays = rg_arrays g @ [[Some r] @ slots g @ replicate spare None],
      rg_slice = (length (rg_arrays g), snd (rg_slice g) + 1)\<rparr>"

text \<open>\<open>append(rules[:i], rules[i+1:]...)\<close>: the later rules move down; the last slot keeps its old pointer.\<close>

definition shift_down :: "nat \<Rightarrow> nat \<Rightarrow> 'a list \<Rightarrow> 'a list" where
  "shift_down i n arr = take i arr @ drop (i + 1) (take n arr) @ drop (n - 1) arr"

definition delete_slice :: "nat \<Rightarrow> Registry \<Rightarrow> Registry" where
  "delete_slice i g =
     (let (a, n) = rg_slice g in
      \<lparr>rg_arrays = (rg_arrays g)[a := shift_down i n (rg_arrays g ! a)], rg_slice = (a, n - 1)\<rparr>)"

definition delete_rule :: "bytes \<Rightarrow> Registry \<Rightarrow> Registry" where
  "delete_rule i g = (case rule_index i (map the (slots g)) of Some k \<Rightarrow> delete_slice k g | None \<Rightarrow> g)"

definition clear_slice :: "Registry \<Rightarrow> Registry" where
  "clear_slice g = \<lparr>rg_arrays = rg_arrays g @ [[]], rg_slice = (length (rg_arrays g), 0)\<rparr>"

section \<open>A search among registry operations\<close>

record Search =
  se_reg :: Registry
  se_slice :: "nat \<times> nat"      \<comment> \<open>the copied header\<close>
  se_pos :: nat
  se_result :: "Rule option option"

definition start_search :: "Registry \<Rightarrow> Search" where
  "start_search g = \<lparr>se_reg = g, se_slice = rg_slice g, se_pos = 0, se_result = None\<rparr>"

definition walked :: "Search \<Rightarrow> Rule option list" where
  "walked s = take (snd (se_slice s)) (rg_arrays (se_reg s) ! fst (se_slice s))"

datatype action = Look | Add Rule | Prepend Rule | Delete bytes | Clear

inductive race_step :: "(Rule \<Rightarrow> bool) \<Rightarrow> action \<Rightarrow> Search \<Rightarrow> Search \<Rightarrow> bool" for hit where
  found: "se_result s = None \<Longrightarrow> se_pos s < snd (se_slice s) \<Longrightarrow> walked s ! se_pos s = Some r \<Longrightarrow> hit r \<Longrightarrow>
     race_step hit Look s (s\<lparr>se_result := Some (Some r)\<rparr>)"
| passed: "se_result s = None \<Longrightarrow> se_pos s < snd (se_slice s) \<Longrightarrow> walked s ! se_pos s = Some r \<Longrightarrow> \<not> hit r \<Longrightarrow>
     race_step hit Look s (s\<lparr>se_pos := se_pos s + 1\<rparr>)"
| exhausted: "se_result s = None \<Longrightarrow> se_pos s = snd (se_slice s) \<Longrightarrow>
     race_step hit Look s (s\<lparr>se_result := Some None\<rparr>)"
| added: "race_step hit (Add r) s (s\<lparr>se_reg := append_slice spare r (se_reg s)\<rparr>)"
| prepended: "race_step hit (Prepend r) s (s\<lparr>se_reg := prepend_slice spare r (se_reg s)\<rparr>)"
| deleted: "race_step hit (Delete i) s (s\<lparr>se_reg := delete_rule i (se_reg s)\<rparr>)"
| cleared: "race_step hit Clear s (s\<lparr>se_reg := clear_slice (se_reg s)\<rparr>)"

text \<open>A step that is not a look is a change of the registry alone.\<close>

inductive race :: "(Rule \<Rightarrow> bool) \<Rightarrow> action list \<Rightarrow> Search \<Rightarrow> Search \<Rightarrow> bool" for hit where
  race_nil: "race hit [] s s"
| race_cons: "race_step hit a s t \<Longrightarrow> race hit as t u \<Longrightarrow> race hit (a # as) s u"

text \<open>The slice fits its array, and each of its slots holds a rule with the property.\<close>

definition slice_in :: "(Rule \<Rightarrow> bool) \<Rightarrow> Rule option list list \<Rightarrow> nat \<times> nat \<Rightarrow> bool" where
  "slice_in P arrays sl \<longleftrightarrow> fst sl < length arrays \<and> snd sl \<le> length (arrays ! fst sl) \<and>
     list_all (\<lambda>x. case x of None \<Rightarrow> False | Some r \<Rightarrow> P r) (take (snd sl) (arrays ! fst sl))"

abbreviation registry_ok :: "Registry \<Rightarrow> bool" where
  "registry_ok g \<equiv> slice_in (\<lambda>_. True) (rg_arrays g) (rg_slice g)"

text \<open>The registry of a new engine.\<close>

definition registry_of :: "Rule list \<Rightarrow> Registry" where
  "registry_of rs = \<lparr>rg_arrays = [map Some rs], rg_slice = (0, length rs)\<rparr>"

lemma slots_registry_of [simp]: "slots (registry_of rs) = map Some rs"
  by (simp add: slots_def registry_of_def)

lemma registry_of_ok [simp]: "registry_ok (registry_of rs)"
  by (simp add: slice_in_def registry_of_def list_all_iff)

lemma slice_in_nth:
  "slice_in P arrays sl \<longleftrightarrow> fst sl < length arrays \<and> snd sl \<le> length (arrays ! fst sl) \<and>
     (\<forall>i < snd sl. \<exists>r. arrays ! fst sl ! i = Some r \<and> P r)"
proof -
  have "(case x of None \<Rightarrow> False | Some r \<Rightarrow> P r) \<longleftrightarrow> (\<exists>r. x = Some r \<and> P r)" for x
    by (simp split: option.split)
  then show ?thesis by (auto simp: slice_in_def list_all_length)
qed

section \<open>Each registry operation as the engine's\<close>

lemma delete_slots:
  assumes "slice_in P (rg_arrays g) (rg_slice g)" and "i < snd (rg_slice g)"
  shows "slots (delete_slice i g) = take i (slots g) @ drop (i + 1) (slots g)"
proof -
  have "n - Suc 0 = i" if "i < n" "n - Suc 0 \<le> i" for n
    using that by simp
  then show ?thesis
    using assms by (auto simp: slots_def delete_slice_def shift_down_def slice_in_def min_def Let_def case_prod_unfold)
qed

lemma append_slots:
  assumes "slice_in P (rg_arrays g) (rg_slice g)"
  shows "slots (append_slice spare r g) = slots g @ [Some r]"
  using assms by (auto simp: slots_def append_slice_def slice_in_def Let_def case_prod_unfold take_Suc_conv_app_nth
      take_update_cancel)

lemma prepend_slots:
  assumes "slice_in P (rg_arrays g) (rg_slice g)"
  shows "slots (prepend_slice spare r g) = Some r # slots g"
  using assms by (simp add: slots_def prepend_slice_def slice_in_def)

lemma clear_slots: "slots (clear_slice g) = []"
  by (simp add: slots_def clear_slice_def)

lemma length_slots: "slice_in P (rg_arrays g) (rg_slice g) \<Longrightarrow> length (slots g) = snd (rg_slice g)"
  by (simp add: slots_def slice_in_def)

text \<open>
  The registry on slices implements the engine's rule list: AddRule, PrependRule, DeleteRule and
  ClearRules on the slots are the engine's operations on the list of rules, whatever spare capacity the
  runtime gives.
\<close>

theorem registry_refines:
  assumes "registry_ok g" and "e_rules e = map the (slots g)"
  shows "e_rules (AddRule r e) = map the (slots (append_slice spare r g)) \<and>
    e_rules (PrependRule r e) = map the (slots (prepend_slice spare r g)) \<and>
    e_rules (snd (DeleteRule i e)) = map the (slots (delete_rule i g)) \<and>
    e_rules (ClearRules e) = map the (slots (clear_slice g))"
proof -
  have "e_rules (snd (DeleteRule i e)) = map the (slots (delete_rule i g))"
    using assms rule_index_Some(1) [of i "e_rules e"]
    by (auto simp: DeleteRule_def delete_rule_def delete_slots take_map drop_map length_slots split: option.split)
  then show ?thesis
    using assms by (simp add: AddRule_def PrependRule_def ClearRules_def append_slots prepend_slots clear_slots)
qed

lemma registry_refines_witness:
  "map the (slots (delete_rule ''x'' (append_slice 0 (empty_rule\<lparr>r_id := ''x''\<rparr>) (registry_of [])))) = []"
proof -
  let ?r = "empty_rule\<lparr>r_id := ''x''\<rparr>" and ?e = "NewEngine Map.empty []"
  have "registry_ok (registry_of [])" "e_rules ?e = map the (slots (registry_of []))"
    by (simp_all add: NewEngine_def)
  from registry_refines [OF this, of ?r 0] have "map the (slots (append_slice 0 ?r (registry_of []))) = [?r]"
    by (simp add: AddRule_def NewEngine_def)
  moreover have "registry_ok (append_slice 0 ?r (registry_of []))"
    by (simp add: append_slice_def registry_of_def slice_in_def)
  ultimately show ?thesis
    using registry_refines [of "append_slice 0 ?r (registry_of [])" "?e\<lparr>e_rules := [?r]\<rparr>" empty_rule 0 "''x''"]
    by (simp add: DeleteRule_def)
qed

section \<open>What a search sees\<close>

lemma shift_down_nth:
  assumes "i < n" and "n \<le> length arr" and "j < length arr"
  shows "shift_down i n arr ! j = (if j < i then arr ! j else if j + 1 < n then arr ! (j + 1) else arr ! j)"
  using assms by (auto simp: shift_down_def nth_append min_def)

lemma length_shift_down: "i < n \<Longrightarrow> n \<le> length arr \<Longrightarrow> length (shift_down i n arr) = length arr"
  by (simp add: shift_down_def)

text \<open>Whatever slice is held, its slots stay rules with the property when the registry changes.\<close>

lemma append_slice_in:
  assumes "slice_in P (rg_arrays g) sl" and "slice_in P (rg_arrays g) (rg_slice g)" and "P r"
  shows "slice_in P (rg_arrays (append_slice spare r g)) sl \<and>
    slice_in P (rg_arrays (append_slice spare r g)) (rg_slice (append_slice spare r g))"
  using assms
  by (auto simp: slice_in_nth append_slice_def Let_def case_prod_unfold nth_append nth_list_update less_Suc_eq)

lemma prepend_slice_in:
  assumes "slice_in P (rg_arrays g) sl" and "slice_in P (rg_arrays g) (rg_slice g)" and "P r"
  shows "slice_in P (rg_arrays (prepend_slice spare r g)) sl \<and>
    slice_in P (rg_arrays (prepend_slice spare r g)) (rg_slice (prepend_slice spare r g))"
  using assms
  by (auto simp: slice_in_nth prepend_slice_def slots_def nth_append nth_Cons' )

lemma clear_slice_in:
  assumes "slice_in P (rg_arrays g) sl"
  shows "slice_in P (rg_arrays (clear_slice g)) sl \<and>
    slice_in P (rg_arrays (clear_slice g)) (rg_slice (clear_slice g))"
  using assms by (auto simp: slice_in_nth clear_slice_def nth_append)

lemma delete_slice_in:
  assumes "slice_in P (rg_arrays g) sl" and live: "slice_in P (rg_arrays g) (rg_slice g)" and i: "i < snd (rg_slice g)"
  shows "slice_in P (rg_arrays (delete_slice i g)) sl \<and>
    slice_in P (rg_arrays (delete_slice i g)) (rg_slice (delete_slice i g))"
proof -
  obtain a n where an: "rg_slice g = (a, n)" by (cases "rg_slice g")
  let ?arr = "rg_arrays g ! a"
  have n: "i < n" "n \<le> length ?arr" "a < length (rg_arrays g)" "\<forall>j < n. \<exists>r. ?arr ! j = Some r \<and> P r"
    using live i an by (auto simp: slice_in_nth)
  have kept: "slice_in P (rg_arrays (delete_slice i g)) (a', n')" if "slice_in P (rg_arrays g) (a', n')" for a' n'
    using that n by (auto simp: slice_in_nth delete_slice_def an nth_list_update shift_down_nth length_shift_down)
  have "slice_in P (rg_arrays g) (a, n - 1)"
    using n by (auto simp: slice_in_nth)
  then show ?thesis
    using kept [of a "n - 1"] kept [of "fst sl" "snd sl"] assms(1) by (simp add: delete_slice_def an)
qed

lemma delete_rule_slice_in:
  assumes "slice_in P (rg_arrays g) sl" and "slice_in P (rg_arrays g) (rg_slice g)"
  shows "slice_in P (rg_arrays (delete_rule i g)) sl \<and>
    slice_in P (rg_arrays (delete_rule i g)) (rg_slice (delete_rule i g))"
proof (cases "rule_index i (map the (slots g))")
  case (Some k)
  then have "k < snd (rg_slice g)"
    using rule_index_Some [OF Some] assms(2) by (simp add: length_slots)
  then show ?thesis using Some delete_slice_in [OF assms] by (simp add: delete_rule_def)
qed (use assms in \<open>simp add: delete_rule_def\<close>)

text \<open>The invariant of a search whose registry only ever holds rules with the property.\<close>

definition searching :: "(Rule \<Rightarrow> bool) \<Rightarrow> (Rule \<Rightarrow> bool) \<Rightarrow> Search \<Rightarrow> bool" where
  "searching P hit s \<longleftrightarrow>
     slice_in P (rg_arrays (se_reg s)) (se_slice s) \<and>
     slice_in P (rg_arrays (se_reg s)) (rg_slice (se_reg s)) \<and>
     se_pos s \<le> snd (se_slice s) \<and> (\<forall>r. se_result s = Some (Some r) \<longrightarrow> hit r \<and> P r)"

lemma searching_slot:
  assumes "searching P hit s" and "se_pos s < snd (se_slice s)"
  obtains r where "walked s ! se_pos s = Some r" and "P r"
  using assms by (auto simp: searching_def slice_in_nth walked_def)

lemma race_step_searching:
  assumes "race_step hit a s t" and inv: "searching P hit s" and new: "\<And>r. a = Add r \<or> a = Prepend r \<Longrightarrow> P r"
  shows "searching P hit t"
  using assms(1)
proof cases
  case (found r)
  then show ?thesis using inv by (auto simp: searching_def elim: searching_slot [OF inv])
next
  case (added r spare)
  then show ?thesis using inv new append_slice_in [of P "se_reg s" "se_slice s" r spare] by (simp add: searching_def)
next
  case (prepended r spare)
  then show ?thesis using inv new prepend_slice_in [of P "se_reg s" "se_slice s" r spare] by (simp add: searching_def)
next
  case (deleted i)
  then show ?thesis using inv delete_rule_slice_in [of P "se_reg s" "se_slice s" i] by (simp add: searching_def)
next
  case cleared
  then show ?thesis using inv clear_slice_in [of P "se_reg s" "se_slice s"] by (simp add: searching_def)
qed (use inv in \<open>simp_all add: searching_def\<close>)

lemma race_searching:
  assumes "race hit as s t" and "searching P hit s" and "\<And>r. Add r \<in> set as \<or> Prepend r \<in> set as \<Longrightarrow> P r"
  shows "searching P hit t"
  using assms by (induction rule: race.induct) (auto dest!: race_step_searching [where P = P])

text \<open>The looks that a search has left.\<close>

definition looks_left :: "Search \<Rightarrow> nat" where
  "looks_left s = (if se_result s = None then snd (se_slice s) - se_pos s + 1 else 0)"

lemma race_looks: "race hit as s t \<Longrightarrow> count_list as Look + looks_left t \<le> looks_left s"
proof (induction rule: race.induct)
  case (race_cons a s t as u)
  from race_cons.hyps(1) have "looks_left t + (if a = Look then 1 else 0) \<le> looks_left s"
    by cases (auto simp: looks_left_def)
  with race_cons.IH show ?case by (simp split: if_splits)
qed simp

lemma start_searching: "slice_in P (rg_arrays g) (rg_slice g) \<Longrightarrow> searching P hit (start_search g)"
  by (simp add: searching_def start_search_def)

text \<open>
  C24. A search that runs while rules are added, deleted and cleared never meets a nil pointer: as long
  as it has no result it can look on.  It ends after at most one look more than there were rules when it
  started, and a rule it returns matches and was registered when the search started or added since.
\<close>

theorem search_safe:
  assumes "registry_ok g" and "race hit as (start_search g) s"
  shows "(case se_result s of
      None \<Rightarrow> count_list as Look \<le> length (slots g) \<and> (\<exists>t. race_step hit Look s t)
    | Some None \<Rightarrow> count_list as Look \<le> length (slots g) + 1
    | Some (Some r) \<Rightarrow> count_list as Look \<le> length (slots g) + 1 \<and> hit r \<and>
        (Some r \<in> set (slots g) \<or> Add r \<in> set as \<or> Prepend r \<in> set as))"
proof -
  let ?P = "\<lambda>r. Some r \<in> set (slots g) \<or> Add r \<in> set as \<or> Prepend r \<in> set as"
  have "slice_in ?P (rg_arrays g) (rg_slice g)"
    using assms(1) by (auto simp: slice_in_def slots_def list_all_iff split: option.splits)
  then have inv: "searching ?P hit s"
    using race_searching [OF assms(2), where P = ?P] start_searching by blast
  have looks: "count_list as Look + looks_left s \<le> length (slots g) + 1"
    using race_looks [OF assms(2)] assms(1) by (simp add: length_slots) (simp add: looks_left_def start_search_def)
  show ?thesis
  proof (cases "se_result s")
    case None
    have "\<exists>t. race_step hit Look s t"
    proof (cases "se_pos s = snd (se_slice s)")
      case False
      with inv have "se_pos s < snd (se_slice s)" by (simp add: searching_def)
      with inv None show ?thesis by (metis searching_slot found passed)
    qed (use None exhausted in blast)
    with looks None show ?thesis by (simp add: looks_left_def)
  qed (use looks inv in \<open>auto simp: searching_def split: option.split\<close>)
qed

lemma search_safe_witness: "registry_ok (registry_of [empty_rule]) \<and> Some empty_rule \<in> set (slots (registry_of [empty_rule]))"
proof -
  let ?g = "registry_of [empty_rule]"
  have "race (\<lambda>_. True) [Look] (start_search ?g) ((start_search ?g)\<lparr>se_result := Some (Some empty_rule)\<rparr>)"
    by (intro race_cons [OF _ race_nil] found) (simp_all add: start_search_def registry_of_def walked_def)
  from search_safe [OF registry_of_ok this] show ?thesis by simp
qed

text \<open>Without deletions the walked slots stay as they were: an append in place writes behind them.\<close>

definition undisturbed :: "(Rule \<Rightarrow> bool) \<Rightarrow> Rule option list \<Rightarrow> Search \<Rightarrow> bool" where
  "undisturbed hit xs s \<longleftrightarrow>
     searching (\<lambda>_. True) hit s \<and> walked s = xs \<and>
     (fst (rg_slice (se_reg s)) = fst (se_slice s) \<longrightarrow> snd (se_slice s) \<le> snd (rg_slice (se_reg s))) \<and>
     list_all (\<lambda>x. \<not> hit (the x)) (take (se_pos s) xs) \<and>
     (\<forall>x. se_result s = Some x \<longrightarrow> x = find hit (map the xs))"

lemma undisturbed_length: "undisturbed hit xs s \<Longrightarrow> length xs = snd (se_slice s)"
  by (auto simp: undisturbed_def searching_def slice_in_def walked_def)

lemma find_at:
  "list_all (\<lambda>x. \<not> P x) (take n xs) \<Longrightarrow> n < length xs \<Longrightarrow> P (xs ! n) \<Longrightarrow> find P xs = Some (xs ! n)"
  by (auto simp: find_Some_iff list_all_length intro!: exI [of _ n])

lemma find_exhausted: "list_all (\<lambda>x. \<not> P x) xs \<Longrightarrow> find P xs = None"
  by (auto simp: find_None_iff list_all_iff)

lemma append_walk:
  assumes "slice_in P (rg_arrays g) sl" and "slice_in P (rg_arrays g) (rg_slice g)"
    and "fst (rg_slice g) = fst sl \<longrightarrow> snd sl \<le> snd (rg_slice g)"
  shows "take (snd sl) (rg_arrays (append_slice spare r g) ! fst sl) = take (snd sl) (rg_arrays g ! fst sl)"
  using assms
  by (auto simp: append_slice_def slice_in_def Let_def case_prod_unfold nth_append nth_list_update take_update_cancel)

lemma race_step_undisturbed:
  assumes "race_step hit a s t" and inv: "undisturbed hit xs s" and "\<forall>i. a \<noteq> Delete i"
  shows "undisturbed hit xs t"
proof -
  have t: "searching (\<lambda>_. True) hit t"
    using race_step_searching [OF assms(1), where P = "\<lambda>_. True"] inv by (simp add: undisturbed_def)
  have len: "length xs = snd (se_slice s)" using inv by (rule undisturbed_length)
  from assms(1) show ?thesis
  proof cases
    case (found r)
    then show ?thesis
      using inv t len find_at [of hit "se_pos s" "map the xs"]
      by (auto simp: undisturbed_def walked_def list_all_length)
  next
    case (passed r)
    then show ?thesis
      using inv t len by (auto simp: undisturbed_def walked_def take_Suc_conv_app_nth)
  next
    case exhausted
    then show ?thesis
      using inv t len find_exhausted [of hit "map the xs"]
      by (auto simp: undisturbed_def walked_def list_all_length)
  next
    case (added r spare)
    have "walked t = walked s"
      using inv append_walk [of "\<lambda>_. True" "se_reg s" "se_slice s" spare r]
      by (simp add: added undisturbed_def searching_def walked_def)
    moreover have "fst (rg_slice (se_reg t)) = fst (se_slice t) \<longrightarrow> snd (se_slice t) \<le> snd (rg_slice (se_reg t))"
      using inv by (auto simp: added undisturbed_def searching_def slice_in_def append_slice_def Let_def case_prod_unfold)
    ultimately show ?thesis using inv t by (simp add: undisturbed_def added)
  next
    case (prepended r spare)
    then show ?thesis
      using inv t by (auto simp: undisturbed_def searching_def slice_in_def walked_def prepend_slice_def nth_append)
  next
    case (deleted i)
    with assms(3) show ?thesis by simp
  next
    case cleared
    then show ?thesis
      using inv t by (auto simp: undisturbed_def searching_def slice_in_def walked_def clear_slice_def nth_append)
  qed
qed

text \<open>
  C22. As long as no rule is deleted, a search that shares the rules with additions and resets of the
  registry returns what a search on its own would have: the first matching rule of the registry at the
  start, or none when none of those matches.
\<close>

theorem search_undisturbed:
  assumes "registry_ok g" and "race hit as (start_search g) s" and "\<forall>i. Delete i \<notin> set as"
    and "se_result s = Some x"
  shows "x = find hit (map the (slots g))"
proof -
  have start: "undisturbed hit (slots g) (start_search g)"
    using assms(1) by (simp add: undisturbed_def start_searching) (simp add: start_search_def walked_def slots_def)
  have "undisturbed hit xs t" if "race hit bs r t" "undisturbed hit xs r" "\<forall>i. Delete i \<notin> set bs" for xs bs r t
    using that by (induction rule: race.induct) (auto dest: race_step_undisturbed)
  from this [OF assms(2) start assms(3)] assms(4) show ?thesis by (simp add: undisturbed_def)
qed

lemma search_undisturbed_witness:
  "find (\<lambda>r. r_id r = ''b'') (map the (slots (registry_of [empty_rule, empty_rule\<lparr>r_id := ''b''\<rparr>]))) =
     Some (empty_rule\<lparr>r_id := ''b''\<rparr>)"
proof -
  let ?b = "empty_rule\<lparr>r_id := ''b''\<rparr>" and ?hit = "\<lambda>r. r_id r = ''b''"
  let ?g = "registry_of [empty_rule, ?b]"
  let ?s1 = "start_search ?g\<lparr>se_reg := append_slice 1 ?b ?g\<rparr>"
  let ?s2 = "?s1\<lparr>se_pos := 1\<rparr>"
  have one: "race_step ?hit (Add ?b) (start_search ?g) ?s1"
    using added [of ?hit ?b "start_search ?g" 1] by (simp add: start_search_def)
  have two: "race_step ?hit Look ?s1 ?s2"
    using passed [of ?s1 empty_rule ?hit]
    by (simp add: start_search_def registry_of_def append_slice_def walked_def empty_rule_def)
  have three: "race_step ?hit Look ?s2 (?s2\<lparr>se_result := Some (Some ?b)\<rparr>)"
    by (rule found) (simp_all add: start_search_def registry_of_def append_slice_def walked_def)
  have "race ?hit [Add ?b, Look, Look] (start_search ?g) (?s2\<lparr>se_result := Some (Some ?b)\<rparr>)"
    by (rule race_cons [OF one race_cons [OF two race_cons [OF three race_nil]]])
  then have "Some ?b = find ?hit (map the (slots ?g))"
    by (rule search_undisturbed [OF registry_of_ok]) simp_all
  then show ?thesis by (rule sym)
qed

text \<open>
  C23. A deletion during the search can hide a rule that it does not touch.  With three rules of which
  only the second matches, deleting the first after the search has passed it moves the second into its
  place, and the search ends without a match although the matching rule was registered all the time.
\<close>

theorem delete_hides_rule:
  assumes "r_id b \<noteq> r_id a" and "hit b" and "\<not> hit a" and "\<not> hit c"
  shows "\<exists>s. race hit [Look, Delete (r_id a), Look, Look, Look] (start_search (registry_of [a, b, c])) s \<and>
    se_result s = Some None \<and> slots (se_reg s) = [Some b, Some c]"
proof -
  let ?s0 = "start_search (registry_of [a, b, c])"
  let ?s1 = "?s0\<lparr>se_pos := 1\<rparr>"
  let ?s2 = "?s1\<lparr>se_reg := \<lparr>rg_arrays = [[Some b, Some c, Some c]], rg_slice = (0, 2)\<rparr>\<rparr>"
  have one: "race_step hit Look ?s0 ?s1"
    using passed [of ?s0 a hit] assms by (simp add: start_search_def registry_of_def walked_def)
  have "delete_rule (r_id a) (registry_of [a, b, c]) = \<lparr>rg_arrays = [[Some b, Some c, Some c]], rg_slice = (0, 2)\<rparr>"
    by (simp add: delete_rule_def delete_slice_def shift_down_def registry_of_def slots_def)
  then have two: "race_step hit (Delete (r_id a)) ?s1 ?s2"
    using deleted [of hit "r_id a" ?s1] by (simp add: start_search_def)
  have three: "race_step hit Look ?s2 (?s2\<lparr>se_pos := 2\<rparr>)"
    using passed [of ?s2 c hit] assms by (simp add: start_search_def walked_def registry_of_def eval_nat_numeral)
  have four: "race_step hit Look (?s2\<lparr>se_pos := 2\<rparr>) (?s2\<lparr>se_pos := 3\<rparr>)"
    using passed [of "?s2\<lparr>se_pos := 2\<rparr>" c hit] assms
    by (simp add: start_search_def walked_def registry_of_def eval_nat_numeral)
  have five: "race_step hit Look (?s2\<lparr>se_pos := 3\<rparr>) (?s2\<lparr>se_pos := 3, se_result := Some None\<rparr>)"
    using exhausted [of "?s2\<lparr>se_pos := 3\<rparr>" hit] by (simp add: start_search_def registry_of_def)
  have "race hit [Look, Delete (r_id a), Look, Look, Look] ?s0 (?s2\<lparr>se_pos := 3, se_result := Some None\<rparr>)"
    by (rule race_cons [OF one race_cons [OF two race_cons [OF three race_cons [OF four race_cons [OF five race_nil]]]]])
  then show ?thesis by (intro exI conjI) (assumption, simp_all add: slots_def)
qed

lemma delete_hides_rule_witness:
  "\<exists>s. race (\<lambda>r. r_id r = ''b'') [Look, Delete ''a'', Look, Look, Look]
      (start_search (registry_of [empty_rule\<lparr>r_id := ''a''\<rparr>, empty_rule\<lparr>r_id := ''b''\<rparr>, empty_rule])) s \<and>
    se_result s = Some None \<and> slots (se_reg s) = [Some (empty_rule\<lparr>r_id := ''b''\<rparr>), Some empty_rule]"
  using delete_hides_rule [of "empty_rule\<lparr>r_id := ''b''\<rparr>" "empty_rule\<lparr>r_id := ''a''\<rparr>" "\<lambda>r. r_id r = ''b''" empty_rule]
  by (simp add: empty_rule_def)

end
