(* ===== verification/Hits_Race.thy ===== *)
theory Hits_Race
  imports Conn Transitions
begin

text \<open>
  The counter of a rule with \<open>fail_after_n\<close> under concurrent queries: Match raises the counter
  (\<open>internal/mock/engine.go\<close>), and executeRuleResponse reads it later
  (\<open>internal/server/conn_handler.go\<close>), after the artificial latency.  Each is one atomic step;
  the calls of different connections interleave between the two.
\<close>

section \<open>Calls\<close>







section \<open>At most as many results as promised\<close>









end
