(* ===== verification/Row_Heap.thy ===== *)
theory Row_Heap
  imports Store_Laws
begin

text \<open>
  The rows of an in-memory table (\<open>internal/mock/state_store.go\<close>) as what they are in memory: slices that
  are shared by reference.  UPDATE assigns to the cells of the stored rows, \<open>SELECT *\<close> hands out the stored
  rows themselves, and a projection copies.  An answer is written to the connection after the
  store's lock is given back, so that statements of other connections may come between.
\<close>

section \<open>Tables of row addresses\<close>

text \<open>The heap is a list of rows; an address is a position in it, and a row is never freed.\<close>

record HeapTable =
  ht_columns :: "bytes list"
  ht_heap :: "bytes list list"
  ht_rows :: "nat list"

definition table_rows :: "HeapTable \<Rightarrow> bytes list list" where
  "table_rows t = map ((!) (ht_heap t)) (ht_rows t)"

definition heap_ok :: "HeapTable \<Rightarrow> bool" where
  "heap_ok t \<longleftrightarrow> distinct (ht_rows t) \<and> (\<forall>a \<in> set (ht_rows t). a < length (ht_heap t))"

text \<open>INSERT makes a new slice for each row.\<close>

definition heap_insert :: "bytes list list \<Rightarrow> HeapTable \<Rightarrow> HeapTable" where
  "heap_insert parsedRows t =
     t\<lparr>ht_heap := ht_heap t @ map (full_row (ht_columns t)) parsedRows,
       ht_rows := ht_rows t @ [length (ht_heap t)..<length (ht_heap t) + length parsedRows]\<rparr>"

text \<open>UPDATE walks the rows and assigns in place.\<close>

definition assign_at ::
  "go_rt \<Rightarrow> bytes list \<Rightarrow> bytes \<Rightarrow> bytes option list \<Rightarrow> (bytes \<times> bytes) list \<Rightarrow> nat \<Rightarrow> bytes list list \<Rightarrow> bytes list list" where
  "assign_at rt cols whr params kvs a h =
     (if evaluateWhere rt whr cols (h ! a) params then h[a := assign_row rt cols kvs (h ! a)] else h)"

definition heap_update ::
  "go_rt \<Rightarrow> bytes \<Rightarrow> bytes option list \<Rightarrow> (bytes \<times> bytes) list \<Rightarrow> HeapTable \<Rightarrow> HeapTable" where
  "heap_update rt whr params kvs t =
     t\<lparr>ht_heap := fold (assign_at rt (ht_columns t) whr params kvs) (ht_rows t) (ht_heap t)\<rparr>"

definition heap_delete :: "go_rt \<Rightarrow> bytes \<Rightarrow> bytes option list \<Rightarrow> HeapTable \<Rightarrow> HeapTable" where
  "heap_delete rt whr params t =
     t\<lparr>ht_rows := filter (\<lambda>a. \<not> evaluateWhere rt whr (ht_columns t) (ht_heap t ! a) params) (ht_rows t)\<rparr>"

definition heap_truncate :: "HeapTable \<Rightarrow> HeapTable" where
  "heap_truncate t = t\<lparr>ht_rows := []\<rparr>"

text \<open>The rows of an answer: the stored ones, or copies.\<close>

datatype answer_rows = Shared "nat list" | Copied "bytes list list"

definition matched_rows :: "go_rt \<Rightarrow> bytes \<Rightarrow> bytes option list \<Rightarrow> HeapTable \<Rightarrow> nat list" where
  "matched_rows rt whr params t =
     filter (\<lambda>a. evaluateWhere rt whr (ht_columns t) (ht_heap t ! a) params) (ht_rows t)"

definition select_all :: "go_rt \<Rightarrow> bytes \<Rightarrow> bytes option list \<Rightarrow> HeapTable \<Rightarrow> answer_rows" where
  "select_all rt whr params t = Shared (matched_rows rt whr params t)"

definition select_columns ::
  "go_rt \<Rightarrow> bytes list \<Rightarrow> bytes \<Rightarrow> bytes option list \<Rightarrow> HeapTable \<Rightarrow> answer_rows" where
  "select_columns rt projCols whr params t =
     Copied (map (\<lambda>a. project_row (map (findColIndex rt (ht_columns t)) projCols) (ht_heap t ! a))
       (matched_rows rt whr params t))"

text \<open>What is written: the rows as they are when they are written.\<close>

fun rows_sent :: "answer_rows \<Rightarrow> HeapTable \<Rightarrow> bytes list list" where
  "rows_sent (Shared as) t = map ((!) (ht_heap t)) as"
| "rows_sent (Copied rows) t = rows"

section \<open>The statements on addresses are the statements on rows\<close>

lemma assign_at_other: "a \<noteq> b \<Longrightarrow> assign_at rt cols whr params kvs b h ! a = h ! a"
  by (simp add: assign_at_def)

lemma length_assign_at [simp]: "length (assign_at rt cols whr params kvs b h) = length h"
  by (simp add: assign_at_def)

lemma length_assign_all [simp]: "length (fold (assign_at rt cols whr params kvs) as h) = length h"
  by (induction as arbitrary: h) simp_all

definition updated_row ::
  "go_rt \<Rightarrow> bytes list \<Rightarrow> bytes \<Rightarrow> bytes option list \<Rightarrow> (bytes \<times> bytes) list \<Rightarrow> bytes list \<Rightarrow> bytes list" where
  "updated_row rt cols whr params kvs row = (if evaluateWhere rt whr cols row params then assign_row rt cols kvs row else row)"

lemma assign_all_nth:
  assumes "distinct as" and "\<forall>a \<in> set as. a < length h" and "b < length h"
  shows "fold (assign_at rt cols whr params kvs) as h ! b =
    (if b \<in> set as then updated_row rt cols whr params kvs (h ! b) else h ! b)"
  using assms
proof (induction as arbitrary: h)
  case (Cons a as)
  have "assign_at rt cols whr params kvs a h ! b =
      (if b = a then updated_row rt cols whr params kvs (h ! b) else h ! b)"
    using Cons.prems by (simp add: assign_at_def updated_row_def)
  with Cons show ?case by auto
qed simp

lemma heap_update_rows:
  "heap_ok t \<Longrightarrow> table_rows (heap_update rt whr params kvs t) =
     map (updated_row rt (ht_columns t) whr params kvs) (table_rows t)"
  by (simp add: table_rows_def heap_update_def heap_ok_def assign_all_nth)

lemma heap_delete_rows:
  "table_rows (heap_delete rt whr params t) = filter (\<lambda>row. \<not> evaluateWhere rt whr (ht_columns t) row params) (table_rows t)"
  by (simp add: table_rows_def heap_delete_def filter_map comp_def)

lemma heap_insert_rows:
  "heap_ok t \<Longrightarrow> table_rows (heap_insert rows t) = table_rows t @ map (full_row (ht_columns t)) rows"
  by (auto simp: table_rows_def heap_insert_def heap_ok_def nth_append intro!: nth_equalityI)

lemma heap_ok_steps:
  assumes "heap_ok t"
  shows "heap_ok (heap_insert rows t)" "heap_ok (heap_update rt whr params kvs t)" "heap_ok (heap_delete rt whr params t)"
    "heap_ok (heap_truncate t)"
  using assms by (auto simp: heap_ok_def heap_insert_def heap_update_def heap_delete_def heap_truncate_def)

lemma matched_rows_sent:
  "rows_sent (select_all rt whr params t) t = filter (\<lambda>row. evaluateWhere rt whr (ht_columns t) row params) (table_rows t)"
  by (simp add: select_all_def matched_rows_def table_rows_def filter_map comp_def)

text \<open>
  C35. Working on addresses implements the tables of rows: if the table of the store holds the rows that
  the addresses lead to, then UPDATE in place, DELETE, TRUNCATE and INSERT leave the rows that the
  store's statements leave, no two rows ever share a slice, and \<open>SELECT *\<close> written at once has the
  rows of the store's answer.
\<close>

theorem row_heap_refines:
  assumes "heap_ok t" and "s (sanitizeName rt (m 1)) = Some tbl" and "t_columns tbl = ht_columns t"
    and "t_rows tbl = table_rows t"
  shows "let name = sanitizeName rt (m 1); rows = (\<lambda>s. map_option t_rows (s name));
        kvs = parseSetAssignments rt (TrimSpace (m 2)) params in
    rows (snd (exec_update rt q params m s)) = Some (table_rows (heap_update rt (TrimSpace (m 3)) params kvs t)) \<and>
    heap_ok (heap_update rt (TrimSpace (m 3)) params kvs t) \<and>
    rows (snd (exec_delete rt q params m s)) = Some (table_rows (heap_delete rt (TrimSpace (m 2)) params t)) \<and>
    heap_ok (heap_delete rt (TrimSpace (m 2)) params t) \<and>
    rows (snd (exec_truncate rt q m s)) = Some (table_rows (heap_truncate t)) \<and> heap_ok (heap_truncate t) \<and>
    (\<forall>r s'. exec_insert rt q params m s = Ret (r, s') \<longrightarrow>
       (\<exists>new. rows s' = Some (table_rows (heap_insert new t)) \<and> heap_ok (heap_insert new t))) \<and>
    (\<forall>m'. TrimSpace (m' 1) = ''*'' \<and> sanitizeName rt (m' 2) = name \<longrightarrow>
       r_rows (fst (exec_select rt q params m' s)) = rows_sent (select_all rt (TrimSpace (m' 3)) params t) t)"
proof -
  let ?name = "sanitizeName rt (m 1)"
  let ?rows = "\<lambda>s. map_option t_rows (s ?name)"
  have update: "?rows (snd (exec_update rt q params m s)) =
      Some (table_rows (heap_update rt (TrimSpace (m 3)) params (parseSetAssignments rt (TrimSpace (m 2)) params) t))"
    using assms by (simp add: exec_update_def Let_def heap_update_rows updated_row_def)
  have delete: "?rows (snd (exec_delete rt q params m s)) = Some (table_rows (heap_delete rt (TrimSpace (m 2)) params t))"
    using assms by (simp add: exec_delete_def Let_def heap_delete_rows)
  have truncate: "?rows (snd (exec_truncate rt q m s)) = Some (table_rows (heap_truncate t))"
    using assms by (simp add: exec_truncate_def Let_def heap_truncate_def table_rows_def)
  have insert: "\<exists>new. ?rows s' = Some (table_rows (heap_insert new t))" if r: "exec_insert rt q params m s = Ret (r, s')" for r s'
  proof -
    from r obtain vs ret where "split_returning rt (m 3) = Ret (vs, ret)"
      by (auto simp: exec_insert_def and_then_pair_Ret)
    from insert_existing [of s rt m, OF assms(2) this, of q params] r assms show ?thesis
      by (intro exI [of _ "parseValuesTuples vs params"]) (auto simp: heap_insert_rows Let_def)
  qed
  have select: "r_rows (fst (exec_select rt q params m' s)) = rows_sent (select_all rt (TrimSpace (m' 3)) params t) t"
    if "TrimSpace (m' 1) = ''*''" "sanitizeName rt (m' 2) = ?name" for m'
    using that assms EqualFold_star by (simp add: exec_select_def Let_def matched_rows_sent)
  show ?thesis
    using update delete truncate insert select heap_ok_steps [OF assms(1)] by (auto simp: Let_def)
qed

lemma row_heap_refines_witness:
  "map_option t_rows (snd (exec_truncate ascii_rt [] ((\<lambda>_. [])(1 := ''t''))
     [''t'' \<mapsto> \<lparr>t_name = ''t'', t_columns = [''a''], t_types = [25], t_rows = [[''x'']]\<rparr>]) ''t'') = Some []"
proof -
  let ?m = "(\<lambda>_. [])(1 := ''t'')" and ?t = "\<lparr>ht_columns = [''a''], ht_heap = [[''x'']], ht_rows = [0]\<rparr>"
  let ?s = "[''t'' \<mapsto> \<lparr>t_name = ''t'', t_columns = [''a''], t_types = [25], t_rows = [[''x'']]\<rparr>]"
  have name: "sanitizeName ascii_rt ''t'' = ''t''" by code_simp
  have "heap_ok ?t" "?s (sanitizeName ascii_rt (?m 1)) = Some \<lparr>t_name = ''t'', t_columns = [''a''], t_types = [25], t_rows = [[''x'']]\<rparr>"
    by (simp_all add: heap_ok_def name)
  from row_heap_refines [where s = ?s and m = ?m and rt = ascii_rt, OF this, of "[]" "[]"] show ?thesis
    by (simp add: table_rows_def name heap_truncate_def Let_def)
qed

section \<open>An answer among later statements\<close>

datatype change =
    Insert "bytes list list"
  | Update bytes "bytes option list" "(bytes \<times> bytes) list"
  | Delete bytes "bytes option list"
  | Truncate

fun apply_change :: "go_rt \<Rightarrow> change \<Rightarrow> HeapTable \<Rightarrow> HeapTable" where
  "apply_change rt (Insert rows) t = heap_insert rows t"
| "apply_change rt (Update whr params kvs) t = heap_update rt whr params kvs t"
| "apply_change rt (Delete whr params) t = heap_delete rt whr params t"
| "apply_change rt Truncate t = heap_truncate t"

definition apply_changes :: "go_rt \<Rightarrow> change list \<Rightarrow> HeapTable \<Rightarrow> HeapTable" where
  "apply_changes rt cs t = fold (apply_change rt) cs t"

fun is_update :: "change \<Rightarrow> bool" where
  "is_update (Update _ _ _) = True"
| "is_update _ = False"

lemma apply_change_ok: "heap_ok t \<Longrightarrow> heap_ok (apply_change rt c t)"
  using heap_ok_steps by (cases c) simp_all

lemma heap_grows: "length (ht_heap t) \<le> length (ht_heap (apply_change rt c t))"
  by (cases c) (simp_all add: heap_insert_def heap_update_def heap_delete_def heap_truncate_def)

lemma no_update_keeps:
  "\<not> is_update c \<Longrightarrow> a < length (ht_heap t) \<Longrightarrow> ht_heap (apply_change rt c t) ! a = ht_heap t ! a"
  by (cases c) (simp_all add: heap_insert_def heap_delete_def heap_truncate_def nth_append)

lemma no_updates_keep:
  "list_all (\<lambda>c. \<not> is_update c) cs \<Longrightarrow> a < length (ht_heap t) \<Longrightarrow> ht_heap (apply_changes rt cs t) ! a = ht_heap t ! a"
proof (induction cs arbitrary: t)
  case (Cons c cs)
  have "a < length (ht_heap (apply_change rt c t))" using Cons.prems(2) heap_grows [of t rt c] by linarith
  from Cons.IH [OF _ this] Cons.prems no_update_keeps [of c a t rt] show ?case by (simp add: apply_changes_def)
qed (simp add: apply_changes_def)

text \<open>
  C36. A projection is a snapshot: whatever statements follow before it is written, it is written as
  selected.  \<open>SELECT *\<close> is not: its rows survive insertions, deletions and TRUNCATE, but an UPDATE that
  comes before the rows are written shows in them, also in rows that no longer meet the condition.
\<close>

theorem select_sees_updates:
  assumes "heap_ok t"
  shows "rows_sent (select_columns rt projCols whr params t) (apply_changes rt cs t) =
      rows_sent (select_columns rt projCols whr params t) t \<and>
    (list_all (\<lambda>c. \<not> is_update c) cs \<longrightarrow>
      rows_sent (select_all rt whr params t) (apply_changes rt cs t) =
        filter (\<lambda>row. evaluateWhere rt whr (ht_columns t) row params) (table_rows t)) \<and>
    (cs = [Update whr' params' kvs] \<longrightarrow>
      rows_sent (select_all rt whr params t) (apply_changes rt cs t) =
        map (updated_row rt (ht_columns t) whr' params' kvs)
          (filter (\<lambda>row. evaluateWhere rt whr (ht_columns t) row params) (table_rows t)))"
proof (intro conjI impI)
  have bound: "a < length (ht_heap t)" "a \<in> set (ht_rows t)" if "a \<in> set (matched_rows rt whr params t)" for a
    using that assms by (auto simp: matched_rows_def heap_ok_def)
  show "rows_sent (select_columns rt projCols whr params t) (apply_changes rt cs t) =
      rows_sent (select_columns rt projCols whr params t) t"
    by (simp add: select_columns_def)
  show "rows_sent (select_all rt whr params t) (apply_changes rt cs t) =
      filter (\<lambda>row. evaluateWhere rt whr (ht_columns t) row params) (table_rows t)" if "list_all (\<lambda>c. \<not> is_update c) cs"
    using bound no_updates_keep [OF that]
    by (simp add: select_all_def flip: matched_rows_sent)
  show "rows_sent (select_all rt whr params t) (apply_changes rt cs t) =
      map (updated_row rt (ht_columns t) whr' params' kvs)
        (filter (\<lambda>row. evaluateWhere rt whr (ht_columns t) row params) (table_rows t))"
    if "cs = [Update whr' params' kvs]"
    using bound assms that
    by (simp add: apply_changes_def select_all_def heap_update_def assign_all_nth heap_ok_def flip: matched_rows_sent)
qed

lemma select_sees_updates_witness:
  "rows_sent (select_all ascii_rt ''a = x'' [] \<lparr>ht_columns = [''a''], ht_heap = [[''x''], [''y'']], ht_rows = [0, 1]\<rparr>)
     (apply_changes ascii_rt [Update [] [] [(''a'', ''z'')]]
       \<lparr>ht_columns = [''a''], ht_heap = [[''x''], [''y'']], ht_rows = [0, 1]\<rparr>) = [[''z'']]"
proof -
  let ?t = "\<lparr>ht_columns = [''a''], ht_heap = [[''x''], [''y'']], ht_rows = [0, 1]\<rparr>"
  have ok: "heap_ok ?t" by (simp add: heap_ok_def)
  have hit: "evaluateWhere ascii_rt ''a = x'' [''a''] [''x''] []" "\<not> evaluateWhere ascii_rt ''a = x'' [''a''] [''y''] []"
    "updated_row ascii_rt [''a''] [] [] [(''a'', ''z'')] [''x''] = [''z'']" by code_simp+
  from select_sees_updates [OF ok, of ascii_rt "[]" "''a = x''" "[]" "[Update [] [] [(''a'', ''z'')]]"] hit show ?thesis
    by (simp add: table_rows_def)
qed

end
