(* ===== verification/Tls.thy ===== *)
theory Tls
  imports Prelude
begin

text \<open>
  \<open>internal/server/tls.go\<close>: where the certificate of the server comes from.  The operations of the
  crypto packages are parameters, each with the text of its error; keys and encoded certificates are bytes, and
  a certificate that is ready for use stands for what a handshake with it, at a version of TLS that is at
  least the given one, makes of a stream of bytes.
\<close>

section \<open>A self-signed certificate\<close>

type_synonym certificate = "16 word \<Rightarrow> bytes \<Rightarrow> bytes option"

datatype key_usage = KeyEncipherment | DigitalSignature
datatype ext_key_usage = ServerAuth

record Template =
  ce_serial :: int
  ce_organization :: bytes
  ce_name :: bytes
  ce_from :: int       \<comment> \<open>seconds\<close>
  ce_until :: int
  ce_key_usage :: "key_usage list"
  ce_ext_usage :: "ext_key_usage list"
  ce_basic_valid :: bool
  ce_dns :: "bytes list"
  ce_ips :: "bytes list"

text \<open>
  \<open>cy_key\<close> generates a key, \<open>cy_serial\<close> a number below a limit, \<open>cy_clock\<close> gives the readings of the clock
  in their order, \<open>cy_load\<close> reads a pair of files.
\<close>

record Crypto =
  cy_key :: "bytes + bytes"
  cy_serial :: "int \<Rightarrow> bytes + int"
  cy_clock :: "nat \<Rightarrow> int"
  cy_create :: "Template \<Rightarrow> bytes \<Rightarrow> bytes + bytes"
  cy_marshal :: "bytes \<Rightarrow> bytes + bytes"
  cy_pem :: "bytes \<Rightarrow> bytes \<Rightarrow> bytes"
  cy_pair :: "bytes \<Rightarrow> bytes \<Rightarrow> bytes + certificate"
  cy_load :: "bytes \<Rightarrow> bytes \<Rightarrow> bytes + certificate"

text \<open>\<open>fmt.Errorf("msg: %w", err)\<close>.\<close>

definition wrapped :: "bytes \<Rightarrow> bytes + 'a \<Rightarrow> (bytes, 'a) outcome" where
  "wrapped msg x = (case x of Inl e \<Rightarrow> Err (msg @ '': '' @ e) | Inr v \<Rightarrow> Ret v)"

definition returns :: "bytes + 'a \<Rightarrow> (bytes, 'a) outcome" where
  "returns x = (case x of Inl e \<Rightarrow> Err e | Inr v \<Rightarrow> Ret v)"

text \<open>The sixteen bytes of an address; an IPv4 address in its mapped form.\<close>

definition loopback_addresses :: "bytes list" where
  "loopback_addresses = [replicate 10 NUL @ [CHR 0xFF, CHR 0xFF, CHR 0x7F, NUL, NUL, CHR 0x01], replicate 15 NUL @ [CHR 0x01]]"

text \<open>The clock is read twice, once for each end of the validity.\<close>

definition cert_template :: "(nat \<Rightarrow> int) \<Rightarrow> int \<Rightarrow> Template" where
  "cert_template clock serial =
     \<lparr>ce_serial = serial, ce_organization = ''PGWire-Mock Development Certificate'', ce_name = ''localhost'',
      ce_from = clock 0 - 3600, ce_until = clock 1 + 365 * 24 * 3600,
      ce_key_usage = [KeyEncipherment, DigitalSignature], ce_ext_usage = [ServerAuth], ce_basic_valid = True,
      ce_dns = [''localhost'', ''127.0.0.1''],
      ce_ips = loopback_addresses\<rparr>"

definition GenerateSelfSignedCert :: "Crypto \<Rightarrow> (bytes, certificate) outcome" where
  "GenerateSelfSignedCert cy =
     and_then (wrapped ''failed to generate private key'' (cy_key cy)) (\<lambda>priv.
     and_then (wrapped ''failed to generate serial number'' (cy_serial cy (2 ^ 128))) (\<lambda>serial.
     and_then (wrapped ''failed to create certificate'' (cy_create cy (cert_template (cy_clock cy) serial) priv)) (\<lambda>der.
     and_then (wrapped ''failed to marshal private key'' (cy_marshal cy priv)) (\<lambda>b.
     returns (cy_pair cy (cy_pem cy ''CERTIFICATE'' der) (cy_pem cy ''EC PRIVATE KEY'' b))))))"

section \<open>The configuration\<close>

text \<open>A certificate is loaded only if both files are named; one alone is ignored.  \<open>VersionTLS12\<close> is 0x0303.\<close>

record TlsConfig =
  tc_certificate :: certificate
  tc_min_version :: "16 word"

definition LoadOrGenerateTLSConfig :: "Crypto \<Rightarrow> bytes \<Rightarrow> bytes \<Rightarrow> (bytes, TlsConfig) outcome" where
  "LoadOrGenerateTLSConfig cy certFile keyFile =
     and_then
       (if certFile \<noteq> [] \<and> keyFile \<noteq> [] then
          wrapped (''failed to load TLS certificate from '' @ certFile @ '' / '' @ keyFile) (cy_load cy certFile keyFile)
        else
          (case GenerateSelfSignedCert cy of
             Err e \<Rightarrow> Err (''failed to generate self-signed TLS certificate: '' @ e)
           | r \<Rightarrow> r))
       (\<lambda>cert. Ret \<lparr>tc_certificate = cert, tc_min_version = 0x0303\<rparr>)"

text \<open>What the connection handler makes of a configuration: the stream behind the TLS handshake.\<close>

definition tls_accept :: "TlsConfig \<Rightarrow> bytes \<Rightarrow> bytes option" where
  "tls_accept cfg = tc_certificate cfg (tc_min_version cfg)"

text \<open>
  Making a certificate asks for a serial number below two to the 128 and signs, with the generated key, a template that is
  valid from before the first reading of the clock to after the second and names the local host; it is used if both file names are not given.
\<close>

lemma wrapped_Ret: "wrapped msg x = Ret v \<longleftrightarrow> x = Inr v" "returns x = Ret v \<longleftrightarrow> x = Inr v"
  by (simp_all add: wrapped_def returns_def split: sum.split)

lemma cert_template_valid: "ce_from (cert_template clock n) < clock 0" "clock 1 < ce_until (cert_template clock n)"
  "''localhost'' \<in> set (ce_dns (cert_template clock n))"
  by (simp_all add: cert_template_def)

lemma generated_certificate:
  assumes "LoadOrGenerateTLSConfig cy certFile keyFile = Ret cfg" and "certFile = [] \<or> keyFile = []"
  obtains key serial der b where "cy_key cy = Inr key" and "cy_serial cy (2 ^ 128) = Inr serial"
    and "cy_create cy (cert_template (cy_clock cy) serial) key = Inr der" and "cy_marshal cy key = Inr b"
    and "cy_pair cy (cy_pem cy ''CERTIFICATE'' der) (cy_pem cy ''EC PRIVATE KEY'' b) = Inr (tc_certificate cfg)"
    and "tc_min_version cfg = 0x0303"
    and "ce_from (cert_template (cy_clock cy) serial) < cy_clock cy 0"
    and "cy_clock cy 1 < ce_until (cert_template (cy_clock cy) serial)"
    and "''localhost'' \<in> set (ce_dns (cert_template (cy_clock cy) serial))"
proof -
  from assms obtain cert where "GenerateSelfSignedCert cy = Ret cert" and cfg: "tc_certificate cfg = cert" "tc_min_version cfg = 0x0303"
    by (auto simp: LoadOrGenerateTLSConfig_def outcome_simps split: outcome.splits)
  then obtain key serial der b where "cy_key cy = Inr key" "cy_serial cy (2 ^ 128) = Inr serial"
    "cy_create cy (cert_template (cy_clock cy) serial) key = Inr der" "cy_marshal cy key = Inr b"
    "cy_pair cy (cy_pem cy ''CERTIFICATE'' der) (cy_pem cy ''EC PRIVATE KEY'' b) = Inr (tc_certificate cfg)"
    by (auto simp: GenerateSelfSignedCert_def outcome_simps wrapped_Ret cfg)
  from this cfg(2) cert_template_valid show thesis by (rule that)
qed

end
