(* ===== verification/Server.thy ===== *)
theory Server
  imports Tls Transitions
begin

text \<open>
  \<open>internal/server/server.go\<close>: the accept loop, the goroutine of each connection and Stop, as
  interleaved steps.  A step of the program is told apart from what its clients do (connect, end
  their session) and from a failing Accept.  Connections are numbered in the order in which they
  are accepted.  What a connection does while it runs is the business of theory \<open>Conn\<close>.
\<close>

section \<open>State\<close>

datatype phase =
    Unstarted      \<comment> \<open>accepted, no goroutine yet\<close>
  | Running        \<comment> \<open>inside \<open>handler.Handle()\<close>\<close>
  | Finished       \<comment> \<open>\<open>Handle\<close> has returned\<close>
  | Unregistered   \<comment> \<open>deleted from the map\<close>
  | Ended          \<comment> \<open>\<open>wg.Done()\<close> called\<close>

record connection =
  cn_open :: bool
  cn_registered :: bool
  cn_phase :: phase

datatype accept_loop =
    Unborn | Accepting | Accepted nat | Registered nat | Exited

datatype stop_call =
    NotCalled | ShutdownClosed | ListenerClosed | ConnsClosed | Returned

record Server =
  sv_addr :: bytes
  sv_tls :: "TlsConfig option"
  sv_listening :: bool
  sv_shutdown :: bool
  sv_loop :: accept_loop
  sv_conns :: "connection list"
  sv_wg :: nat
  sv_stop :: stop_call

definition NewServer :: "bytes \<Rightarrow> Server" where
  "NewServer addr = \<lparr>sv_addr = addr, sv_tls = None, sv_listening = False, sv_shutdown = False, sv_loop = Unborn, sv_conns = [], sv_wg = 0,
     sv_stop = NotCalled\<rparr>"

definition SetTLSConfig :: "TlsConfig option \<Rightarrow> Server \<Rightarrow> Server" where
  "SetTLSConfig cfg s = s\<lparr>sv_tls := cfg\<rparr>"

text \<open>\<open>listen\<close> is \<open>net.Listen\<close>: the text of its error, if there is one.\<close>

definition Start :: "(bytes \<Rightarrow> bytes option) \<Rightarrow> Server \<Rightarrow> (bytes, Server) outcome" where
  "Start listen s =
     (case listen (sv_addr s) of
        Some e \<Rightarrow> Err (''failed to bind pgwire mock socket on '' @ sv_addr s @ '': '' @ e)
      | None \<Rightarrow> Ret (s\<lparr>sv_listening := True, sv_wg := sv_wg s + 1, sv_loop := Accepting\<rparr>))"

definition update_conn :: "nat \<Rightarrow> (connection \<Rightarrow> connection) \<Rightarrow> Server \<Rightarrow> Server" where
  "update_conn c f s = s\<lparr>sv_conns := (sv_conns s)[c := f (sv_conns s ! c)]\<rparr>"

definition phase_of :: "Server \<Rightarrow> nat \<Rightarrow> phase" where
  "phase_of s c = cn_phase (sv_conns s ! c)"

text \<open>What the server hands to \<open>handleHandshake\<close> of each connection.\<close>

definition handler_tls :: "Server \<Rightarrow> (bytes \<Rightarrow> bytes option) option" where
  "handler_tls s = map_option tls_accept (sv_tls s)"

text \<open>
  \<open>Addr\<close>: the address the listener was bound to, once Start has set it, also after it was closed;
  \<open>bound\<close> is what a listener reports for the address it was asked for.
\<close>

definition Addr :: "(bytes \<Rightarrow> bytes) \<Rightarrow> Server \<Rightarrow> bytes" where
  "Addr bound s = (if sv_loop s = Unborn then sv_addr s else bound (sv_addr s))"

section \<open>Steps\<close>

datatype actor = Program | World

text \<open>
  The accept loop: Accept returns a connection, which is then put into the map, and then gets a
  goroutine; or Accept fails, because the listener was closed or for another reason, and the loop
  ends in both cases.  The goroutine: \<open>Handle\<close> returns, closing the connection, when its client
  ends the session, or because the connection was closed under it; then it is deleted from the map, and
  the wait group is told.  Stop: the shutdown channel, the listener, every connection of the map,
  and the wait group.
\<close>

inductive server_step :: "actor \<Rightarrow> Server \<Rightarrow> Server \<Rightarrow> bool" where
  accept: "sv_loop s = Accepting \<Longrightarrow> sv_listening s \<Longrightarrow>
     server_step World s (s\<lparr>sv_loop := Accepted (length (sv_conns s)),
       sv_conns := sv_conns s @ [\<lparr>cn_open = True, cn_registered = False, cn_phase = Unstarted\<rparr>]\<rparr>)"
| accept_error: "sv_loop s = Accepting \<Longrightarrow> sv_listening s \<Longrightarrow>
     server_step World s (s\<lparr>sv_loop := Exited, sv_wg := sv_wg s - 1\<rparr>)"
| accept_closed: "sv_loop s = Accepting \<Longrightarrow> \<not> sv_listening s \<Longrightarrow>
     server_step Program s (s\<lparr>sv_loop := Exited, sv_wg := sv_wg s - 1\<rparr>)"
| register: "sv_loop s = Accepted c \<Longrightarrow>
     server_step Program s ((update_conn c (cn_registered_update (\<lambda>_. True)) s)\<lparr>sv_loop := Registered c\<rparr>)"
| spawn: "sv_loop s = Registered c \<Longrightarrow>
     server_step Program s ((update_conn c (cn_phase_update (\<lambda>_. Running)) s)\<lparr>sv_loop := Accepting, sv_wg := sv_wg s + 1\<rparr>)"
| client_ends: "c < length (sv_conns s) \<Longrightarrow> phase_of s c = Running \<Longrightarrow> cn_open (sv_conns s ! c) \<Longrightarrow>
     server_step World s (update_conn c (\<lambda>x. x\<lparr>cn_phase := Finished, cn_open := False\<rparr>) s)"
| handler_ends: "c < length (sv_conns s) \<Longrightarrow> phase_of s c = Running \<Longrightarrow> \<not> cn_open (sv_conns s ! c) \<Longrightarrow>
     server_step Program s (update_conn c (cn_phase_update (\<lambda>_. Finished)) s)"
| unregister: "c < length (sv_conns s) \<Longrightarrow> phase_of s c = Finished \<Longrightarrow>
     server_step Program s (update_conn c (\<lambda>x. x\<lparr>cn_registered := False, cn_phase := Unregistered\<rparr>) s)"
| finish: "c < length (sv_conns s) \<Longrightarrow> phase_of s c = Unregistered \<Longrightarrow>
     server_step Program s ((update_conn c (cn_phase_update (\<lambda>_. Ended)) s)\<lparr>sv_wg := sv_wg s - 1\<rparr>)"
| stop: "sv_stop s = NotCalled \<Longrightarrow> server_step World s (s\<lparr>sv_shutdown := True, sv_stop := ShutdownClosed\<rparr>)"
| stop_listener: "sv_stop s = ShutdownClosed \<Longrightarrow>
     server_step Program s (s\<lparr>sv_listening := False, sv_stop := ListenerClosed\<rparr>)"
| stop_conns: "sv_stop s = ListenerClosed \<Longrightarrow>
     server_step Program s (s\<lparr>sv_conns := map (\<lambda>x. if cn_registered x then x\<lparr>cn_open := False\<rparr> else x) (sv_conns s),
       sv_stop := ConnsClosed\<rparr>)"
| stop_return: "sv_stop s = ConnsClosed \<Longrightarrow> sv_wg s = 0 \<Longrightarrow> server_step Program s (s\<lparr>sv_stop := Returned\<rparr>)"

definition any_step :: "Server \<Rightarrow> Server \<Rightarrow> bool" where
  "any_step s t \<longleftrightarrow> (\<exists>a. server_step a s t)"

definition just_started :: "Server \<Rightarrow> bool" where
  "just_started s \<longleftrightarrow> (\<exists>listen cfg addr. Start listen (SetTLSConfig cfg (NewServer addr)) = Ret s)"

abbreviation reachable :: "Server \<Rightarrow> bool" where
  "reachable \<equiv> reach just_started any_step"

lemma reachable_started: "Start listen (SetTLSConfig cfg (NewServer addr)) = Ret s \<Longrightarrow> reachable s"
  by (rule reach_start) (auto simp: just_started_def)

lemma reachable_step: "reachable s \<Longrightarrow> server_step a s t \<Longrightarrow> reachable t"
  by (rule reach_step) (auto simp: any_step_def)

section \<open>Invariant\<close>

text \<open>
  The wait group counts the accept loop and the goroutines that have not ended.  A connection
  without a goroutine is the one the loop is about to start; a registered connection is one that
  was put into the map and not yet taken out; a connection whose handler has returned is closed.
\<close>

definition loop_alive :: "Server \<Rightarrow> nat" where
  "loop_alive s = (if sv_loop s = Exited then 0 else 1)"

definition live_handlers :: "connection list \<Rightarrow> nat" where
  "live_handlers cs = length (filter (\<lambda>x. cn_phase x \<in> {Running, Finished, Unregistered}) cs)"

definition conn_ok :: "accept_loop \<Rightarrow> nat \<Rightarrow> connection \<Rightarrow> bool" where
  "conn_ok l c x \<longleftrightarrow>
     (cn_phase x = Unstarted \<longleftrightarrow> l = Accepted c \<or> l = Registered c) \<and>
     (cn_registered x \<longleftrightarrow> cn_phase x \<in> {Running, Finished} \<or> l = Registered c) \<and>
     (cn_phase x \<in> {Finished, Unregistered, Ended} \<longrightarrow> \<not> cn_open x)"

definition server_inv :: "Server \<Rightarrow> bool" where
  "server_inv s \<longleftrightarrow>
     sv_loop s \<noteq> Unborn \<and>
     sv_wg s = loop_alive s + live_handlers (sv_conns s) \<and>
     (\<forall>c < length (sv_conns s). conn_ok (sv_loop s) c (sv_conns s ! c)) \<and>
     (\<forall>c. sv_loop s = Accepted c \<or> sv_loop s = Registered c \<longrightarrow> c < length (sv_conns s)) \<and>
     (sv_stop s \<in> {ListenerClosed, ConnsClosed, Returned} \<longrightarrow> \<not> sv_listening s) \<and>
     (sv_stop s = Returned \<longrightarrow> sv_wg s = 0)"

definition live :: "connection \<Rightarrow> nat" where
  "live x = (if cn_phase x \<in> {Running, Finished, Unregistered} then 1 else 0)"

lemma live_handlers_update:
  "c < length cs \<Longrightarrow> live_handlers (cs[c := x]) + live (cs ! c) = live_handlers cs + live x"
  using length_filter_update [of c cs "\<lambda>x. cn_phase x \<in> {Running, Finished, Unregistered}" x]
  by (simp add: live_handlers_def live_def)

lemma live_handlers_append [simp]: "live_handlers (cs @ [x]) = live_handlers cs + live x"
  by (simp add: live_handlers_def live_def)

lemma live_handlers_close: "live_handlers (map (\<lambda>x. if cn_registered x then x\<lparr>cn_open := False\<rparr> else x) cs) = live_handlers cs"
  by (induction cs) (auto simp: live_handlers_def)

lemma update_conn_simps [simp]:
  "sv_conns (update_conn c f s) = (sv_conns s)[c := f (sv_conns s ! c)]" "sv_loop (update_conn c f s) = sv_loop s"
  "sv_wg (update_conn c f s) = sv_wg s" "sv_stop (update_conn c f s) = sv_stop s"
  "sv_listening (update_conn c f s) = sv_listening s"
  by (simp_all add: update_conn_def)

text \<open>A step of one goroutine: only its connection and the counter change.\<close>

lemma server_inv_conn:
  assumes "server_inv s" and "c < length (sv_conns s)" and "conn_ok (sv_loop s) c (f (sv_conns s ! c))"
    and "n + live (sv_conns s ! c) = sv_wg s + live (f (sv_conns s ! c))" and "sv_stop s = Returned \<longrightarrow> n = 0"
  shows "server_inv ((update_conn c f s)\<lparr>sv_wg := n\<rparr>)"
  using assms live_handlers_update [OF assms(2), of "f (sv_conns s ! c)"]
  by (auto simp: server_inv_def nth_list_update loop_alive_def)

lemma live_counted: "server_inv s \<Longrightarrow> c < length (sv_conns s) \<Longrightarrow> live (sv_conns s ! c) \<le> sv_wg s"
  using live_handlers_update [of c "sv_conns s" "(sv_conns s ! c)\<lparr>cn_phase := Ended\<rparr>"]
  by (simp add: server_inv_def live_def)

lemma server_inv_step: "server_step a s t \<Longrightarrow> server_inv s \<Longrightarrow> server_inv t"
proof (induction rule: server_step.induct)
  case (accept s)
  then show ?case by (auto simp: server_inv_def loop_alive_def live_def nth_append conn_ok_def)
next
  case (accept_error s)
  then show ?case by (auto simp: server_inv_def loop_alive_def conn_ok_def)
next
  case (accept_closed s)
  then show ?case by (auto simp: server_inv_def loop_alive_def conn_ok_def)
next
  case (register s c)
  then have c: "c < length (sv_conns s)" by (simp add: server_inv_def)
  have "live ((sv_conns s ! c)\<lparr>cn_registered := True\<rparr>) = live (sv_conns s ! c)" by (simp add: live_def)
  with register c live_handlers_update [OF c, of "(sv_conns s ! c)\<lparr>cn_registered := True\<rparr>"] show ?case
    by (auto simp: server_inv_def loop_alive_def nth_list_update conn_ok_def)
next
  case (spawn s c)
  then have c: "c < length (sv_conns s)" "cn_phase (sv_conns s ! c) = Unstarted" "sv_stop s \<noteq> Returned"
    by (auto simp: server_inv_def conn_ok_def loop_alive_def)
  have "live ((sv_conns s ! c)\<lparr>cn_phase := Running\<rparr>) = 1" "live (sv_conns s ! c) = 0" by (simp_all add: live_def c)
  with spawn c live_handlers_update [OF c(1), of "(sv_conns s ! c)\<lparr>cn_phase := Running\<rparr>"] show ?case
    by (auto simp: server_inv_def loop_alive_def nth_list_update conn_ok_def)
next
  case (client_ends c s)
  have "conn_ok (sv_loop s) c (sv_conns s ! c)" using client_ends by (simp add: server_inv_def)
  then have "server_inv ((update_conn c (\<lambda>x. x\<lparr>cn_phase := Finished, cn_open := False\<rparr>) s)\<lparr>sv_wg := sv_wg s\<rparr>)"
    using client_ends by (intro server_inv_conn) (auto simp: conn_ok_def phase_of_def live_def server_inv_def)
  then show ?case by (simp add: update_conn_def)
next
  case (handler_ends c s)
  have "conn_ok (sv_loop s) c (sv_conns s ! c)" using handler_ends by (simp add: server_inv_def)
  then have "server_inv ((update_conn c (cn_phase_update (\<lambda>_. Finished)) s)\<lparr>sv_wg := sv_wg s\<rparr>)"
    using handler_ends by (intro server_inv_conn) (auto simp: conn_ok_def phase_of_def live_def server_inv_def)
  then show ?case by (simp add: update_conn_def)
next
  case (unregister c s)
  have "conn_ok (sv_loop s) c (sv_conns s ! c)" using unregister by (simp add: server_inv_def)
  then have "server_inv ((update_conn c (\<lambda>x. x\<lparr>cn_registered := False, cn_phase := Unregistered\<rparr>) s)\<lparr>sv_wg := sv_wg s\<rparr>)"
    using unregister by (intro server_inv_conn) (auto simp: conn_ok_def phase_of_def live_def server_inv_def)
  then show ?case by (simp add: update_conn_def)
next
  case (finish c s)
  have "conn_ok (sv_loop s) c (sv_conns s ! c)" using finish by (simp add: server_inv_def)
  moreover have "live (sv_conns s ! c) = 1" using finish(2) by (simp add: live_def phase_of_def)
  moreover have "1 \<le> sv_wg s" using live_counted [OF finish(3,1)] calculation(2) by simp
  ultimately show ?case
    using finish by (intro server_inv_conn) (auto simp: conn_ok_def phase_of_def live_def server_inv_def)
next
  case (stop_conns s)
  then show ?case
    by (auto simp: server_inv_def loop_alive_def live_handlers_close conn_ok_def)
qed (auto simp: server_inv_def loop_alive_def)

interpretation server: invariant_of just_started any_step server_inv
proof
  show "server_inv s" if "just_started s" for s
    using that by (auto simp: just_started_def Start_def SetTLSConfig_def NewServer_def server_inv_def loop_alive_def
        live_handlers_def split: option.splits)
qed (auto simp: any_step_def server_inv_step)

text \<open>The address of a started server never changes, also when it is stopped.\<close>

lemma Addr_stable: "reachable s \<Longrightarrow> server_step a s t \<Longrightarrow> Addr bound s = bound (sv_addr s) \<and> Addr bound t = bound (sv_addr s)"
proof -
  assume s: "reachable s" and st: "server_step a s t"
  have "server_inv s" "server_inv t" using server.always [OF s] server.always [OF reachable_step [OF s st]] by simp_all
  moreover have "sv_addr t = sv_addr s" using st by cases (simp_all add: update_conn_def)
  ultimately show ?thesis by (simp add: Addr_def server_inv_def)
qed

section \<open>Stop\<close>

text \<open>An upper bound of the steps that are left once no connection can be accepted.\<close>

fun phase_work :: "phase \<Rightarrow> nat" where
  "phase_work Unstarted = 4"
| "phase_work Running = 3"
| "phase_work Finished = 2"
| "phase_work Unregistered = 1"
| "phase_work Ended = 0"

fun loop_work :: "accept_loop \<Rightarrow> nat" where
  "loop_work (Accepted c) = 3"
| "loop_work (Registered c) = 2"
| "loop_work Accepting = 1"
| "loop_work Exited = 0"
| "loop_work Unborn = 0"

fun stop_work :: "stop_call \<Rightarrow> nat" where
  "stop_work NotCalled = 4"
| "stop_work ShutdownClosed = 3"
| "stop_work ListenerClosed = 2"
| "stop_work ConnsClosed = 1"
| "stop_work Returned = 0"

definition conns_work :: "connection list \<Rightarrow> nat" where
  "conns_work cs = sum_list (map (\<lambda>x. phase_work (cn_phase x)) cs)"

definition remaining :: "Server \<Rightarrow> nat" where
  "remaining s = loop_work (sv_loop s) + conns_work (sv_conns s) + stop_work (sv_stop s)"

lemma conns_work_update:
  "c < length cs \<Longrightarrow> conns_work (cs[c := x]) + phase_work (cn_phase (cs ! c)) = conns_work cs + phase_work (cn_phase x)"
  using sum_list_map_update [of c cs "\<lambda>x. phase_work (cn_phase x)" x] by (simp add: conns_work_def)

lemma conns_work_close [simp]:
  "conns_work (map (\<lambda>x. if cn_registered x then x\<lparr>cn_open := False\<rparr> else x) cs) = conns_work cs"
  by (induction cs) (auto simp: conns_work_def)

lemma step_remaining:
  assumes "server_step a s t" and "server_inv s" and "\<not> sv_listening s"
  shows "remaining t < remaining s"
  using assms
proof (induction rule: server_step.induct)
  case (register s c)
  then have "c < length (sv_conns s)" by (simp add: server_inv_def)
  from conns_work_update [OF this, of "(sv_conns s ! c)\<lparr>cn_registered := True\<rparr>"] register show ?case
    by (simp add: remaining_def)
next
  case (spawn s c)
  then have c: "c < length (sv_conns s)" "cn_phase (sv_conns s ! c) = Unstarted"
    by (auto simp: server_inv_def conn_ok_def)
  from conns_work_update [OF c(1), of "(sv_conns s ! c)\<lparr>cn_phase := Running\<rparr>"] spawn c(2) show ?case
    by (simp add: remaining_def)
next
  case (client_ends c s)
  from conns_work_update [OF this(1), of "(sv_conns s ! c)\<lparr>cn_phase := Finished, cn_open := False\<rparr>"] client_ends
  show ?case by (simp add: remaining_def phase_of_def)
next
  case (handler_ends c s)
  from conns_work_update [OF this(1), of "(sv_conns s ! c)\<lparr>cn_phase := Finished\<rparr>"] handler_ends
  show ?case by (simp add: remaining_def phase_of_def)
next
  case (unregister c s)
  from conns_work_update [OF this(1), of "(sv_conns s ! c)\<lparr>cn_registered := False, cn_phase := Unregistered\<rparr>"] unregister
  show ?case by (simp add: remaining_def phase_of_def)
next
  case (finish c s)
  from conns_work_update [OF this(1), of "(sv_conns s ! c)\<lparr>cn_phase := Ended\<rparr>"] finish
  show ?case by (simp add: remaining_def phase_of_def)
qed (simp_all add: remaining_def)

text \<open>
  Stop is on its way to return: the listener is closed and every connection is closed, or
  will be when Stop gets to it.
\<close>

definition stopping :: "Server \<Rightarrow> bool" where
  "stopping s \<longleftrightarrow> server_inv s \<and>
     (sv_stop s = ListenerClosed \<and> (\<forall>c. sv_loop s \<noteq> Accepted c) \<or>
      sv_stop s \<in> {ConnsClosed, Returned} \<and> (\<forall>x \<in> set (sv_conns s). \<not> cn_open x))"

lemma stopping_listening: "stopping s \<Longrightarrow> \<not> sv_listening s"
  by (auto simp: stopping_def server_inv_def)

lemma set_update_closed: "\<forall>x \<in> set cs. \<not> cn_open x \<Longrightarrow> \<not> cn_open y \<Longrightarrow> \<forall>x \<in> set (cs[c := y]). \<not> cn_open x"
  using set_update_subset_insert [of cs c y] by auto

lemma closes_all:
  assumes "server_inv s" and "\<forall>c. sv_loop s \<noteq> Accepted c" and "x \<in> set (sv_conns s)" and "cn_open x"
  shows "cn_registered x"
proof -
  from assms(3) obtain c where c: "c < length (sv_conns s)" "x = sv_conns s ! c" by (auto simp: in_set_conv_nth)
  with assms(1) have ok: "conn_ok (sv_loop s) c x" by (simp add: server_inv_def)
  show ?thesis using ok assms(2,4) by (cases "cn_phase x") (auto simp: conn_ok_def)
qed

lemma stopping_step: "server_step a s t \<Longrightarrow> stopping s \<Longrightarrow> stopping t"
proof -
  assume st: "server_step a s t" and s: "stopping s"
  have inv: "server_inv s" using s by (simp add: stopping_def)
  note inv' = server_inv_step [OF st inv]
  from st have "sv_stop t = ListenerClosed \<and> (\<forall>c. sv_loop t \<noteq> Accepted c) \<or>
      sv_stop t \<in> {ConnsClosed, Returned} \<and> (\<forall>x \<in> set (sv_conns t). \<not> cn_open x)"
  proof cases
    case stop_conns
    have "\<forall>c. sv_loop s \<noteq> Accepted c" using s stop_conns(3) by (simp add: stopping_def)
    with closes_all [OF inv] have "\<forall>x \<in> set (sv_conns s). cn_open x \<longrightarrow> cn_registered x" by blast
    then show ?thesis unfolding stop_conns(2) by auto
  next
    case (register c)
    then have c: "c < length (sv_conns s)" using inv by (simp add: server_inv_def)
    show ?thesis using s register set_update_closed [of "sv_conns s" "(sv_conns s ! c)\<lparr>cn_registered := True\<rparr>" c] nth_mem [OF c]
      by (auto simp: stopping_def)
  next
    case (spawn c)
    then have c: "c < length (sv_conns s)" using inv by (simp add: server_inv_def)
    show ?thesis using s spawn set_update_closed [of "sv_conns s" "(sv_conns s ! c)\<lparr>cn_phase := Running\<rparr>" c] nth_mem [OF c]
      by (auto simp: stopping_def)
  next
    case (client_ends c)
    show ?thesis using s client_ends nth_mem [OF client_ends(3)]
        set_update_closed [of "sv_conns s" "(sv_conns s ! c)\<lparr>cn_phase := Finished, cn_open := False\<rparr>" c]
      by (auto simp: stopping_def)
  next
    case (handler_ends c)
    show ?thesis using s handler_ends set_update_closed [of "sv_conns s" "(sv_conns s ! c)\<lparr>cn_phase := Finished\<rparr>" c]
      by (auto simp: stopping_def)
  next
    case (unregister c)
    show ?thesis using s unregister nth_mem [OF unregister(3)]
        set_update_closed [of "sv_conns s" "(sv_conns s ! c)\<lparr>cn_registered := False, cn_phase := Unregistered\<rparr>" c]
      by (auto simp: stopping_def)
  next
    case (finish c)
    show ?thesis using s finish nth_mem [OF finish(3)]
        set_update_closed [of "sv_conns s" "(sv_conns s ! c)\<lparr>cn_phase := Ended\<rparr>" c]
      by (auto simp: stopping_def)
  qed (use s stopping_listening [OF s] in \<open>auto simp: stopping_def\<close>)
  with inv' show "stopping t" by (simp add: stopping_def)
qed

lemma live_handler_exists:
  "0 < live_handlers cs \<Longrightarrow> \<exists>c < length cs. cn_phase (cs ! c) \<in> {Running, Finished, Unregistered}"
proof -
  assume "0 < live_handlers cs"
  then have "filter (\<lambda>x. cn_phase x \<in> {Running, Finished, Unregistered}) cs \<noteq> []" by (simp add: live_handlers_def)
  then obtain x where "x \<in> set cs" "cn_phase x \<in> {Running, Finished, Unregistered}" by (auto simp: filter_empty_conv)
  then show ?thesis by (auto simp: in_set_conv_nth)
qed

lemma stopping_progress:
  assumes "stopping s" and "sv_stop s \<noteq> Returned"
  shows "\<exists>t. server_step Program s t"
proof (cases "sv_stop s = ListenerClosed")
  case True
  then show ?thesis by (blast intro: server_step.stop_conns)
next
  case False
  then have st: "sv_stop s = ConnsClosed" "server_inv s" and closed: "\<And>c. c < length (sv_conns s) \<Longrightarrow> \<not> cn_open (sv_conns s ! c)"
    using assms by (auto simp: stopping_def)
  show ?thesis
  proof (cases "sv_loop s")
    case Exited
    show ?thesis
    proof (cases "sv_wg s = 0")
      case True
      with st show ?thesis by (blast intro: server_step.stop_return)
    next
      case False
      with st Exited have "0 < live_handlers (sv_conns s)" by (simp add: server_inv_def loop_alive_def)
      from live_handler_exists [OF this] obtain c where c: "c < length (sv_conns s)"
        "phase_of s c = Running \<or> phase_of s c = Finished \<or> phase_of s c = Unregistered" by (auto simp: phase_of_def)
      with closed [OF c(1)] show ?thesis
        by (blast intro: server_step.handler_ends server_step.unregister server_step.finish)
    qed
  next
    case Accepting
    with stopping_listening [OF assms(1)] show ?thesis by (blast intro: server_step.accept_closed)
  qed (use st in \<open>auto simp: server_inv_def intro: server_step.register server_step.spawn\<close>)
qed

lemma returned_done:
  assumes "server_inv s" and "sv_stop s = Returned"
  shows "sv_loop s = Exited \<and> (\<forall>x \<in> set (sv_conns s). cn_phase x = Ended \<and> \<not> cn_open x \<and> \<not> cn_registered x)"
proof -
  have z: "sv_wg s = 0" "sv_loop s = Exited" "live_handlers (sv_conns s) = 0"
    using assms by (auto simp: server_inv_def loop_alive_def split: if_splits)
  moreover have "cn_phase x = Ended \<and> \<not> cn_open x \<and> \<not> cn_registered x" if x: "x \<in> set (sv_conns s)" for x
  proof -
    from x obtain c where "c < length (sv_conns s)" "x = sv_conns s ! c" by (auto simp: in_set_conv_nth)
    with assms(1) z(2) have "conn_ok Exited c x" by (auto simp: server_inv_def)
    moreover have "cn_phase x \<notin> {Running, Finished, Unregistered}"
      using z(3) x by (auto simp: live_handlers_def filter_empty_conv)
    ultimately show ?thesis by (cases "cn_phase x") (auto simp: conn_ok_def)
  qed
  ultimately show ?thesis by blast
qed

interpretation stopping_server: measured stopping any_step stopping remaining
proof
  fix s t
  assume "any_step s t" and s: "stopping s"
  then obtain a where a: "server_step a s t" by (auto simp: any_step_def)
  show "stopping t" using a s by (rule stopping_step)
  show "remaining t < remaining s"
    using step_remaining [OF a] s stopping_listening [OF s] by (simp add: stopping_def)
qed

text \<open>
  Stop returns: once it has closed the listener, and if the accept loop is not at that moment
  between accepting a connection and registering it, every run of the server from there is
  finite, whatever the clients do, and can only end with Stop returned; then the
  accept loop and every goroutine have ended and every connection is closed and out of the map.
\<close>

theorem Stop_returns:
  assumes "reachable s" and "sv_stop s = ListenerClosed" and "\<forall>c. sv_loop s \<noteq> Accepted c"
    and "(any_step ^^ n) s t"
  shows "n \<le> remaining s \<and> (sv_stop t \<noteq> Returned \<longrightarrow> (\<exists>u. server_step Program t u)) \<and>
    (sv_stop t = Returned \<longrightarrow> sv_loop t = Exited \<and>
       (\<forall>x \<in> set (sv_conns t). cn_phase x = Ended \<and> \<not> cn_open x \<and> \<not> cn_registered x))"
proof -
  have s: "stopping s" using assms(2,3) server.always [OF assms(1)] by (simp add: stopping_def)
  have t: "stopping t" "n \<le> remaining s"
    using stopping_server.after [OF assms(4) s] stopping_server.bounded [OF assms(4) s] by simp_all
  with stopping_progress [OF t(1)] returned_done [of t] show ?thesis by (simp add: stopping_def)
qed

text \<open>The server with one connection, in the states of the two runs below.\<close>

definition at :: "bool \<Rightarrow> accept_loop \<Rightarrow> connection list \<Rightarrow> nat \<Rightarrow> stop_call \<Rightarrow> Server" where
  "at listening l cs wg st = \<lparr>sv_addr = ''0.0.0.0:5432'', sv_tls = None, sv_listening = listening, sv_shutdown = (st \<noteq> NotCalled), sv_loop = l, sv_conns = cs,
     sv_wg = wg, sv_stop = st\<rparr>"

abbreviation fresh :: connection where
  "fresh \<equiv> \<lparr>cn_open = True, cn_registered = False, cn_phase = Unstarted\<rparr>"

lemma reach_accepted: "reachable (at True (Accepted 0) [fresh] 1 NotCalled)"
proof -
  have "reachable (at True Accepting [] 1 NotCalled)"
    using reachable_started [of "\<lambda>_. None" None "''0.0.0.0:5432''"]
    by (simp add: Start_def SetTLSConfig_def NewServer_def at_def)
  moreover have "server_step World (at True Accepting [] 1 NotCalled) (at True (Accepted 0) [fresh] 1 NotCalled)"
    using server_step.accept [of "at True Accepting [] 1 NotCalled"] by (simp add: at_def)
  ultimately show ?thesis by (rule reachable_step)
qed

lemma reach_stopping: "reachable (at False (Accepted 0) [fresh] 1 ListenerClosed)"
proof -
  have 1: "server_step World (at True (Accepted 0) [fresh] 1 NotCalled) (at True (Accepted 0) [fresh] 1 ShutdownClosed)"
    using server_step.stop [of "at True (Accepted 0) [fresh] 1 NotCalled"] by (simp add: at_def)
  have 2: "server_step Program (at True (Accepted 0) [fresh] 1 ShutdownClosed) (at False (Accepted 0) [fresh] 1 ListenerClosed)"
    using server_step.stop_listener [of "at True (Accepted 0) [fresh] 1 ShutdownClosed"] by (simp add: at_def)
  from reach_accepted 1 2 show ?thesis by (blast intro: reachable_step)
qed

lemma reach_registered: "reachable (at False (Registered 0) [fresh\<lparr>cn_registered := True\<rparr>] 1 ListenerClosed)"
proof -
  have "server_step Program (at False (Accepted 0) [fresh] 1 ListenerClosed)
      (at False (Registered 0) [fresh\<lparr>cn_registered := True\<rparr>] 1 ListenerClosed)"
    using server_step.register [of "at False (Accepted 0) [fresh] 1 ListenerClosed" 0]
    by (simp add: at_def update_conn_def)
  with reach_stopping show ?thesis by (rule reachable_step)
qed

lemma Stop_returns_witness:
  "\<exists>u. server_step Program (at False (Registered 0) [fresh\<lparr>cn_registered := True\<rparr>] 1 ListenerClosed) u"
  using Stop_returns [OF reach_registered, of 0 "at False (Registered 0) [fresh\<lparr>cn_registered := True\<rparr>] 1 ListenerClosed"]
  by (simp add: at_def)

text \<open>The connection, accepted before Stop and registered after it has closed the others.\<close>

abbreviation forgotten :: connection where
  "forgotten \<equiv> \<lparr>cn_open = True, cn_registered = True, cn_phase = Running\<rparr>"

lemma reach_forgotten: "reachable (at False Exited [forgotten] 1 ConnsClosed)"
proof -
  have 1: "server_step Program (at False (Accepted 0) [fresh] 1 ListenerClosed) (at False (Accepted 0) [fresh] 1 ConnsClosed)"
    using server_step.stop_conns [of "at False (Accepted 0) [fresh] 1 ListenerClosed"] by (simp add: at_def)
  have 2: "server_step Program (at False (Accepted 0) [fresh] 1 ConnsClosed)
      (at False (Registered 0) [fresh\<lparr>cn_registered := True\<rparr>] 1 ConnsClosed)"
    using server_step.register [of "at False (Accepted 0) [fresh] 1 ConnsClosed" 0] by (simp add: at_def update_conn_def)
  have 3: "server_step Program (at False (Registered 0) [fresh\<lparr>cn_registered := True\<rparr>] 1 ConnsClosed)
      (at False Accepting [forgotten] 2 ConnsClosed)"
    using server_step.spawn [of "at False (Registered 0) [fresh\<lparr>cn_registered := True\<rparr>] 1 ConnsClosed" 0]
    by (simp add: at_def update_conn_def numeral_2_eq_2)
  have 4: "server_step Program (at False Accepting [forgotten] 2 ConnsClosed) (at False Exited [forgotten] 1 ConnsClosed)"
    using server_step.accept_closed [of "at False Accepting [forgotten] 2 ConnsClosed"] by (simp add: at_def)
  from reach_stopping 1 2 3 4 show ?thesis by (blast intro: reachable_step)
qed

lemma forgotten_stuck: "\<not> server_step Program (at False Exited [forgotten] 1 ConnsClosed) t"
  by (auto simp: at_def phase_of_def elim!: server_step.cases)

text \<open>
  C39. The exception is real: a connection accepted just before Stop is registered after
  Stop has closed the others, and stays open.  The server then waits for that client: Stop does
  not return, and no step of the program is possible, until the client itself ends the session.
\<close>

theorem Stop_waits_for_client:
  "\<exists>s. reachable s \<and> sv_stop s = ConnsClosed \<and> sv_shutdown s \<and> (\<forall>t. \<not> server_step Program s t) \<and>
     (\<exists>x \<in> set (sv_conns s). cn_open x \<and> cn_phase x = Running) \<and>
     (\<forall>a t. server_step a s t \<longrightarrow> a = World \<and> (\<forall>x \<in> set (sv_conns t). \<not> cn_open x))"
proof (intro exI conjI)
  show "reachable (at False Exited [forgotten] 1 ConnsClosed)" by (rule reach_forgotten)
  show "\<forall>t. \<not> server_step Program (at False Exited [forgotten] 1 ConnsClosed) t" using forgotten_stuck by blast
  show "\<forall>a t. server_step a (at False Exited [forgotten] 1 ConnsClosed) t \<longrightarrow> a = World \<and>
      (\<forall>x \<in> set (sv_conns t). \<not> cn_open x)"
    by (auto simp: at_def phase_of_def update_conn_def elim!: server_step.cases)
qed (simp_all add: at_def)

lemma Stop_waits_for_client_witness:
  "\<exists>s. reachable s \<and> sv_stop s = ConnsClosed \<and> \<not> server_step Program s (NewServer [])"
  using Stop_waits_for_client by blast

end
