(* ===== verification/Proxy.thy ===== *)
theory Proxy
  imports Prelude Transitions
begin

text \<open>
  \<open>ProxyConnection\<close> of \<open>internal/proxy/recorder.go\<close>: two goroutines that copy bytes between the client
  and the upstream server, as interleaved steps.  Each side may send, and may close its connection; a
  goroutine moves any part of what has arrived, ends when its source is closed and drained, ends
  early when it reads from a connection that has broken off (what was not yet read is lost), and may end early when it writes to a side that has
  closed or broken off, possibly after a part of the write.  The function returns, and closes both connections, when
  both goroutines have ended.
\<close>

section \<open>State\<close>

text \<open>
  One side: all it has sent, how much of that was read, what it was given, whether it has closed, and
  whether its connection has broken off (a reset, a lost network), after which it is closed too.
\<close>

record side =
  sd_sent :: bytes
  sd_read :: nat
  sd_given :: bytes
  sd_closed :: bool
  sd_broken :: bool

text \<open>
  A goroutine: copying, or ended in one of the three ways in which \<open>io.Copy\<close> returns: at the end of its
  source, by an error of \<open>Read\<close>, or by an error of \<open>Write\<close>.
\<close>

datatype copier = Copying | Drained | ReadFailed | WriteFailed

record Proxy =
  px_client :: side
  px_upstream :: side
  px_up :: copier          \<comment> \<open>client to upstream\<close>
  px_down :: copier        \<comment> \<open>upstream to client\<close>
  px_returned :: bool

definition idle_side :: side where
  "idle_side = \<lparr>sd_sent = [], sd_read = 0, sd_given = [], sd_closed = False, sd_broken = False\<rparr>"

text \<open>The start: \<open>None\<close> if the upstream server cannot be reached; then the client is closed at once.\<close>

definition ProxyConnection :: "bool \<Rightarrow> Proxy option" where
  "ProxyConnection dialled =
     (if dialled then Some \<lparr>px_client = idle_side, px_upstream = idle_side, px_up = Copying, px_down = Copying,
        px_returned = False\<rparr>
      else None)"

text \<open>One \<open>Read\<close> of at most \<open>n\<close> bytes and the \<open>Write\<close> of what it returned.\<close>

definition copy_from :: "nat \<Rightarrow> side \<Rightarrow> side" where
  "copy_from n src = src\<lparr>sd_read := sd_read src + n\<rparr>"

definition copy_to :: "nat \<Rightarrow> side \<Rightarrow> side \<Rightarrow> side" where
  "copy_to n src dst = dst\<lparr>sd_given := sd_given dst @ take n (drop (sd_read src) (sd_sent src))\<rparr>"

definition can_copy :: "nat \<Rightarrow> side \<Rightarrow> bool" where
  "can_copy n src \<longleftrightarrow> 0 < n \<and> sd_read src + n \<le> length (sd_sent src)"

definition drained :: "side \<Rightarrow> bool" where
  "drained src \<longleftrightarrow> sd_closed src \<and> sd_read src = length (sd_sent src)"

datatype proxy_actor = Peers | Copiers

inductive proxy_step :: "proxy_actor \<Rightarrow> Proxy \<Rightarrow> Proxy \<Rightarrow> bool" where
  client_sends: "\<not> sd_closed (px_client s) \<Longrightarrow>
     proxy_step Peers s (s\<lparr>px_client := px_client s\<lparr>sd_sent := sd_sent (px_client s) @ bs\<rparr>\<rparr>)"
| upstream_sends: "\<not> sd_closed (px_upstream s) \<Longrightarrow>
     proxy_step Peers s (s\<lparr>px_upstream := px_upstream s\<lparr>sd_sent := sd_sent (px_upstream s) @ bs\<rparr>\<rparr>)"
| client_closes: "\<not> sd_closed (px_client s) \<Longrightarrow> proxy_step Peers s (s\<lparr>px_client := px_client s\<lparr>sd_closed := True\<rparr>\<rparr>)"
| upstream_closes: "\<not> sd_closed (px_upstream s) \<Longrightarrow> proxy_step Peers s (s\<lparr>px_upstream := px_upstream s\<lparr>sd_closed := True\<rparr>\<rparr>)"
| client_breaks: "proxy_step Peers s (s\<lparr>px_client := px_client s\<lparr>sd_closed := True, sd_broken := True\<rparr>\<rparr>)"
| upstream_breaks: "proxy_step Peers s (s\<lparr>px_upstream := px_upstream s\<lparr>sd_closed := True, sd_broken := True\<rparr>\<rparr>)"
| up_copies: "px_up s = Copying \<Longrightarrow> can_copy n (px_client s) \<Longrightarrow>
     proxy_step Copiers s (s\<lparr>px_client := copy_from n (px_client s), px_upstream := copy_to n (px_client s) (px_upstream s)\<rparr>)"
| down_copies: "px_down s = Copying \<Longrightarrow> can_copy n (px_upstream s) \<Longrightarrow>
     proxy_step Copiers s (s\<lparr>px_upstream := copy_from n (px_upstream s), px_client := copy_to n (px_upstream s) (px_client s)\<rparr>)"
| up_ends: "px_up s = Copying \<Longrightarrow> drained (px_client s) \<Longrightarrow> proxy_step Copiers s (s\<lparr>px_up := Drained\<rparr>)"
| down_ends: "px_down s = Copying \<Longrightarrow> drained (px_upstream s) \<Longrightarrow> proxy_step Copiers s (s\<lparr>px_down := Drained\<rparr>)"
| up_breaks: "px_up s = Copying \<Longrightarrow> sd_broken (px_client s) \<Longrightarrow> proxy_step Copiers s (s\<lparr>px_up := ReadFailed\<rparr>)"
| down_breaks: "px_down s = Copying \<Longrightarrow> sd_broken (px_upstream s) \<Longrightarrow> proxy_step Copiers s (s\<lparr>px_down := ReadFailed\<rparr>)"
| up_fails: "px_up s = Copying \<Longrightarrow> can_copy n (px_client s) \<Longrightarrow> sd_closed (px_upstream s) \<Longrightarrow> m < n \<Longrightarrow>
     proxy_step Copiers s (s\<lparr>px_client := copy_from n (px_client s), px_upstream := copy_to m (px_client s) (px_upstream s),
       px_up := WriteFailed\<rparr>)"
| down_fails: "px_down s = Copying \<Longrightarrow> can_copy n (px_upstream s) \<Longrightarrow> sd_closed (px_client s) \<Longrightarrow> m < n \<Longrightarrow>
     proxy_step Copiers s (s\<lparr>px_upstream := copy_from n (px_upstream s), px_client := copy_to m (px_upstream s) (px_client s),
       px_down := WriteFailed\<rparr>)"
| returns: "px_up s \<noteq> Copying \<Longrightarrow> px_down s \<noteq> Copying \<Longrightarrow> \<not> px_returned s \<Longrightarrow>
     proxy_step Copiers s (s\<lparr>px_returned := True\<rparr>)"

definition any_proxy_step :: "Proxy \<Rightarrow> Proxy \<Rightarrow> bool" where
  "any_proxy_step s t \<longleftrightarrow> (\<exists>a. proxy_step a s t)"

abbreviation proxy_reachable :: "Proxy \<Rightarrow> bool" where
  "proxy_reachable \<equiv> reach (\<lambda>s. ProxyConnection True = Some s) any_proxy_step"

lemma proxy_reachable_step: "proxy_reachable s \<Longrightarrow> proxy_step a s t \<Longrightarrow> proxy_reachable t"
  by (rule reach_step) (auto simp: any_proxy_step_def)

section \<open>What reaches the other side\<close>

text \<open>
  What a side was given is what was read from the other, as far as the writes succeeded; a
  goroutine that ended regularly has moved everything; one that failed had a reason.
\<close>

definition carried :: "copier \<Rightarrow> side \<Rightarrow> side \<Rightarrow> bool" where
  "carried c src dst \<longleftrightarrow> sd_read src \<le> length (sd_sent src) \<and>
     (if c = WriteFailed then sd_closed dst \<and> (\<exists>n \<le> sd_read src. sd_given dst = take n (sd_sent src))
      else sd_given dst = take (sd_read src) (sd_sent src)) \<and>
     (c = Drained \<longrightarrow> drained src) \<and> (c = ReadFailed \<longrightarrow> sd_broken src) \<and> (sd_broken src \<longrightarrow> sd_closed src)"

definition proxy_inv :: "Proxy \<Rightarrow> bool" where
  "proxy_inv s \<longleftrightarrow> carried (px_up s) (px_client s) (px_upstream s) \<and> carried (px_down s) (px_upstream s) (px_client s) \<and>
     (px_returned s \<longrightarrow> px_up s \<noteq> Copying \<and> px_down s \<noteq> Copying)"

lemma carried_sends:
  "carried c src dst \<Longrightarrow> \<not> sd_closed src \<Longrightarrow> carried c (src\<lparr>sd_sent := sd_sent src @ bs\<rparr>) dst"
  by (fastforce simp: carried_def drained_def split: if_splits)

lemma carried_other: "carried c src (dst\<lparr>sd_sent := bs\<rparr>) = carried c src dst"
  by (simp add: carried_def)

lemma carried_closes: "carried c src dst \<Longrightarrow> carried c (src\<lparr>sd_closed := True\<rparr>) dst"
  "carried c src dst \<Longrightarrow> carried c src (dst\<lparr>sd_closed := True\<rparr>)"
  by (auto simp: carried_def drained_def)

lemma carried_breaks: "carried c src dst \<Longrightarrow> carried c (src\<lparr>sd_closed := True, sd_broken := True\<rparr>) dst"
  "carried c src dst \<Longrightarrow> carried c src (dst\<lparr>sd_closed := True, sd_broken := True\<rparr>)"
  "carried Copying src dst \<Longrightarrow> sd_broken src \<Longrightarrow> carried ReadFailed src dst"
  by (auto simp: carried_def drained_def)

lemma carried_copies: "carried Copying src dst \<Longrightarrow> can_copy n src \<Longrightarrow> carried Copying (copy_from n src) (copy_to n src dst)"
  by (simp add: carried_def copy_from_def copy_to_def can_copy_def take_add)

lemma carried_ends: "carried Copying src dst \<Longrightarrow> drained src \<Longrightarrow> carried Drained src dst"
  by (simp add: carried_def)

lemma carried_fails:
  "carried Copying src dst \<Longrightarrow> can_copy n src \<Longrightarrow> sd_closed dst \<Longrightarrow> m < n \<Longrightarrow>
   carried WriteFailed (copy_from n src) (copy_to m src dst)"
  by (auto simp: carried_def copy_from_def copy_to_def can_copy_def drained_def take_add
      intro!: exI [of _ "sd_read src + m"])

text \<open>A copy in one direction leaves the other direction alone.\<close>

lemma carried_across:
  "carried c src dst \<Longrightarrow> carried c (copy_to m dst src) (copy_from n dst)"
  by (simp add: carried_def copy_from_def copy_to_def drained_def)

lemma proxy_inv_step: "proxy_step a s t \<Longrightarrow> proxy_inv s \<Longrightarrow> proxy_inv t"
  by (induction rule: proxy_step.induct)
    (auto simp: proxy_inv_def carried_sends carried_other carried_closes carried_breaks carried_ends carried_fails carried_copies
      carried_across)

interpretation proxy: invariant_of "\<lambda>s. ProxyConnection True = Some s" any_proxy_step proxy_inv
proof
  show "proxy_inv s" if "ProxyConnection True = Some s" for s
    using that by (auto simp: ProxyConnection_def proxy_inv_def carried_def idle_side_def)
qed (auto simp: any_proxy_step_def proxy_inv_step)

text \<open>
  C40. The proxy is transparent: at every moment each side has been given a prefix of what the
  other sent, unchanged and in order.  When it has returned, each direction has carried all of it, or was cut short because its
  source had broken off or because its destination had closed.  But it
  does not pass on the end of a stream: when the client has closed and everything it sent was
  copied, the proxy does nothing more, and keeps the upstream connection, until the upstream
  server closes, breaks off or sends something.
\<close>

theorem proxy_transparent:
  assumes "proxy_reachable s"
  shows "(\<exists>n m. sd_given (px_upstream s) = take n (sd_sent (px_client s)) \<and> sd_given (px_client s) = take m (sd_sent (px_upstream s))) \<and>
    (px_returned s \<longrightarrow> px_up s = Drained \<and> sd_given (px_upstream s) = sd_sent (px_client s) \<or>
       px_up s = ReadFailed \<and> sd_broken (px_client s) \<or> px_up s = WriteFailed \<and> sd_closed (px_upstream s)) \<and>
    (px_returned s \<longrightarrow> px_down s = Drained \<and> sd_given (px_client s) = sd_sent (px_upstream s) \<or>
       px_down s = ReadFailed \<and> sd_broken (px_upstream s) \<or> px_down s = WriteFailed \<and> sd_closed (px_client s)) \<and>
    (drained (px_client s) \<and> px_up s \<noteq> Copying \<and> \<not> sd_closed (px_upstream s) \<and> sd_read (px_upstream s) = length (sd_sent (px_upstream s)) \<and>
       px_down s = Copying \<longrightarrow> (\<forall>t. \<not> proxy_step Copiers s t))"
proof (intro conjI)
  have inv: "proxy_inv s" using proxy.always [OF assms] .
  then show "\<exists>n m. sd_given (px_upstream s) = take n (sd_sent (px_client s)) \<and> sd_given (px_client s) = take m (sd_sent (px_upstream s))"
    by (auto simp: proxy_inv_def carried_def split: if_splits)
  show "px_returned s \<longrightarrow> px_up s = Drained \<and> sd_given (px_upstream s) = sd_sent (px_client s) \<or>
       px_up s = ReadFailed \<and> sd_broken (px_client s) \<or> px_up s = WriteFailed \<and> sd_closed (px_upstream s)"
    using inv by (cases "px_up s") (auto simp: proxy_inv_def carried_def drained_def)
  show "px_returned s \<longrightarrow> px_down s = Drained \<and> sd_given (px_client s) = sd_sent (px_upstream s) \<or>
       px_down s = ReadFailed \<and> sd_broken (px_upstream s) \<or> px_down s = WriteFailed \<and> sd_closed (px_client s)"
    using inv by (cases "px_down s") (auto simp: proxy_inv_def carried_def drained_def)
  have "\<not> sd_broken (px_upstream s)" if "\<not> sd_closed (px_upstream s)"
    using inv that by (auto simp: proxy_inv_def carried_def)
  then show "drained (px_client s) \<and> px_up s \<noteq> Copying \<and> \<not> sd_closed (px_upstream s) \<and>
      sd_read (px_upstream s) = length (sd_sent (px_upstream s)) \<and> px_down s = Copying \<longrightarrow> (\<forall>t. \<not> proxy_step Copiers s t)"
    by (auto simp: drained_def can_copy_def elim: proxy_step.cases)
qed

lemma proxy_transparent_witness:
  "\<exists>s. proxy_reachable s \<and> sd_closed (px_client s) \<and> sd_given (px_upstream s) = ''hi'' \<and> (\<forall>t. \<not> proxy_step Copiers s t)"
proof -
  let ?cl = "\<lambda>read closed. \<lparr>sd_sent = ''hi'', sd_read = read, sd_given = [], sd_closed = closed, sd_broken = False\<rparr>"
  let ?st = "\<lambda>c u k. \<lparr>px_client = c, px_upstream = u, px_up = k, px_down = Copying, px_returned = False\<rparr>"
  let ?hi = "idle_side\<lparr>sd_given := ''hi''\<rparr>"
  have 0: "proxy_reachable (?st idle_side idle_side Copying)"
    by (rule reach_start) (simp add: ProxyConnection_def)
  have 1: "proxy_step Peers (?st idle_side idle_side Copying) (?st (?cl 0 False) idle_side Copying)"
    using client_sends [of "?st idle_side idle_side Copying" "''hi''"] by (simp add: idle_side_def)
  have 2: "proxy_step Copiers (?st (?cl 0 False) idle_side Copying) (?st (?cl 2 False) ?hi Copying)"
    using up_copies [of "?st (?cl 0 False) idle_side Copying" 2]
    by (simp add: idle_side_def can_copy_def copy_from_def copy_to_def numeral_2_eq_2)
  have 3: "proxy_step Peers (?st (?cl 2 False) ?hi Copying) (?st (?cl 2 True) ?hi Copying)"
    using client_closes [of "?st (?cl 2 False) ?hi Copying"] by simp
  have 4: "proxy_step Copiers (?st (?cl 2 True) ?hi Copying) (?st (?cl 2 True) ?hi Drained)"
    using up_ends [of "?st (?cl 2 True) ?hi Copying"] by (simp add: drained_def)
  have s: "proxy_reachable (?st (?cl 2 True) ?hi Drained)"
    using proxy_reachable_step [OF proxy_reachable_step [OF proxy_reachable_step [OF proxy_reachable_step [OF 0 1] 2] 3] 4] .
  from proxy_transparent [OF s] show ?thesis
    by (intro exI [of _ "?st (?cl 2 True) ?hi Drained"] conjI s) (simp_all add: drained_def idle_side_def)
qed

end
