(* ===== verification/Buffer_Pool.thy ===== *)
theory Buffer_Pool
  imports Prelude "HOL-Library.Multiset"
begin

text \<open>
  \<open>internal/server/buffer.go\<close>: a pool of byte buffers on a \<open>sync.Pool\<close>.  The pool may hand out any buffer it
  holds, may have dropped some of them, and makes a new one otherwise; \<open>choice\<close> is its choice.  The
  server creates the pool and passes it to its connections; none of them takes a buffer from it.
\<close>

record Buffer =
  bu_data :: bytes
  bu_cap :: nat

type_synonym BufferPool = "Buffer multiset"

definition NewBufferPool :: BufferPool where
  "NewBufferPool = {#}"

definition new_buffer :: Buffer where
  "new_buffer = \<lparr>bu_data = [], bu_cap = 4096\<rparr>"

text \<open>\<open>Get\<close>: the chosen buffer if the pool holds it, otherwise a new one; emptied, and no longer in the pool.\<close>

definition Get :: "Buffer option \<Rightarrow> BufferPool \<Rightarrow> Buffer \<times> BufferPool" where
  "Get choice pool =
     (case choice of
        Some b \<Rightarrow> if b \<in># pool then (b\<lparr>bu_data := []\<rparr>, pool - {#b#}) else (new_buffer, pool)
      | None \<Rightarrow> (new_buffer, pool))"

definition Put :: "Buffer \<Rightarrow> BufferPool \<Rightarrow> BufferPool" where
  "Put buf pool = (if 65536 < bu_cap buf then pool else add_mset buf pool)"

text \<open>A buffer of the pool holds at most 64 KiB; what Get returns is empty and within that bound.\<close>

definition pool_ok :: "BufferPool \<Rightarrow> bool" where
  "pool_ok pool \<longleftrightarrow> (\<forall>b. b \<in># pool \<longrightarrow> bu_cap b \<le> 65536)"

lemma pool_ok_new: "pool_ok NewBufferPool"
  by (simp add: pool_ok_def NewBufferPool_def)

lemma pool_ok_Put: "pool_ok pool \<Longrightarrow> pool_ok (Put buf pool)"
  by (auto simp: pool_ok_def Put_def)

lemma Get_empty:
  assumes "pool_ok pool" and "Get choice pool = (buf, pool')"
  shows "bu_data buf = [] \<and> bu_cap buf \<le> 65536 \<and> pool_ok pool'"
  using assms by (auto simp: Get_def pool_ok_def new_buffer_def split: option.splits if_splits dest: in_diffD)

end
