(* ===== verification/Tape.thy ===== *)
theory Tape
  imports Conn_Protocol
begin

text \<open>
  \<open>internal/proxy/recorder.go\<close>: tapes of recorded exchanges, and their replay as rules.  Reading and
  writing the file and its JSON are parameters; the proxy itself only copies bytes between two
  connections and is not modelled.
\<close>

section \<open>Tapes\<close>

record TapeExchange =
  tx_query :: bytes
  tx_columns :: "bytes list"
  tx_types :: "32 word list"
  tx_rows :: "bytes list list"
  tx_tag :: bytes
  tx_latency :: int

record Tape =
  tp_version :: int
  tp_recorded :: int
  tp_upstream :: bytes
  tp_exchanges :: "TapeExchange list"

record Recorder =
  rec_upstream :: bytes
  rec_path :: bytes
  rec_tape :: Tape

definition NewRecorder :: "int \<Rightarrow> bytes \<Rightarrow> bytes \<Rightarrow> Recorder" where
  "NewRecorder now upstreamAddr tapePath =
     \<lparr>rec_upstream = upstreamAddr, rec_path = tapePath,
      rec_tape = \<lparr>tp_version = 1, tp_recorded = now, tp_upstream = upstreamAddr, tp_exchanges = []\<rparr>\<rparr>"

text \<open>\<open>WriteFile\<close> is \<open>os.WriteFile\<close> with the text of its error, \<open>to_json\<close> is \<open>json.MarshalIndent\<close>.\<close>

definition Save ::
  "(Tape \<Rightarrow> bytes + bytes) \<Rightarrow> (bytes \<Rightarrow> bytes \<Rightarrow> bytes option) \<Rightarrow> Recorder \<Rightarrow> bytes option" where
  "Save to_json WriteFile r =
     (case to_json (rec_tape r) of
        Inl e \<Rightarrow> Some (''failed to encode tape: '' @ e)
      | Inr data \<Rightarrow> WriteFile (rec_path r) data)"

definition LoadTape ::
  "(bytes \<Rightarrow> bytes + bytes) \<Rightarrow> (bytes \<Rightarrow> bytes + Tape) \<Rightarrow> bytes \<Rightarrow> (bytes, Tape) outcome" where
  "LoadTape ReadFile from_json path =
     (case ReadFile path of
        Inl e \<Rightarrow> Err (''failed to read tape '' @ path @ '': '' @ e)
      | Inr data \<Rightarrow>
          (case from_json data of
             Inl e \<Rightarrow> Err (''failed to parse tape JSON: '' @ e)
           | Inr tape \<Rightarrow> Ret tape))"

definition tape_rule :: "nat \<Rightarrow> TapeExchange \<Rightarrow> Rule" where
  "tape_rule i ex =
     empty_rule\<lparr>r_id := ''tape-'' @ Itoa (int i + 1), r_query := tx_query ex, r_columns := tx_columns ex,
       r_types := tx_types ex, r_rows := tx_rows ex, r_tag := tx_tag ex, r_latency := tx_latency ex\<rparr>"

definition ConvertTapeToRules :: "Tape \<Rightarrow> Rule list" where
  "ConvertTapeToRules tape =
     map (\<lambda>i. tape_rule i (tp_exchanges tape ! i)) [0..<length (tp_exchanges tape)]"

section \<open>Replay\<close>

lemma tape_rule_parts [simp]:
  "r_params (tape_rule i ex) = []" "r_pattern (tape_rule i ex) = []" "r_query (tape_rule i ex) = tx_query ex"
  "r_drop (tape_rule i ex) = False" "r_error (tape_rule i ex) = None" "r_rows (tape_rule i ex) = tx_rows ex"
  by (simp_all add: tape_rule_def empty_rule_def)

text \<open>Rules that differ only in their counters match alike and answer alike.\<close>

lemma hits_parts:
  "rule_matches rt (r\<lparr>r_hits := n\<rparr>) q ps = rule_matches rt r q ps"
  "literal_cells (r\<lparr>r_hits := n\<rparr>) row = literal_cells r row"
  by (simp_all add: rule_matches_def literal_cells_def)

lemma hits_answer: "answer_packets (r\<lparr>r_hits := n\<rparr>) fs cells = answer_packets r fs cells"
proof -
  have parts: "r_columns (r\<lparr>r_hits := n\<rparr>) = r_columns r" "r_types (r\<lparr>r_hits := n\<rparr>) = r_types r"
    "r_rows (r\<lparr>r_hits := n\<rparr>) = r_rows r" "r_tag (r\<lparr>r_hits := n\<rparr>) = r_tag r" by simp_all
  show ?thesis
    unfolding answer_packets_def result_fields_def column_oid_def response_tag_def parts by (rule refl)
qed

lemma same_rules_nth:
  assumes "same_rules rs rs'"
  shows "length rs' = length rs \<and> (\<forall>i < length rs. rs' ! i = (rs ! i)\<lparr>r_hits := r_hits (rs' ! i)\<rparr>)"
proof -
  have eq: "map (r_hits_update (\<lambda>_. 0)) rs' = map (r_hits_update (\<lambda>_. 0)) rs" using assms by (simp add: same_rules_def)
  then have len: "length rs' = length rs" using map_eq_imp_length_eq by blast
  have "rs' ! i = (rs ! i)\<lparr>r_hits := r_hits (rs' ! i)\<rparr>" if "i < length rs" for i
  proof -
    have "(rs' ! i)\<lparr>r_hits := 0\<rparr> = (rs ! i)\<lparr>r_hits := 0\<rparr>"
      using arg_cong [OF eq, of "\<lambda>l. l ! i"] that len by simp
    then show ?thesis by (cases "rs ! i"; cases "rs' ! i") simp
  qed
  with len show ?thesis by blast
qed

text \<open>
  C20. Replaying a tape: with the rules of a tape in the registry, however often they were used, a
  query whose text is that of a recorded exchange (the first such on the tape, up to case and layout) is answered with
  the columns, rows and tag that were recorded, as long as no recorded value contains a tag.
\<close>

theorem replayed_exchange:
  assumes "session_ok rt s" and "same_rules (ConvertTapeToRules tape) (e_rules (s_engine s))"
    and "i < length (tp_exchanges tape)" and "ex = tp_exchanges tape ! i"
    and "text_matches rt (tx_query ex) q" and "\<forall>j < i. \<not> text_matches rt (tx_query (tp_exchanges tape ! j)) q"
    and "list_all literal_row (tx_rows ex)"
    and "no_nul q" and "TrimSpace q = q" and "\<not> empty_text q"
  shows "\<exists>s'. processMessage rt MsgTypeQuery (cstr q) s = Ret (True, s') \<and>
    replied s s' (answer_packets (tape_rule i ex) [] (map (literal_cells (tape_rule i ex)) (tx_rows ex)) @
      [(MsgTypeReadyForQuery, [track_tx rt q (s_tx s)])])"
proof -
  let ?rs = "e_rules (s_engine s)"
  have n: "length ?rs = length (tp_exchanges tape)"
    "\<And>k. k < length (tp_exchanges tape) \<Longrightarrow> ?rs ! k = (tape_rule k (tp_exchanges tape ! k))\<lparr>r_hits := r_hits (?rs ! k)\<rparr>"
    using same_rules_nth [OF assms(2)] by (simp_all add: ConvertTapeToRules_def)
  have m: "rule_matches rt (?rs ! k) q [] = text_matches rt (tx_query (tp_exchanges tape ! k)) q"
    if "k < length (tp_exchanges tape)" for k
    by (subst n(2) [OF that], subst hits_parts(1)) (simp add: rule_matches_def)
  have "first_rule rt ?rs q [] = Some i"
    using assms(3-6) m n(1) by (auto simp: first_rule_Some)
  moreover have r: "?rs ! i = (tape_rule i ex)\<lparr>r_hits := r_hits (?rs ! i)\<rparr>" using n(2) assms(3,4) by simp
  then have "\<not> r_drop (?rs ! i)" "r_error (?rs ! i) = None" "r_rows (?rs ! i) = tx_rows ex"
    by (metis Rule.surjective Rule.update_convs(14) Rule.select_convs(12) tape_rule_parts(4),
        metis Rule.surjective Rule.update_convs(14) Rule.select_convs(9) tape_rule_parts(5),
        metis Rule.surjective Rule.update_convs(14) Rule.select_convs(7) tape_rule_parts(6))
  moreover have "answer_packets (?rs ! i) [] cells = answer_packets (tape_rule i ex) [] cells"
    "literal_cells (?rs ! i) = literal_cells (tape_rule i ex)" for cells
    by (subst r, rule hits_answer, rule ext, subst r, rule hits_parts(2))
  ultimately show ?thesis
    using literal_answer [OF assms(1) _ refl, of q i] assms(7-10) by simp
qed

definition ping_tape :: Tape where
  "ping_tape = \<lparr>tp_version = 1, tp_recorded = 0, tp_upstream = [], tp_exchanges =
     [\<lparr>tx_query = ''select n'', tx_columns = [''n''], tx_types = [23], tx_rows = [[''7'']], tx_tag = [], tx_latency = 0\<rparr>]\<rparr>"

definition ping_session :: Session where
  "ping_session = NewConnHandler (NewEngine Map.empty (ConvertTapeToRules ping_tape)) quiet_world None None"

lemma replayed_exchange_witness:
  "\<exists>s'. processMessage ascii_rt MsgTypeQuery (cstr ''SELECT n;'') ping_session = Ret (True, s') \<and>
     replied ping_session s' (answer_packets (tape_rule 0 (tp_exchanges ping_tape ! 0)) [] [[Some ''7'']] @
       [(MsgTypeReadyForQuery, [track_tx ascii_rt ''SELECT n;'' (s_tx ping_session)])])"
proof -
  let ?ex = "tp_exchanges ping_tape ! 0"
  have ok: "session_ok ascii_rt ping_session"
    using session_ok_quiet [of ascii_rt]
    by (simp add: session_ok_def ping_session_def quiet_session_def NewConnHandler_def engine_ok_def NewEngine_def)
  have same: "same_rules (ConvertTapeToRules ping_tape) (e_rules (s_engine ping_session))"
    by (simp add: same_rules_def ping_session_def NewConnHandler_def NewEngine_def)
  have m: "text_matches ascii_rt ''select n'' ''SELECT n;''" by code_simp
  have t: "text_matches ascii_rt (tx_query ?ex) ''SELECT n;''" using m by (simp add: ping_tape_def)
  have c: "list_all literal_row (tx_rows ?ex)" "no_nul ''SELECT n;''" "TrimSpace ''SELECT n;'' = ''SELECT n;''"
    "\<not> empty_text ''SELECT n;''" by code_simp+
  have "map (literal_cells (tape_rule 0 ?ex)) (tx_rows ?ex) = [[Some ''7'']]" by code_simp
  with replayed_exchange [OF ok same _ refl t _ c] show ?thesis by (simp add: ping_tape_def)
qed

end
