(* ===== verification/Startup.thy ===== *)
theory Startup
  imports Tape Admin Server Tls
begin

text \<open>
  \<open>internal/config/config.go\<close> and \<open>cmd/pgwire-mock/main.go\<close>: from the command line to the
  running program.  The \<open>flag\<close> package has split the command line into names and values; reading
  integers with any base, the files, TLS and binding an address are parameters.
\<close>

section \<open>Configuration\<close>

record Config =
  cf_port :: int
  cf_admin :: int
  cf_rules :: bytes
  cf_upstream :: bytes
  cf_record :: bytes
  cf_replay :: bytes
  cf_ssl :: bool
  cf_cert :: bytes
  cf_key :: bytes
  cf_stateful :: bool
  cf_verbose :: bool
  cf_help :: bool
  cf_version :: bool

definition default_config :: Config where
  "default_config = \<lparr>cf_port = 5432, cf_admin = 8080, cf_rules = [], cf_upstream = [], cf_record = [],
     cf_replay = [], cf_ssl = False, cf_cert = [], cf_key = [], cf_stateful = False, cf_verbose = False,
     cf_help = False, cf_version = False\<rparr>"

text \<open>\<open>strconv.ParseBool\<close>.\<close>

definition ParseBool :: "bytes \<Rightarrow> bool option" where
  "ParseBool v =
     (if v \<in> set [''1'', ''t'', ''T'', ''TRUE'', ''true'', ''True''] then Some True
      else if v \<in> set [''0'', ''f'', ''F'', ''FALSE'', ''false'', ''False''] then Some False else None)"

text \<open>One flag; two names may set the same variable.  \<open>None\<close>: unknown, or a value that does not parse.\<close>

definition set_flag :: "(bytes \<Rightarrow> int option) \<Rightarrow> bytes \<times> bytes \<Rightarrow> Config \<Rightarrow> Config option" where
  "set_flag parse_int = (\<lambda>(name, v) c.
     (let int_flag = (\<lambda>f. map_option f (parse_int v)); bool_flag = (\<lambda>f. map_option f (ParseBool v)) in
      if name = ''port'' \<or> name = ''p'' then int_flag (\<lambda>n. c\<lparr>cf_port := n\<rparr>)
      else if name = ''admin-port'' then int_flag (\<lambda>n. c\<lparr>cf_admin := n\<rparr>)
      else if name = ''rules'' \<or> name = ''r'' then Some (c\<lparr>cf_rules := v\<rparr>)
      else if name = ''upstream'' then Some (c\<lparr>cf_upstream := v\<rparr>)
      else if name = ''record'' then Some (c\<lparr>cf_record := v\<rparr>)
      else if name = ''replay'' then Some (c\<lparr>cf_replay := v\<rparr>)
      else if name = ''ssl'' then bool_flag (\<lambda>b. c\<lparr>cf_ssl := b\<rparr>)
      else if name = ''tls-cert'' then Some (c\<lparr>cf_cert := v\<rparr>)
      else if name = ''tls-key'' then Some (c\<lparr>cf_key := v\<rparr>)
      else if name = ''stateful'' then bool_flag (\<lambda>b. c\<lparr>cf_stateful := b\<rparr>)
      else if name = ''verbose'' \<or> name = ''v'' then bool_flag (\<lambda>b. c\<lparr>cf_verbose := b\<rparr>)
      else if name = ''version'' then bool_flag (\<lambda>b. c\<lparr>cf_version := b\<rparr>)
      else if name = ''help'' \<or> name = ''h'' then bool_flag (\<lambda>b. c\<lparr>cf_help := b\<rparr>)
      else None))"

fun set_flags :: "(bytes \<Rightarrow> int option) \<Rightarrow> (bytes \<times> bytes) list \<Rightarrow> Config \<Rightarrow> Config option" where
  "set_flags parse_int [] c = Some c"
| "set_flags parse_int (f # fs) c =
     (case set_flag parse_int f c of None \<Rightarrow> None | Some c \<Rightarrow> set_flags parse_int fs c)"

datatype start_error =
    BadFlag              \<comment> \<open>the \<open>flag\<close> package exits with status 2\<close>
  | Fatal bytes          \<comment> \<open>\<open>log.Fatalf\<close>\<close>

definition ParseFlags :: "(bytes \<Rightarrow> int option) \<Rightarrow> (bytes \<times> bytes) list \<Rightarrow> (start_error, Config) outcome" where
  "ParseFlags parse_int args =
     (case set_flags parse_int args default_config of
        None \<Rightarrow> Err BadFlag
      | Some cfg \<Rightarrow>
          if cf_help cfg then Ret cfg
          else if cf_port cfg < 1 \<or> 65535 < cf_port cfg then
            Err (Fatal (''configuration error: invalid port '' @ Itoa (cf_port cfg) @
              '': must be between 1 and 65535''))
          else Ret cfg)"

section \<open>Start\<close>

text \<open>
  What the program finds outside: files, decoders, the cryptography of TLS and the network.
\<close>

record Outside =
  os_int :: "bytes \<Rightarrow> int option"
  os_file :: "bytes \<Rightarrow> bytes + bytes"
  os_json :: "bytes \<Rightarrow> bytes + Rule option list"
  os_yaml :: "bytes \<Rightarrow> bytes + Rule option list"
  os_tape :: "bytes \<Rightarrow> bytes + Tape"
  os_tls :: Crypto
  os_listen :: "bytes \<Rightarrow> bytes option"

text \<open>The running program: the engine, the server, and the admin server with its HTTP server.\<close>

record Process =
  pr_engine :: Engine
  pr_server :: Server
  pr_admin :: "(HttpServer \<times> AdminServer) option"
  pr_banner :: "bytes list"

fun fatal :: "bytes \<Rightarrow> (bytes, 'a) outcome \<Rightarrow> (start_error, 'a) outcome" where
  "fatal msg (Ret x) = Ret x"
| "fatal msg (Err e) = Err (Fatal (msg @ '': '' @ e))"
| "fatal msg Panic = Panic"

lemma fatal_Ret: "fatal msg x = Ret y \<longleftrightarrow> x = Ret y"
  by (cases x) auto

definition main_rules :: "go_rt \<Rightarrow> Outside \<Rightarrow> Config \<Rightarrow> (start_error, Rule list) outcome" where
  "main_rules rt os cfg =
     (if cf_replay cfg \<noteq> [] then
        and_then (fatal ''failed to load tape'' (LoadTape (os_file os) (os_tape os) (cf_replay cfg)))
          (\<lambda>tape. Ret (ConvertTapeToRules tape))
      else if cf_rules cfg \<noteq> [] then
        fatal ''failed to load rules'' (LoadRulesFile rt (os_file os) (os_json os) (os_yaml os) (cf_rules cfg))
      else Ret [])"

definition main_tls :: "Outside \<Rightarrow> Config \<Rightarrow> Server \<Rightarrow> (start_error, Server) outcome" where
  "main_tls os cfg pgServer =
     (if cf_ssl cfg then
        and_then (fatal ''failed to initialize TLS'' (LoadOrGenerateTLSConfig (os_tls os) (cf_cert cfg) (cf_key cfg)))
          (\<lambda>t. Ret (SetTLSConfig (Some t) pgServer))
      else Ret pgServer)"

text \<open>The lines of the banner.\<close>

definition printStartupBanner :: "int \<Rightarrow> int \<Rightarrow> nat \<Rightarrow> bool \<Rightarrow> bool \<Rightarrow> bytes list" where
  "printStartupBanner pgPort adminPort ruleCount ssl stateful =
     (let sslStatus = (if ssl then ''Enabled (TLS/SSL)'' else ''Disabled (plaintext)'');
          stateStatus = (if stateful then ''Enabled (in-memory CRUD)'' else ''Disabled (rules-only)'');
          double = ''==============================================================''
      in [double, '' PGWire-Mock v1.0.0 - PostgreSQL Protocol Mock Server'', double,
          '' PostgreSQL Mock Socket : localhost:'' @ Itoa pgPort,
          '' TLS/SSL Encryption     : '' @ sslStatus,
          '' Stateful CRUD Store    : '' @ stateStatus] @
         (if 0 < adminPort then
            ['' Web Realtime Dashboard : http://localhost:'' @ Itoa adminPort @ ''/dashboard'',
             '' HTTP Admin & Assert API: http://localhost:'' @ Itoa adminPort,
             '' Prometheus Metrics     : http://localhost:'' @ Itoa adminPort @ ''/metrics'']
          else []) @
         ['' Active Mock Rules      : '' @ Itoa (int ruleCount),
          ''--------------------------------------------------------------'',
          '' Connect with psql:'',
          ''   psql -h localhost -p '' @ Itoa pgPort @ '' -U postgres -d testdb'', double])"

text \<open>\<open>None\<close> is the end of the program after the version or the help; the admin server gives the engine its hook.\<close>

definition main :: "go_rt \<Rightarrow> Outside \<Rightarrow> (bytes \<times> bytes) list \<Rightarrow> (start_error, Process option) outcome" where
  "main rt os args =
     and_then (ParseFlags (os_int os) args) (\<lambda>cfg.
     if cf_version cfg \<or> cf_help cfg then Ret None
     else
       and_then (main_rules rt os cfg) (\<lambda>rules.
       let engine = EnableStateful (cf_stateful cfg) (NewEngine Map.empty rules);
           pgServer = NewServer (''0.0.0.0:'' @ Itoa (cf_port cfg))
       in and_then (main_tls os cfg pgServer) (\<lambda>pgServer.
       and_then (fatal ''failed to start pgwire server'' (Start (os_listen os) pgServer)) (\<lambda>pgServer.
       let banner = printStartupBanner (cf_port cfg) (cf_admin cfg) (length rules) (cf_ssl cfg) (cf_stateful cfg) in
       if 0 < cf_admin cfg then
         let adminAddr = ''0.0.0.0:'' @ Itoa (cf_admin cfg); adminServer = NewAdminServer engine (Some (0, 0))
         in and_then (fatal ''failed to start admin API server'' (AdminStart (os_listen os) adminAddr)) (\<lambda>http.
            Ret (Some \<lparr>pr_engine = ad_engine adminServer, pr_server = pgServer,
              pr_admin = Some (http, adminServer), pr_banner = banner\<rparr>))
       else Ret (Some \<lparr>pr_engine = engine, pr_server = pgServer, pr_admin = None, pr_banner = banner\<rparr>)))))"

section \<open>What is running\<close>

lemma main_cases:
  assumes "main rt os args = Ret (Some p)"
  obtains cfg rules srv where "ParseFlags (os_int os) args = Ret cfg" and "\<not> cf_help cfg"
    and "main_rules rt os cfg = Ret rules"
    and "pr_engine p = SetOnQueryHook (0 < cf_admin cfg) (EnableStateful (cf_stateful cfg) (NewEngine Map.empty rules))"
    and "main_tls os cfg (NewServer (''0.0.0.0:'' @ Itoa (cf_port cfg))) = Ret srv"
    and "Start (os_listen os) srv = Ret (pr_server p)"
proof -
  have hook: "SetOnQueryHook False (EnableStateful b (NewEngine Map.empty rs)) = EnableStateful b (NewEngine Map.empty rs)" for b rs
    by (simp add: SetOnQueryHook_def EnableStateful_def NewEngine_def)
  from assms show thesis
    by (auto simp: main_def Let_def outcome_simps fatal_Ret NewAdminServer_def hook split: if_splits intro: that)
qed

lemma started_server:
  assumes "main_tls os cfg (NewServer addr) = Ret srv" and "Start listen srv = Ret s"
  shows "reachable s \<and> sv_addr s = addr \<and> sv_listening s \<and> sv_stop s = NotCalled \<and> (sv_tls s \<noteq> None \<longleftrightarrow> cf_ssl cfg)"
proof -
  obtain t where t: "srv = SetTLSConfig t (NewServer addr)" "t \<noteq> None \<longleftrightarrow> cf_ssl cfg"
  proof (cases "cf_ssl cfg")
    case False
    moreover have "SetTLSConfig None (NewServer addr) = NewServer addr"
      by (simp add: SetTLSConfig_def NewServer_def)
    ultimately have "srv = SetTLSConfig None (NewServer addr)"
      using assms(1) by (simp add: main_tls_def)
    with False that show thesis by blast
  qed (use assms(1) that in \<open>auto simp: main_tls_def outcome_simps fatal_Ret\<close>)
  with assms(2) have "reachable s" by (blast intro: reachable_started)
  with t assms(2) show ?thesis
    by (auto simp: Start_def SetTLSConfig_def NewServer_def split: option.splits)
qed

text \<open>
  C19. A started program is a sound one: the port is a port, the tables are on exactly in stateful mode and start
  empty, TLS is on exactly with \<open>ssl\<close>, the rules are those of the tape if one is replayed and otherwise
  those of the rules file, the server listens in a state that its steps keep well-formed, and every
  connection starts in a well-formed session, so that all that is proved of servers and sessions
  holds of it.
\<close>

theorem main_starts:
  assumes "main rt os args = Ret (Some p)" and "world_ok w"
  shows "\<exists>cfg. set_flags (os_int os) args default_config = Some cfg \<and> 1 \<le> cf_port cfg \<and> cf_port cfg \<le> 65535 \<and>
    main_rules rt os cfg = Ret (e_rules (pr_engine p)) \<and>
    e_store (pr_engine p) = (if cf_stateful cfg then Some NewStateStore else None) \<and> e_logs (pr_engine p) = [] \<and>
    reachable (pr_server p) \<and> sv_addr (pr_server p) = ''0.0.0.0:'' @ Itoa (cf_port cfg) \<and>
    sv_listening (pr_server p) \<and> sv_stop (pr_server p) = NotCalled \<and> (sv_tls (pr_server p) \<noteq> None \<longleftrightarrow> cf_ssl cfg) \<and>
    session_ok rt (NewConnHandler (pr_engine p) w active queries)"
proof -
  from main_cases [OF assms(1)] obtain cfg rules srv where 1: "ParseFlags (os_int os) args = Ret cfg" "\<not> cf_help cfg"
    "main_rules rt os cfg = Ret rules"
    "pr_engine p = SetOnQueryHook (0 < cf_admin cfg) (EnableStateful (cf_stateful cfg) (NewEngine Map.empty rules))"
    "main_tls os cfg (NewServer (''0.0.0.0:'' @ Itoa (cf_port cfg))) = Ret srv"
    "Start (os_listen os) srv = Ret (pr_server p)" .
  from 1(1,2) have 2: "set_flags (os_int os) args default_config = Some cfg" "1 \<le> cf_port cfg" "cf_port cfg \<le> 65535"
    by (auto simp: ParseFlags_def split: option.splits if_splits)
  have 3: "e_rules (pr_engine p) = rules" "e_store (pr_engine p) = (if cf_stateful cfg then Some NewStateStore else None)"
    "e_logs (pr_engine p) = []" "e_cache (pr_engine p) = Map.empty"
    by (simp_all add: 1(4) SetOnQueryHook_def EnableStateful_def NewEngine_def)
  then have "session_ok rt (NewConnHandler (pr_engine p) w active queries)"
    using assms(2) by (auto simp: session_ok_def NewConnHandler_def engine_ok_def cache_ok_def store_wf_def
        NewStateStore_def split: if_splits)
  with 1(3) 2 3 started_server [OF 1(5,6)] show ?thesis by (intro exI [of _ cfg]) simp
qed

definition no_crypto :: Crypto where
  "no_crypto = \<lparr>cy_key = Inl [], cy_serial = \<lambda>_. Inl [], cy_clock = \<lambda>_. 0, cy_create = \<lambda>_ _. Inl [], cy_marshal = \<lambda>_. Inl [],
     cy_pem = \<lambda>_ d. d, cy_pair = \<lambda>_ _. Inl [], cy_load = \<lambda>_ _. Inl []\<rparr>"

definition bare_outside :: Outside where
  "bare_outside = \<lparr>os_int = Atoi, os_file = \<lambda>_. Inl [], os_json = \<lambda>_. Inr [], os_yaml = \<lambda>_. Inr [],
     os_tape = \<lambda>_. Inl [], os_tls = no_crypto, os_listen = \<lambda>_. None\<rparr>"

lemma main_starts_witness:
  "\<exists>p. main ascii_rt bare_outside [(''p'', ''6000''), (''stateful'', ''true''), (''port'', ''6001'')] = Ret (Some p) \<and>
     sv_addr (pr_server p) = ''0.0.0.0:6001'' \<and> e_store (pr_engine p) = Some NewStateStore"
proof -
  let ?args = "[(''p'', ''6000''), (''stateful'', ''true''), (''port'', ''6001'')]"
  have a: "Atoi ''6000'' = Some 6000" "Atoi ''6001'' = Some 6001" "ParseBool ''true'' = Some True" "Itoa 6001 = ''6001''"
    by code_simp+
  have f: "set_flags Atoi ?args default_config = Some (default_config\<lparr>cf_stateful := True, cf_port := 6001\<rparr>)"
    by (simp add: set_flag_def a default_config_def)
  then have "\<exists>p. main ascii_rt bare_outside ?args = Ret (Some p)"
    by (simp add: main_def bare_outside_def ParseFlags_def main_rules_def main_tls_def Start_def AdminStart_def NewServer_def Let_def)
      (simp add: default_config_def)
  then obtain p where p: "main ascii_rt bare_outside ?args = Ret (Some p)" ..
  from main_starts [OF p world_ok_quiet] f a(4) p show ?thesis
    by (auto simp: bare_outside_def default_config_def)
qed

end
