(* ===== verification/Shutdown.thy ===== *)
theory Shutdown
  imports Startup
begin

text \<open>
  The end of the program: \<open>main\<close> waits for a signal, stops the HTTP interface
  (\<open>internal/admin/api.go\<close>), then the server, and returns (\<open>cmd/pgwire-mock/main.go\<close>), while the
  goroutines of the server go on in between.
\<close>

section \<open>State\<close>

datatype main_stage =
    MainServes        \<comment> \<open>waiting for the signal\<close>
  | MainStopsAdmin
  | MainStopsServer
  | MainReturned

record Main_State =
  pm_stage :: main_stage
  pm_server :: Server
  pm_http :: "HttpServer option"
  pm_log :: "bytes list"

definition main_waits :: "Process \<Rightarrow> Main_State" where
  "main_waits p = \<lparr>pm_stage = MainServes, pm_server = pr_server p,
     pm_http = map_option fst (pr_admin p), pm_log = []\<rparr>"

text \<open>The HTTP interface takes requests.\<close>

definition serves_http :: "Main_State \<Rightarrow> bool" where
  "serves_http p \<longleftrightarrow> (case pm_http p of None \<Rightarrow> False | Some h \<Rightarrow> hs_serving h)"

lemma serves_http_simps [simp]: "serves_http (p\<lparr>pm_server := s\<rparr>) = serves_http p"
  by (simp add: serves_http_def)

text \<open>The last lines of \<open>main\<close>; \<open>close_error\<close> is the error of closing the listener, if there is one.\<close>

definition farewell :: "bytes option \<Rightarrow> bytes list" where
  "farewell close_error =
     (case close_error of None \<Rightarrow> [] | Some e \<Rightarrow> [''error during shutdown: '' @ e]) @ [''server stopped gracefully'']"

text \<open>
  The steps of \<open>main\<close> and those of the server, of which only \<open>main\<close> calls Stop.
\<close>

inductive main_step :: "(nat \<Rightarrow> bytes option) \<Rightarrow> bytes option \<Rightarrow> actor \<Rightarrow> Main_State \<Rightarrow> Main_State \<Rightarrow> bool"
  for shutdown close_error where
  signal: "pm_stage p = MainServes \<Longrightarrow>
     main_step shutdown close_error World p (p\<lparr>pm_stage := MainStopsAdmin, pm_log := pm_log p @ [''shutting down server...'']\<rparr>)"
| stop_admin: "pm_stage p = MainStopsAdmin \<Longrightarrow> AdminStop shutdown (pm_http p) = (ignored, http) \<Longrightarrow>
     main_step shutdown close_error Program p (p\<lparr>pm_stage := MainStopsServer, pm_http := http\<rparr>)"
| call_stop: "pm_stage p = MainStopsServer \<Longrightarrow> sv_stop (pm_server p) = NotCalled \<Longrightarrow>
     server_step World (pm_server p) s \<Longrightarrow> sv_stop s \<noteq> NotCalled \<Longrightarrow>
     main_step shutdown close_error Program p (p\<lparr>pm_server := s\<rparr>)"
| server: "pm_stage p \<noteq> MainReturned \<Longrightarrow> server_step a (pm_server p) s \<Longrightarrow>
     sv_stop (pm_server p) = NotCalled \<longrightarrow> sv_stop s = NotCalled \<Longrightarrow>
     main_step shutdown close_error a p (p\<lparr>pm_server := s\<rparr>)"
| returns: "pm_stage p = MainStopsServer \<Longrightarrow> sv_stop (pm_server p) = Returned \<Longrightarrow>
     main_step shutdown close_error Program p (p\<lparr>pm_stage := MainReturned, pm_log := pm_log p @ farewell close_error\<rparr>)"

definition any_main_step :: "(nat \<Rightarrow> bytes option) \<Rightarrow> bytes option \<Rightarrow> Main_State \<Rightarrow> Main_State \<Rightarrow> bool" where
  "any_main_step shutdown close_error p q \<longleftrightarrow> (\<exists>a. main_step shutdown close_error a p q)"

text \<open>The states of a program that was started with some arguments.\<close>

definition main_started :: "go_rt \<Rightarrow> Outside \<Rightarrow> (bytes \<times> bytes) list \<Rightarrow> Main_State \<Rightarrow> bool" where
  "main_started rt os args p \<longleftrightarrow>
     (case main rt os args of Ret (Some pr) \<Rightarrow> p = main_waits pr | _ \<Rightarrow> False)"

section \<open>Order\<close>

definition main_inv :: "bytes option \<Rightarrow> Main_State \<Rightarrow> bool" where
  "main_inv close_error p \<longleftrightarrow> reachable (pm_server p) \<and>
     (case pm_stage p of
        MainServes \<Rightarrow> sv_stop (pm_server p) = NotCalled \<and> pm_log p = []
      | MainStopsAdmin \<Rightarrow> sv_stop (pm_server p) = NotCalled \<and> pm_log p = [''shutting down server...'']
      | MainStopsServer \<Rightarrow> \<not> serves_http p \<and> pm_log p = [''shutting down server...'']
      | MainReturned \<Rightarrow> \<not> serves_http p \<and> sv_stop (pm_server p) = Returned \<and>
          pm_log p = ''shutting down server...'' # farewell close_error)"

lemma main_started_inv: "main_started rt os args p \<Longrightarrow> main_inv close_error p"
proof -
  assume "main_started rt os args p"
  then obtain pr where m: "main rt os args = Ret (Some pr)" and p: "p = main_waits pr"
    by (auto simp: main_started_def split: outcome.splits option.splits)
  from main_cases [OF m] obtain cfg srv addr where
    "main_tls os cfg (NewServer addr) = Ret srv" "Start (os_listen os) srv = Ret (pr_server pr)" by metis
  from started_server [OF this] show ?thesis by (simp add: p main_waits_def main_inv_def)
qed

lemma main_step_inv: "main_step shutdown close_error a p q \<Longrightarrow> main_inv close_error p \<Longrightarrow> main_inv close_error q"
proof (induction rule: main_step.induct)
  case (stop_admin p ignored http)
  then show ?case by (auto simp: main_inv_def serves_http_def AdminStop_def split: option.splits)
next
  case (call_stop p s)
  then show ?case using reachable_step [OF _ call_stop(3)] by (simp add: main_inv_def)
next
  case (server p a s)
  then show ?case using reachable_step [OF _ server(2)] by (auto simp: main_inv_def split: main_stage.splits)
qed (simp_all add: main_inv_def serves_http_def)

interpretation main: invariant_of "main_started rt os args" "any_main_step shutdown close_error" "main_inv close_error"
  for rt os args shutdown close_error
  by unfold_locales (auto simp: any_main_step_def intro: main_started_inv main_step_inv)

section \<open>The end\<close>

text \<open>
  From the moment at which the listener is closed and no accepted connection is waiting to be
  registered; the one step more is the return of \<open>main\<close>.
\<close>

definition main_stopping :: "Main_State \<Rightarrow> bool" where
  "main_stopping p \<longleftrightarrow> stopping (pm_server p) \<and>
     (pm_stage p = MainStopsServer \<or> pm_stage p = MainReturned \<and> sv_stop (pm_server p) = Returned)"

definition main_remaining :: "Main_State \<Rightarrow> nat" where
  "main_remaining p = remaining (pm_server p) + (if pm_stage p = MainReturned then 0 else 1)"

lemma main_stopping_step:
  assumes "main_step shutdown close_error a p q" and "main_stopping p"
  shows "main_stopping q \<and> main_remaining q < main_remaining p"
  using assms
proof (induction rule: main_step.induct)
  case (server p a s)
  then have s: "stopping (pm_server p)" by (simp add: main_stopping_def)
  with stopping_step [OF server(2)] step_remaining [OF server(2)] stopping_listening server
  show ?case by (auto simp: main_stopping_def main_remaining_def stopping_def)
qed (auto simp: main_stopping_def main_remaining_def stopping_def)

interpretation main_end: measured main_stopping "any_main_step shutdown close_error" main_stopping main_remaining
  for shutdown close_error
  by unfold_locales (auto simp: any_main_step_def dest: main_stopping_step)

lemma main_progress:
  assumes "main_stopping p" and "pm_stage p \<noteq> MainReturned"
  shows "\<exists>q. main_step shutdown close_error Program p q"
proof (cases "sv_stop (pm_server p) = Returned")
  case False
  from assms(1) have "stopping (pm_server p)" by (simp add: main_stopping_def)
  from stopping_progress [OF this False] obtain s where "server_step Program (pm_server p) s" ..
  moreover have "sv_stop (pm_server p) \<noteq> NotCalled" using assms(1) by (auto simp: main_stopping_def stopping_def)
  ultimately show ?thesis using assms(2) by (blast intro: main_step.server)
qed (use assms in \<open>auto simp: main_stopping_def intro: main_step.returns\<close>)

text \<open>
  C18. The program ends well.  Whatever arguments it was started with and whatever its clients do: Stop of the
  server is called only after a signal, and when the HTTP interface takes no requests any more; \<open>main\<close> returns
  only after Stop has, with the accept loop and every goroutine ended, every connection closed and the
  two lines logged; and from the moment at which the listener is closed, if the accept loop is not between accepting
  a connection and registering it, every run is finite, with a computed bound, and can go on until \<open>main\<close> has returned.
\<close>

theorem program_stops:
  assumes "reach (main_started rt os args) (any_main_step shutdown close_error) p"
  shows "(sv_stop (pm_server p) \<noteq> NotCalled \<longrightarrow> \<not> serves_http p \<and> pm_stage p \<in> {MainStopsServer, MainReturned}) \<and>
    (pm_stage p = MainReturned \<longrightarrow> sv_loop (pm_server p) = Exited \<and>
       (\<forall>x \<in> set (sv_conns (pm_server p)). cn_phase x = Ended \<and> \<not> cn_open x \<and> \<not> cn_registered x) \<and>
       pm_log p = ''shutting down server...'' # farewell close_error) \<and>
    (\<forall>n q. sv_stop (pm_server p) = ListenerClosed \<longrightarrow> (\<forall>c. sv_loop (pm_server p) \<noteq> Accepted c) \<longrightarrow>
       (any_main_step shutdown close_error ^^ n) p q \<longrightarrow>
       n \<le> remaining (pm_server p) + 1 \<and>
       (pm_stage q \<noteq> MainReturned \<longrightarrow> (\<exists>u. main_step shutdown close_error Program q u)))"
proof (intro conjI allI impI)
  have inv: "main_inv close_error p" by (rule main.always [OF assms])
  then have s: "server_inv (pm_server p)" using server.always by (simp add: main_inv_def)
  show "\<not> serves_http p" "pm_stage p \<in> {MainStopsServer, MainReturned}" if "sv_stop (pm_server p) \<noteq> NotCalled"
    using that inv by (auto simp: main_inv_def split: main_stage.splits)
  show "sv_loop (pm_server p) = Exited"
    "\<forall>x \<in> set (sv_conns (pm_server p)). cn_phase x = Ended \<and> \<not> cn_open x \<and> \<not> cn_registered x"
    "pm_log p = ''shutting down server...'' # farewell close_error" if "pm_stage p = MainReturned"
    using that inv returned_done [OF s] by (auto simp: main_inv_def)
  fix n q
  assume st: "sv_stop (pm_server p) = ListenerClosed" "\<forall>c. sv_loop (pm_server p) \<noteq> Accepted c"
    and run: "(any_main_step shutdown close_error ^^ n) p q"
  from st s have "stopping (pm_server p)" by (simp add: stopping_def)
  moreover have "pm_stage p = MainStopsServer" using inv st(1) by (auto simp: main_inv_def split: main_stage.splits)
  ultimately have p: "main_stopping p" "main_remaining p = remaining (pm_server p) + 1"
    by (simp_all add: main_stopping_def main_remaining_def)
  show "n \<le> remaining (pm_server p) + 1" using main_end.bounded [OF run p(1)] p(2) by simp
  show "\<exists>u. main_step shutdown close_error Program q u" if "pm_stage q \<noteq> MainReturned"
    by (rule main_progress [OF main_end.after [OF run p(1)] that])
qed

lemma program_stops_witness:
  "\<exists>pr q u. main ascii_rt bare_outside [(''stateful'', ''true'')] = Ret (Some pr) \<and>
     pm_server q = (pr_server pr)\<lparr>sv_shutdown := True, sv_listening := False, sv_stop := ListenerClosed\<rparr> \<and>
     \<not> serves_http q \<and> main_step (\<lambda>_. None) None Program q u"
proof -
  let ?args = "[(''stateful'', ''true'')]"
  let ?reach = "reach (main_started ascii_rt bare_outside ?args) (any_main_step (\<lambda>_. None) None)"
  have a: "ParseBool ''true'' = Some True" by code_simp
  have f: "set_flags Atoi ?args default_config = Some (default_config\<lparr>cf_stateful := True\<rparr>)"
    by (simp add: set_flag_def a default_config_def)
  then have "\<exists>pr h a. main ascii_rt bare_outside ?args = Ret (Some pr) \<and> pr_admin pr = Some (h, a) \<and> sv_loop (pr_server pr) = Accepting \<and>
      sv_stop (pr_server pr) = NotCalled"
    by (simp add: main_def bare_outside_def ParseFlags_def main_rules_def main_tls_def Start_def AdminStart_def NewServer_def Let_def)
      (simp add: default_config_def)
  then obtain pr h a where pr: "main ascii_rt bare_outside ?args = Ret (Some pr)" "pr_admin pr = Some (h, a)"
    "sv_loop (pr_server pr) = Accepting" "sv_stop (pr_server pr) = NotCalled" by blast
  have step: "?reach p \<Longrightarrow> main_step (\<lambda>_. None) None a p q \<Longrightarrow> ?reach q" for a p q
    by (rule reach_step) (auto simp: any_main_step_def)
  have "?reach (main_waits pr)" by (rule reach_start) (simp add: main_started_def pr(1))
  from step [OF this main_step.signal] have "?reach \<lparr>pm_stage = MainStopsAdmin, pm_server = pr_server pr, pm_http = Some h,
      pm_log = [''shutting down server...'']\<rparr>" using pr(2) by (simp add: main_waits_def)
  from step [OF this main_step.stop_admin] have "?reach \<lparr>pm_stage = MainStopsServer, pm_server = pr_server pr, pm_http = Some (h\<lparr>hs_serving := False\<rparr>),
      pm_log = [''shutting down server...'']\<rparr>" by (simp add: AdminStop_def)
  from step [OF this main_step.call_stop [OF _ _ server_step.stop]] pr(4)
  have "?reach \<lparr>pm_stage = MainStopsServer, pm_server = (pr_server pr)\<lparr>sv_shutdown := True, sv_stop := ShutdownClosed\<rparr>,
      pm_http = Some (h\<lparr>hs_serving := False\<rparr>), pm_log = [''shutting down server...'']\<rparr>" by simp
  from step [OF this main_step.server [OF _ server_step.stop_listener]]
  have q: "?reach \<lparr>pm_stage = MainStopsServer, pm_server = (pr_server pr)\<lparr>sv_shutdown := True, sv_listening := False,
      sv_stop := ListenerClosed\<rparr>, pm_http = Some (h\<lparr>hs_serving := False\<rparr>), pm_log = [''shutting down server...'']\<rparr>" (is "reach _ _ ?q") by simp
  obtain u where "main_step (\<lambda>_. None) None Program ?q u"
    using program_stops [OF q] pr(3) by (elim conjE) (erule allE [where x = 0], erule allE [where x = ?q], auto)
  with pr(1) show ?thesis by (intro exI [of _ pr] exI [of _ ?q] exI [of _ u]) (simp add: serves_http_def)
qed

end
