(* ===== verification/Client.thy ===== *)
theory Client
  imports Conn_Run
begin

text \<open>
  \<open>examples/client_go.go\<close>: the example client, a session of three writes over a plain connection.
  Dialling, the environment variables and the success of a write are parameters; what the client
  reads is the list of bytes that reach it before the connection ends.  The last section runs it against
  the connection handler of the server.
\<close>

section \<open>The client\<close>

datatype client_error =
    ConnectFailed | SSLRequestFailed | SSLReplyFailed | StartupFailed
  | HandshakeRead | HandshakeLength | HandshakePayload | QueryFailed

datatype client_log =
    Connecting bytes      \<comment> \<open>the address\<close>
  | SSLResponse byte
  | AuthenticationOk | SessionEstablished
  | SendingQuery bytes
  | RowDescriptionSeen | DataRowSeen | CommandSeen bytes
  | VerificationComplete
  | ChecksPassed          \<comment> \<open>the last line, on standard output\<close>

definition ssl_request :: bytes where
  "ssl_request = put_u32 8 @ put_u32 80877103"

definition startup_body :: bytes where
  "startup_body = put_u32 196608 @
     ''user'' @ [NUL] @ ''postgres'' @ [NUL] @ ''database'' @ [NUL] @ ''testdb'' @ [NUL, NUL]"

definition startup_packet :: bytes where
  "startup_packet = put_u32 (word_of_nat (4 + length startup_body)) @ startup_body"

definition client_query :: bytes where
  "client_query = ''SELECT 1''"

definition query_packet :: bytes where
  "query_packet = CHR ''Q'' # put_u32 (word_of_nat (4 + length client_query + 1)) @ client_query @ [NUL]"

text \<open>
  One message of the server: type, length, payload.  The length is unsigned, so that one below four makes a
  payload of almost 4 GiB.
\<close>

definition read_reply :: "bytes \<Rightarrow> (client_error, (byte \<times> bytes) \<times> bytes) outcome" where
  "read_reply r =
     (case read_full 1 r of
        Ret (typeBuf, r) \<Rightarrow>
          (case read_full 4 r of
             Ret (lenBuf, r) \<Rightarrow>
               (case read_full (unat (get_u32 lenBuf - 4)) r of
                  Ret (payload, r) \<Rightarrow> Ret ((hd typeBuf, payload), r)
                | _ \<Rightarrow> Err HandshakePayload)
           | _ \<Rightarrow> Err HandshakeLength)
      | _ \<Rightarrow> Err HandshakeRead)"

lemma read_reply_shorter: "read_reply r = Ret (m, r') \<Longrightarrow> length r' < length r"
  by (auto simp: read_reply_def read_full_iff split: outcome.splits)

function client_handshake :: "bytes \<Rightarrow> client_log list \<Rightarrow> (client_error, bytes) outcome \<times> client_log list" where
  "client_handshake r l =
     (case read_reply r of
        Ret ((t, payload), r) \<Rightarrow>
          if t = CHR ''R'' then client_handshake r (l @ [AuthenticationOk])
          else if t = CHR ''Z'' then (Ret r, l @ [SessionEstablished])
          else client_handshake r l
      | Err e \<Rightarrow> (Err e, l)
      | Panic \<Rightarrow> (Panic, l))"
  by pat_completeness auto
termination by (relation "measure (\<lambda>(r, l). length r)") (auto dest: read_reply_shorter)

text \<open>
  The answer to the query.  A failing read ends the loop like ReadyForQuery does;
  \<open>payload[:len(payload)-1]\<close> panics for an empty payload.
\<close>

function client_response :: "bytes \<Rightarrow> client_log list \<Rightarrow> (client_error, unit) outcome \<times> client_log list" where
  "client_response r l =
     (case read_reply r of
        Ret ((t, payload), r) \<Rightarrow>
          if t = CHR ''T'' then client_response r (l @ [RowDescriptionSeen])
          else if t = CHR ''D'' then client_response r (l @ [DataRowSeen])
          else if t = CHR ''C'' then
            if payload = [] then (Panic, l) else client_response r (l @ [CommandSeen (butlast payload)])
          else if t = CHR ''Z'' then (Ret (), l @ [VerificationComplete])
          else client_response r l
      | _ \<Rightarrow> (Ret (), l))"
  by pat_completeness auto
termination by (relation "measure (\<lambda>(r, l). length r)") (auto dest: read_reply_shorter)

declare client_handshake.simps [simp del] client_response.simps [simp del]

definition JoinHostPort :: "bytes \<Rightarrow> bytes \<Rightarrow> bytes" where
  "JoinHostPort host port =
     (if CHR '':'' \<in> set host then ''['' @ host @ '']:'' @ port else host @ '':'' @ port)"

definition client_addr :: "(bytes \<Rightarrow> bytes) \<Rightarrow> bytes" where
  "client_addr getenv =
     JoinHostPort (if getenv ''PGHOST'' = [] then ''127.0.0.1'' else getenv ''PGHOST'')
       (if getenv ''PGPORT'' = [] then ''5432'' else getenv ''PGPORT'')"

record ClientRun =
  cl_result :: "(client_error, unit) outcome"
  cl_sent :: "bytes list"
  cl_log :: "client_log list"

definition client_main :: "(bytes \<Rightarrow> bytes) \<Rightarrow> (bytes \<Rightarrow> bool) \<Rightarrow> (nat \<Rightarrow> bool) \<Rightarrow> bytes \<Rightarrow> ClientRun" where
  "client_main getenv dial write_ok r =
     (let stopped = (\<lambda>e sent l. \<lparr>cl_result = Err e, cl_sent = sent, cl_log = l\<rparr>);
          addr = client_addr getenv;
          l = [Connecting addr]
      in if \<not> dial addr then stopped ConnectFailed [] l
      else if \<not> write_ok 0 then stopped SSLRequestFailed [] l
      else case read_full 1 r of
        Ret (sslReply, r) \<Rightarrow>
          let l = l @ [SSLResponse (hd sslReply)] in
          if \<not> write_ok 1 then stopped StartupFailed [ssl_request] l
          else (case client_handshake r l of
            (Ret r, l) \<Rightarrow>
              let l = l @ [SendingQuery client_query] in
              if \<not> write_ok 2 then stopped QueryFailed [ssl_request, startup_packet] l
              else (case client_response r l of
                (res, l) \<Rightarrow> \<lparr>cl_result = res, cl_sent = [ssl_request, startup_packet, query_packet],
                  cl_log = (if res = Panic then l else l @ [ChecksPassed])\<rparr>)
          | (Err e, l) \<Rightarrow> stopped e [ssl_request, startup_packet] l
          | (Panic, l) \<Rightarrow> \<lparr>cl_result = Panic, cl_sent = [ssl_request, startup_packet], cl_log = l\<rparr>)
      | _ \<Rightarrow> stopped SSLReplyFailed [ssl_request] l)"

section \<open>Reading what the server writes\<close>

definition reply_fits :: "byte \<times> bytes \<Rightarrow> bool" where
  "reply_fits p \<longleftrightarrow> length (snd p) + 4 < 2 ^ 32"

lemma read_reply_packet:
  assumes "reply_fits (t, b)"
  shows "read_reply (packet t b @ r) = Ret ((t, b), r)"
proof -
  have "packet_len b - 4 = (word_of_nat (length b) :: 32 word)" by (simp add: packet_len_def)
  moreover have "unat (word_of_nat (length b) :: 32 word) = length b"
    using assms by (intro unat_small_32) (simp add: reply_fits_def)
  moreover have "read_full 1 (packet t b @ r) = Ret ([t], put_u32 (packet_len b) @ b @ r)"
    by (simp add: packet_def read_full_def)
  ultimately show ?thesis by (simp add: read_reply_def)
qed

lemma frames_fit: "length (frames ps) < 2 ^ 32 \<Longrightarrow> list_all reply_fits ps"
  by (induction ps) (auto simp: reply_fits_def packet_def)

definition auth_lines :: "(byte \<times> bytes) list \<Rightarrow> client_log list" where
  "auth_lines ps = map (\<lambda>_. AuthenticationOk) (filter (\<lambda>p. fst p = CHR ''R'') ps)"

lemma client_handshake_frames:
  assumes "list_all reply_fits (ps @ [(MsgTypeReadyForQuery, z)])" and "MsgTypeReadyForQuery \<notin> fst ` set ps"
  shows "client_handshake (frames (ps @ [(MsgTypeReadyForQuery, z)]) @ r) l =
    (Ret r, l @ auth_lines ps @ [SessionEstablished])"
  using assms
proof (induction ps arbitrary: l)
  case Nil
  then show ?case
    by (subst client_handshake.simps) (simp add: read_reply_packet auth_lines_def MsgTypeReadyForQuery_def)
next
  case (Cons p ps)
  obtain t b where p: "p = (t, b)" by (cases p)
  show ?case
    using Cons by (subst client_handshake.simps)
      (auto simp: p read_reply_packet auth_lines_def MsgTypeReadyForQuery_def)
qed

fun response_line :: "byte \<times> bytes \<Rightarrow> client_log list" where
  "response_line (t, b) =
     (if t = MsgTypeRowDescription then [RowDescriptionSeen] else if t = MsgTypeDataRow then [DataRowSeen]
      else if t = MsgTypeCommandComplete then [CommandSeen (butlast b)] else [])"

lemma client_response_frames:
  assumes "list_all reply_fits (ps @ [(MsgTypeReadyForQuery, z)])" and "MsgTypeReadyForQuery \<notin> fst ` set ps"
    and "(MsgTypeCommandComplete, []) \<notin> set ps"
  shows "client_response (frames (ps @ [(MsgTypeReadyForQuery, z)]) @ r) l =
    (Ret (), l @ concat (map response_line ps) @ [VerificationComplete])"
  using assms
proof (induction ps arbitrary: l)
  case Nil
  then show ?case
    by (subst client_response.simps) (simp add: read_reply_packet MsgTypeReadyForQuery_def)
next
  case (Cons p ps)
  obtain t b where p: "p = (t, b)" by (cases p)
  show ?case
    using Cons by (subst client_response.simps)
      (auto simp: p read_reply_packet backend_tags)
qed

section \<open>The client and the server\<close>

definition client_requests :: "bytes list" where
  "client_requests = [ssl_request, startup_packet, query_packet]"

lemma startup_packet_encoded: "startup_packet = encode_startup [(''user'', ''postgres''), (''database'', ''testdb'')]"
  by code_simp

lemma read_ssl_request: "ReadStartupOrSSL (ssl_request @ r) = Ret ((True, None), r)"
  by (simp add: ssl_request_def ReadStartupOrSSL_def SSLRequestCode_def)

lemma read_startup_packet: "read_startup (startup_packet @ r) = Ret (False, r)"
  unfolding startup_packet_encoded read_startup_def
  by (subst ReadStartup_encode)
    (simp_all add: startup_pair_ok_def no_nul_def NUL_def encode_startup_def cstr_def Let_def)

lemma server_handshake:
  "fst (handleHandshake None order (ssl_request @ startup_packet @ r) s) = Ret r"
  "fst (handleHandshake None order ssl_request s) = Err (ReadError EOF)"
  "fst (handleHandshake None order [] s) = Err (ReadError EOF)"
proof -
  have ssl: "read_startup (ssl_request @ q) = Ret (True, q)" for q
    by (simp add: read_startup_def read_ssl_request)
  have empty: "read_startup [] = Err (ReadError EOF)"
    by (simp add: read_startup_def ReadStartupOrSSL_def read_full_def)
  from ssl [of "[]"] ssl empty show
    "fst (handleHandshake None order (ssl_request @ startup_packet @ r) s) = Ret r"
    "fst (handleHandshake None order ssl_request s) = Err (ReadError EOF)"
    "fst (handleHandshake None order [] s) = Err (ReadError EOF)"
    by (simp_all add: handleHandshake_fst read_second_startup_def read_startup_packet)
qed

lemma ssl_answers: "ssl_answer None (ssl_request @ r) = ''N''" "ssl_answer None [] = []"
  using read_ssl_request by (simp_all add: ssl_answer_def ReadStartupOrSSL_def read_full_def)

lemma query_packet_framed: "query_packet = packet MsgTypeQuery (cstr client_query)"
  by code_simp

text \<open>The server's answer to the query, and the lines it makes the client print.\<close>

definition verdict_lines :: "client_log list \<Rightarrow> bool" where
  "verdict_lines ls \<longleftrightarrow> ls = [] \<or> (\<exists>tag. ls = [CommandSeen tag]) \<or>
     (\<exists>tag n. ls = RowDescriptionSeen # replicate n DataRowSeen @ [CommandSeen tag])"

lemma answer_lines: "verdict_lines (concat (map response_line (answer_packets rule fs cells)))"
proof -
  have "concat (map response_line (map (\<lambda>c. (MsgTypeDataRow, data_row_body c)) cells)) = replicate (length cells) DataRowSeen"
    by (induction cells) (simp_all add: backend_tags)
  then show ?thesis by (auto simp: answer_packets_def verdict_lines_def backend_tags)
qed

lemma query_answered:
  assumes "no_drops rt s" and "serve rt ahead query_packet s = Ret s'"
  obtains ps where "replied s s' (ps @ [(MsgTypeReadyForQuery, [s_tx s'])])" and "MsgTypeReadyForQuery \<notin> fst ` set ps"
    and "(MsgTypeCommandComplete, []) \<notin> set ps" and "verdict_lines (concat (map response_line ps))"
proof -
  let ?s1 = "(count_query s)\<lparr>s_tx := track_tx rt client_query (s_tx s)\<rparr>"
  have q: "TrimSpace (case IndexByte (cstr client_query) NUL of None \<Rightarrow> cstr client_query | Some i \<Rightarrow> take i (cstr client_query)) = client_query"
    by code_simp
  have rest: "still_read ahead s b [] = []" for b
    by (auto simp: still_read_def)
  have "serve rt ahead (packet MsgTypeQuery (cstr client_query) @ []) s = Ret s'"
    using assms(2) by (simp add: query_packet_framed)
  then have "handleSimpleQuery rt (cstr client_query) s = Ret s'"
    by (subst (asm) serve_packet)
      (auto simp: client_query_def cstr_def processMessage_eqs continue_def rest serve_end outcome_simps
        split: outcome.splits)
  moreover have "\<not> (client_query = [] \<or> client_query = '';'')" by (simp add: client_query_def)
  ultimately have "and_then (answer_query rt client_query [] [] ?s1) (\<lambda>s. Ret (ready s)) = Ret s'"
    by (simp add: handleSimpleQuery_cases q Let_def)
  then obtain s2 where 2: "answer_query rt client_query [] [] ?s1 = Ret s2" "s' = ready s2"
    by (auto simp: outcome_simps)
  have nd: "no_drops rt ?s1"
    using assms(1) track_tx_ok by (simp add: no_drops_def session_ok_def count_query_def)
  then have ok: "session_ok rt ?s1" by (simp add: no_drops_def)
  from answer_query_replied [OF ok 2(1)] obtain rule s1 where
    r: "engine_match rt client_query [] ?s1 = Ret (rule, s1)" "rule_replied rt rule [] ?s1 s2" by metis
  have "\<not> r_drop rule" using engine_match_open [OF nd r(1)] by simp
  with r(2) obtain ps where ps: "replied ?s1 s2 ps" "MsgTypeReadyForQuery \<notin> fst ` set ps"
    "(MsgTypeCommandComplete, []) \<notin> set ps" "verdict_lines (concat (map response_line ps))"
  proof (cases "raised rule")
    case None
    with r(2) \<open>\<not> r_drop rule\<close> obtain cells where "replied ?s1 s2 (answer_packets rule [] cells)"
      by (auto simp: rule_replied_def)
    then show ?thesis
    proof (rule that)
      show "MsgTypeReadyForQuery \<notin> fst ` set (answer_packets rule [] cells)"
        "(MsgTypeCommandComplete, []) \<notin> set (answer_packets rule [] cells)"
        by (auto simp: answer_packets_def backend_tags cstr_def)
      show "verdict_lines (concat (map response_line (answer_packets rule [] cells)))" by (rule answer_lines)
    qed
  next
    case (Some e)
    with r(2) \<open>\<not> r_drop rule\<close> have "replied ?s1 s2 [(MsgTypeErrorResponse, error_body (rule_error e))]"
      by (simp add: rule_replied_def)
    then show ?thesis by (rule that) (simp_all add: backend_tags verdict_lines_def)
  qed
  have "replied s s2 ps" by (rule replied_out [OF _ ps(1)]) (simp add: count_query_def)
  then have "replied s s' (ps @ [(MsgTypeReadyForQuery, [s_tx s'])])"
    unfolding 2(2) by (rule replied_trans) simp
  with ps show thesis by (rule_tac that)
qed

lemma Handle_refused:
  assumes "handleHandshake None order input s0 = (Err e, s1)" and "s0 = s\<lparr>s_active := map_option (\<lambda>n. n + 1) (s_active s)\<rparr>"
    and "s_out s = []"
  shows "\<exists>s'. Handle rt None order ahead input s = Ret s' \<and> wire (s_out s') = ssl_answer None input"
proof -
  from handleHandshake_replied [OF assms(1), where rt = rt] obtain evs where
    "s_out s1 = s_out s0 @ evs" "wire evs = ssl_answer None input" by auto
  with assms show ?thesis by (auto simp: Handle_def emit_def)
qed

lemma Handle_greeted:
  assumes "fst (handleHandshake None order input s0) = Ret r" and "s0 = s\<lparr>s_active := map_option (\<lambda>n. n + 1) (s_active s)\<rparr>"
    and "no_drops rt s" and "s_out s = []"
  obtains s1 where "no_drops rt s1" and "wire (s_out s1) = ssl_answer None input @ frames (greeting_packets order (s_tx s))"
    and "Handle rt None order ahead input s = and_then (serve rt ahead r s1)
      (\<lambda>s2. Ret ((emit CloseConn s2)\<lparr>s_active := map_option (\<lambda>n. n - 1) (s_active s2)\<rparr>))"
proof -
  obtain s1 where h: "handleHandshake None order input s0 = (Ret r, s1)"
    using assms(1) by (cases "handleHandshake None order input s0") auto
  have "s_engine s1 = s_engine s"
    using h assms(2) by (auto simp: handleHandshake_def Let_def greeting_def ready_def send_def
        split: outcome.splits bool.splits prod.splits)
  moreover from handleHandshake_replied [OF h, where rt = rt] assms(2,3,4) obtain evs where
    "session_ok rt s1" "s_out s1 = evs" "wire evs = ssl_answer None input @ frames (greeting_packets order (s_tx s))"
    by (auto simp: no_drops_def session_ok_def)
  ultimately have "no_drops rt s1" "wire (s_out s1) = ssl_answer None input @ frames (greeting_packets order (s_tx s))"
    using assms(3) by (simp_all add: no_drops_def)
  then show thesis
    by (rule that) (simp add: Handle_def Let_def h [unfolded assms(2)] emit_def)
qed

text \<open>One packet after another: what the client makes of the greeting.\<close>

lemma greeting_lines: "auth_lines (butlast (greeting_packets order tx)) = [AuthenticationOk]"
proof -
  have "filter (\<lambda>p. fst p = CHR ''R'') (map (\<lambda>(k, v). (MsgTypeParameterStatus, cstr k @ cstr v)) order) = []"
    by (auto simp: filter_empty_conv backend_tags)
  then show ?thesis by (simp add: greeting_packets_def auth_lines_def butlast_append backend_tags)
qed

lemma greeting_shape: "\<exists>ps. greeting_packets order tx = ps @ [(MsgTypeReadyForQuery, [tx])] \<and>
    MsgTypeReadyForQuery \<notin> fst ` set ps \<and> auth_lines ps = [AuthenticationOk]"
proof -
  have "greeting_packets order tx = butlast (greeting_packets order tx) @ [(MsgTypeReadyForQuery, [tx])]"
    by (simp add: greeting_packets_def butlast_append)
  moreover have "MsgTypeReadyForQuery \<notin> fst ` set (butlast (greeting_packets order tx))"
    by (auto simp: greeting_packets_def butlast_append backend_tags)
  ultimately show ?thesis using greeting_lines by blast
qed

definition willing :: "(bytes \<Rightarrow> bytes) \<Rightarrow> bytes \<Rightarrow> ClientRun" where
  "willing getenv = client_main getenv (\<lambda>_. True) (\<lambda>_. True)"

lemma client_handshake_end: "client_handshake [] l = (Err HandshakeRead, l)"
  by (subst client_handshake.simps) (simp add: read_reply_def read_full_def)

lemma client_before: "cl_sent (willing getenv []) = [ssl_request]"
  by (simp add: willing_def client_main_def Let_def read_full_def)

lemma client_refused: "cl_sent (willing getenv ''N'') = [ssl_request, startup_packet]"
  by (simp add: willing_def client_main_def Let_def read_full_def)
    (simp add: client_handshake_end)

lemma client_greeted:
  assumes "list_all reply_fits (greeting_packets order tx)"
  shows "willing getenv (''N'' @ frames (greeting_packets order tx) @ r) =
    (case client_response r [Connecting (client_addr getenv), SSLResponse (CHR ''N''), AuthenticationOk, SessionEstablished,
        SendingQuery client_query] of
      (res, l) \<Rightarrow> \<lparr>cl_result = res, cl_sent = client_requests, cl_log = (if res = Panic then l else l @ [ChecksPassed])\<rparr>)"
proof -
  from greeting_shape obtain ps where ps: "greeting_packets order tx = ps @ [(MsgTypeReadyForQuery, [tx])]"
    "MsgTypeReadyForQuery \<notin> fst ` set ps" "auth_lines ps = [AuthenticationOk]" by blast
  have n: "read_full 1 (''N'' @ x) = Ret (''N'', x)" for x by (rule read_full_append) simp
  show ?thesis
    using assms unfolding ps(1)
    by (simp add: willing_def client_main_def Let_def n client_handshake_frames [OF _ ps(2), unfolded ps(3)] client_requests_def
        del: frames_simps append_Cons) simp
qed

text \<open>The run of the server after the startup message, and the two runs of the client on its output.\<close>

lemma Handle_started:
  assumes "no_drops rt s" and "s_out s = []"
    and "Handle rt None order ahead (ssl_request @ startup_packet @ r) s = Ret s'"
  obtains s1 s2 where "no_drops rt s1" and "serve rt ahead r s1 = Ret s2" and "wire (s_out s') = wire (s_out s2)"
    and "wire (s_out s1) = ''N'' @ frames (greeting_packets order (s_tx s))"
proof -
  from Handle_greeted [OF server_handshake(1) refl assms(1,2), where ahead = ahead and order = order and r = r] obtain s1 where
    1: "no_drops rt s1" "wire (s_out s1) = ''N'' @ frames (greeting_packets order (s_tx s))"
      "Handle rt None order ahead (ssl_request @ startup_packet @ r) s = and_then (serve rt ahead r s1)
        (\<lambda>s2. Ret ((emit CloseConn s2)\<lparr>s_active := map_option (\<lambda>n. n - 1) (s_active s2)\<rparr>))"
    by (auto simp: ssl_answers)
  from 1(3) assms(3) have "and_then (serve rt ahead r s1)
      (\<lambda>s2. Ret ((emit CloseConn s2)\<lparr>s_active := map_option (\<lambda>n. n - 1) (s_active s2)\<rparr>)) = Ret s'" by simp
  then obtain s2 where "serve rt ahead r s1 = Ret s2" "wire (s_out s') = wire (s_out s2)"
    by (auto simp: outcome_simps emit_def)
  with 1 show thesis by (rule_tac that)
qed

lemma client_greeted_only:
  assumes "length (frames (greeting_packets order tx)) < 2 ^ 32"
  shows "cl_sent (willing getenv (''N'' @ frames (greeting_packets order tx))) = client_requests"
  using client_greeted [OF frames_fit [OF assms], of getenv "[]"] by (simp split: prod.split)

lemma client_answered:
  assumes "length (''N'' @ frames (greeting_packets order tx) @ frames (ps @ [(MsgTypeReadyForQuery, z)])) < 2 ^ 32"
    and "MsgTypeReadyForQuery \<notin> fst ` set ps" and "(MsgTypeCommandComplete, []) \<notin> set ps"
  shows "willing getenv (''N'' @ frames (greeting_packets order tx) @ frames (ps @ [(MsgTypeReadyForQuery, z)])) =
    \<lparr>cl_result = Ret (), cl_sent = client_requests,
     cl_log = [Connecting (client_addr getenv), SSLResponse (CHR ''N''), AuthenticationOk, SessionEstablished,
       SendingQuery client_query] @ concat (map response_line ps) @ [VerificationComplete, ChecksPassed]\<rparr>"
proof -
  have fit: "list_all reply_fits (greeting_packets order tx)" "list_all reply_fits (ps @ [(MsgTypeReadyForQuery, z)])"
    using assms(1) by (intro frames_fit, simp)+
  show ?thesis
    using client_greeted [OF fit(1), of getenv "frames (ps @ [(MsgTypeReadyForQuery, z)])"]
      client_response_frames [OF fit(2) assms(2,3), of "[]"] by (simp del: frames_simps)
qed

text \<open>
  C17. The example client and the connection handler agree, request by request: on what the server
  writes for the first k requests the client goes on to send the next one, and after the third it
  ends well, having seen AuthenticationOk, ReadyForQuery, and an answer that is an error or a
  completed result.  This holds for every registry without a rule that drops connections, without TLS.
\<close>

theorem client_and_server:
  assumes "no_drops rt s" and "s_out s = []" and "k \<le> 3"
    and "Handle rt None order ahead (concat (take k client_requests)) s = Ret s'"
    and "length (wire (s_out s')) < 2 ^ 32"
  shows "if k < 3 then cl_sent (willing getenv (wire (s_out s'))) = take (k + 1) client_requests
    else \<exists>ls. verdict_lines ls \<and> willing getenv (wire (s_out s')) =
      \<lparr>cl_result = Ret (), cl_sent = client_requests,
       cl_log = [Connecting (client_addr getenv), SSLResponse (CHR ''N''), AuthenticationOk, SessionEstablished,
         SendingQuery client_query] @ ls @ [VerificationComplete, ChecksPassed]\<rparr>"
proof -
  let ?s0 = "s\<lparr>s_active := map_option (\<lambda>n. n + 1) (s_active s)\<rparr>"
  have refused: "wire (s_out s') = ssl_answer None input"
    if i: "fst (handleHandshake None order input ?s0) = Err e" "concat (take k client_requests) = input" for input e
  proof -
    have "handleHandshake None order input ?s0 = (Err e, snd (handleHandshake None order input ?s0))"
      using i(1) by (metis prod.collapse)
    from Handle_refused [OF this refl assms(2), of rt ahead] assms(4) i(2) show ?thesis by auto
  qed
  consider "k = 0" | "k = 1" | "k = 2" | "k = 3" using assms(3) by linarith
  then show ?thesis
  proof cases
    case 1
    with refused [OF server_handshake(3)] show ?thesis
      using client_before by (simp add: ssl_answers client_requests_def)
  next
    case 2
    with refused [OF server_handshake(2)] show ?thesis
      using client_refused ssl_answers(1) [of "[]"] by (simp add: client_requests_def)
  next
    case 3
    then have "Handle rt None order ahead (ssl_request @ startup_packet @ []) s = Ret s'"
      using assms(4) by (simp add: client_requests_def)
    from Handle_started [OF assms(1,2) this] obtain s1 where
      "wire (s_out s') = ''N'' @ frames (greeting_packets order (s_tx s))" by (auto simp: serve_end)
    with client_greeted_only assms(5) 3 show ?thesis by (simp add: client_requests_def)
  next
    case 4
    then have "Handle rt None order ahead (ssl_request @ startup_packet @ query_packet) s = Ret s'"
      using assms(4) by (simp add: client_requests_def)
    from Handle_started [OF assms(1,2) this] obtain s1 s2 where 1: "no_drops rt s1" "serve rt ahead query_packet s1 = Ret s2"
      "wire (s_out s') = wire (s_out s2)" "wire (s_out s1) = ''N'' @ frames (greeting_packets order (s_tx s))" .
    from query_answered [OF 1(1,2)] obtain ps where
      ps: "replied s1 s2 (ps @ [(MsgTypeReadyForQuery, [s_tx s2])])" "MsgTypeReadyForQuery \<notin> fst ` set ps"
        "(MsgTypeCommandComplete, []) \<notin> set ps" "verdict_lines (concat (map response_line ps))" .
    from ps(1) 1(3,4) have w: "wire (s_out s') = ''N'' @ frames (greeting_packets order (s_tx s)) @
        frames (ps @ [(MsgTypeReadyForQuery, [s_tx s2])])"
      unfolding replied_def by (elim exE conjE) simp
    with client_answered [OF _ ps(2,3)] assms(5) ps(4) 4 show ?thesis by (auto simp del: frames_simps)
  qed
qed

lemma client_and_server_witness:
  "\<exists>s' ls. Handle ascii_rt None [] 0 (concat client_requests) quiet_session = Ret s' \<and> verdict_lines ls \<and>
     cl_log (willing (\<lambda>_. []) (wire (s_out s'))) =
       [Connecting ''127.0.0.1:5432'', SSLResponse (CHR ''N''), AuthenticationOk, SessionEstablished,
        SendingQuery client_query] @ ls @ [VerificationComplete, ChecksPassed]"
proof -
  let ?input = "concat (take 3 client_requests)"
  have "case Handle ascii_rt None [] 0 ?input quiet_session of Ret s' \<Rightarrow> length (wire (s_out s')) < 500 | _ \<Rightarrow> False"
    by code_simp
  then obtain s' where s': "Handle ascii_rt None [] 0 ?input quiet_session = Ret s'" "length (wire (s_out s')) < 2 ^ 32"
    by (cases "Handle ascii_rt None [] 0 ?input quiet_session") auto
  have n: "no_drops ascii_rt quiet_session" "s_out quiet_session = []"
    using session_ok_quiet by (simp_all add: no_drops_def quiet_session_def NewConnHandler_def NewEngine_def)
  have a: "client_addr (\<lambda>_. []) = ''127.0.0.1:5432''" by (simp add: client_addr_def JoinHostPort_def)
  from client_and_server [OF n _ s', of "\<lambda>_. []"] s'(1) a show ?thesis
    by (intro exI [of _ s']) (auto simp: client_requests_def)
qed

end
