(* ===== verification/Conn_Many.thy ===== *)
theory Conn_Many
  imports Conn_Protocol Admin Transitions
begin

text \<open>
  All connections of a running server together, and its HTTP interface: they share the engine, the
  environment and the two counters, and each connection has a session of its own.  One message of one
  connection, or one HTTP request, is one step; what happens between the locks within one message is the
  subject of \<open>Engine_Race\<close>, \<open>Hits_Race\<close> and \<open>Row_Heap\<close>.
\<close>

section \<open>The private part of a session\<close>

record Private =
  pv_tx :: byte
  pv_stmts :: "bytes \<rightharpoonup> ParseMessage"
  pv_portals :: "bytes \<rightharpoonup> portalState"

definition own :: "Session \<Rightarrow> Private" where
  "own s = \<lparr>pv_tx = s_tx s, pv_stmts = s_stmts s, pv_portals = s_portals s\<rparr>"

definition fresh_private :: Private where
  "fresh_private = \<lparr>pv_tx = TxStatusIdle, pv_stmts = Map.empty, pv_portals = Map.empty\<rparr>"

text \<open>What a message does to it, without a look at the engine or at any other connection.\<close>

definition own_bind :: "BindMessage \<Rightarrow> Private \<Rightarrow> Private" where
  "own_bind b v =
     (let stmt = pv_stmts v (b_statement b) in
      if stmt = None \<and> b_statement b \<noteq> [] then v
      else v\<lparr>pv_portals := (pv_portals v)(b_portal b \<mapsto>
        \<lparr>ps_stmt = stmt, ps_params = b_params b, ps_formats = b_results b\<rparr>)\<rparr>)"

definition own_close :: "CloseMessage \<Rightarrow> Private \<Rightarrow> Private" where
  "own_close m v =
     (if c_target m = CHR ''S'' then v\<lparr>pv_stmts := (pv_stmts v)(c_name m := None)\<rparr>
      else if c_target m = CHR ''P'' then v\<lparr>pv_portals := (pv_portals v)(c_name m := None)\<rparr>
      else v)"

definition own_step :: "go_rt \<Rightarrow> byte \<times> bytes \<Rightarrow> Private \<Rightarrow> Private" where
  "own_step rt = (\<lambda>(t, p) v.
     if t = MsgTypeQuery then
       (if empty_text (query_text p) then v else v\<lparr>pv_tx := track_tx rt (query_text p) (pv_tx v)\<rparr>)
     else if t = MsgTypeParse then
       (case ReadParse p of Ret m \<Rightarrow> v\<lparr>pv_stmts := (pv_stmts v)(p_statement m \<mapsto> m)\<rparr> | _ \<Rightarrow> v)
     else if t = MsgTypeBind then (case ReadBind p of Ret b \<Rightarrow> own_bind b v | _ \<Rightarrow> v)
     else if t = MsgTypeClose then (case ReadClose p of Ret m \<Rightarrow> own_close m v | _ \<Rightarrow> v)
     else v)"

definition own_after :: "go_rt \<Rightarrow> (byte \<times> bytes) list \<Rightarrow> Private" where
  "own_after rt ms = fold (own_step rt) ms fresh_private"

text \<open>The messages that count as a query.\<close>

definition counted :: "(byte \<times> bytes) list \<Rightarrow> int" where
  "counted ms = int (length (filter (\<lambda>m. fst m \<in> {MsgTypeQuery, MsgTypeExecute}) ms))"

lemma counted_simps [simp]: "counted [] = 0"
  "counted (ms @ [(t, p)]) = counted ms + (if t = MsgTypeQuery \<or> t = MsgTypeExecute then 1 else 0)"
  by (simp_all add: counted_def)

lemma private_simps [simp]:
  "own (send c s) = own s" "own (send_error a m s) = own s" "own (ready s) = own s"
  "own (count_query s) = own s" "own (emit ev s) = own s"
  "own (s\<lparr>s_engine := e, s_world := w\<rparr>) = own s" "own (s\<lparr>s_active := n\<rparr>) = own s"
  by (simp_all add: own_def send_def send_error_def ready_def count_query_def emit_def)

lemma own_tx: "pv_tx (own s) = s_tx s"
  by (simp add: own_def)

lemma queries_simps [simp]:
  "s_queries (send c s) = s_queries s" "s_queries (send_error a m s) = s_queries s" "s_queries (ready s) = s_queries s"
  "s_queries (count_query s) = map_option (\<lambda>n. n + 1) (s_queries s)"
  by (simp_all add: send_def send_error_def ready_def count_query_def)

lemma shared_simps: "s_engine (send c s) = s_engine s" "s_world (send c s) = s_world s"
  "s_engine (ready s) = s_engine s" "s_world (ready s) = s_world s"
  by (simp_all add: send_def ready_def)

lemma answer_query_private:
  assumes "session_ok rt s" and "answer_query rt q ps fs s = Ret s'"
  shows "own s' = own s \<and> s_queries s' = s_queries s"
proof -
  from answer_query_replied [OF assms] obtain rule s1 where
    1: "engine_match rt q ps s = Ret (rule, s1)" "same_state rt s1 s'" by metis
  from 1(1) have "own s1 = own s \<and> s_queries s1 = s_queries s"
    by (auto simp: engine_match_def Let_def and_then_pair_Ret)
  moreover have "own s' = own s1 \<and> s_queries s' = s_queries s1"
    using 1(2) by (cases s1; cases s') (simp add: same_state_def own_def)
  ultimately show ?thesis by simp
qed

lemma describe_query_private:
  "describe_query rt q fs s = Ret s' \<Longrightarrow> own s' = own s \<and> s_queries s' = s_queries s"
  by (auto simp: describe_query_def engine_match_def Let_def and_then_pair_Ret split: if_splits)

lemma handleSimpleQuery_private:
  assumes "session_ok rt s" and "handleSimpleQuery rt p s = Ret s'"
  shows "own s' = own_step rt (MsgTypeQuery, p) (own s) \<and> s_queries s' = map_option (\<lambda>n. n + 1) (s_queries s)"
proof (cases "empty_text (query_text p)")
  case True
  with assms(2) show ?thesis by (auto simp: handleSimpleQuery_text Let_def own_step_def)
next
  case False
  with assms(2) obtain s2 where 2: "answer_query rt (query_text p) [] []
      ((count_query s)\<lparr>s_tx := track_tx rt (query_text p) (s_tx s)\<rparr>) = Ret s2" "s' = ready s2"
    by (auto simp: handleSimpleQuery_text Let_def outcome_simps)
  have "own s' = own s2 \<and> s_queries s' = s_queries s2" by (simp add: 2(2))
  with answer_query_private [OF with_tx_ok [OF assms(1)] 2(1)] False show ?thesis
    by (simp add: own_step_def own_def count_query_def)
qed

lemma handleExecute_private:
  assumes "session_ok rt s" and "handleExecute rt p s = Ret s'"
  shows "own s' = own s \<and> s_queries s' = map_option (\<lambda>n. n + 1) (s_queries s)"
  using assms(2)
proof (cases rule: execute_query)
  case (1 q ps fs)
  with answer_query_private [OF _ 1] assms(1) show ?thesis by simp
qed simp

lemma handleDescribe_private:
  assumes "handleDescribe rt p s = Ret s'"
  shows "own s' = own s \<and> s_queries s' = s_queries s"
  using assms
proof (cases rule: describe_query_steps)
  case (2 oids q)
  from describe_query_private [OF 2] show ?thesis by simp
next
  case (3 q fs)
  from describe_query_private [OF 3] show ?thesis .
qed simp

lemma quiet_handlers_private:
  "handleParse p s = Ret s' \<Longrightarrow> own s' = own_step rt (MsgTypeParse, p) (own s) \<and> s_queries s' = s_queries s"
  "handleBind rt p s = Ret s' \<Longrightarrow> own s' = own_step rt (MsgTypeBind, p) (own s) \<and> s_queries s' = s_queries s"
  "handleClose p s = Ret s' \<Longrightarrow> own s' = own_step rt (MsgTypeClose, p) (own s) \<and> s_queries s' = s_queries s"
  by (auto simp: handleParse_def handleBind_def handleClose_def Let_def own_step_def own_bind_def own_close_def
      frontend_tags own_def send_def send_error_def split: outcome.splits if_splits)

lemma processMessage_private:
  assumes "session_ok rt s" and "processMessage rt t p s = Ret (c, s')"
  shows "own s' = own_step rt (t, p) (own s) \<and>
    s_queries s' = (if t = MsgTypeQuery \<or> t = MsgTypeExecute then map_option (\<lambda>n. n + 1) (s_queries s) else s_queries s)"
proof -
  consider "t = MsgTypeQuery" | "t = MsgTypeParse" | "t = MsgTypeBind" | "t = MsgTypeClose" | "t = MsgTypeDescribe"
    | "t = MsgTypeExecute" | "t \<notin> {MsgTypeQuery, MsgTypeParse, MsgTypeBind, MsgTypeClose, MsgTypeDescribe, MsgTypeExecute}"
    by blast
  then show ?thesis
  proof cases
    case 1
    with handleSimpleQuery_private [OF assms(1)] assms(2) show ?thesis
      by (auto simp: processMessage_eqs continue_def outcome_simps)
  next
    case 2
    with assms(2) have "handleParse p s = Ret s'" by (auto simp: processMessage_eqs continue_def outcome_simps)
    from quiet_handlers_private(1) [of p s s' rt, OF this] 2 show ?thesis by (simp add: frontend_tags)
  next
    case 3
    with assms(2) have "handleBind rt p s = Ret s'" by (auto simp: processMessage_eqs continue_def outcome_simps)
    from quiet_handlers_private(2) [of rt p s s', OF this] 3 show ?thesis by (simp add: frontend_tags)
  next
    case 4
    with assms(2) have "handleClose p s = Ret s'" by (auto simp: processMessage_eqs continue_def outcome_simps)
    from quiet_handlers_private(3) [of p s s' rt, OF this] 4 show ?thesis by (simp add: frontend_tags)
  next
    case 5
    with assms(2) have "handleDescribe rt p s = Ret s'" by (auto simp: processMessage_eqs continue_def outcome_simps)
    from handleDescribe_private [OF this] 5 show ?thesis by (simp add: frontend_tags own_step_def)
  next
    case 6
    with assms(2) have "handleExecute rt p s = Ret s'" by (auto simp: processMessage_eqs continue_def outcome_simps)
    from handleExecute_private [OF assms(1) this] 6 show ?thesis by (simp add: frontend_tags own_step_def)
  next
    case 7
    with assms(2) show ?thesis
      by (auto simp: processMessage_def own_step_def split: if_splits)
  qed
qed

section \<open>The connections of a server\<close>

datatype stage =
    Talking      \<comment> \<open>in the loop of Handle\<close>
  | Leaving      \<comment> \<open>the loop is over, the deferred calls are not\<close>
  | Gone

text \<open>
  A connection: its session, the messages it was handed so far, and its stage.  Of the session, the engine,
  the environment and the counters are those of its last step; a step looks at the ones of the server.
\<close>

record Client_Conn =
  cc_session :: Session
  cc_messages :: "(byte \<times> bytes) list"
  cc_stage :: stage

record Running =
  ru_engine :: Engine
  ru_world :: World
  ru_queries :: int
  ru_active :: int
  ru_conns :: "Client_Conn list"

definition borrow :: "Running \<Rightarrow> Session \<Rightarrow> Session" where
  "borrow r s = s\<lparr>s_engine := ru_engine r, s_world := ru_world r, s_queries := Some (ru_queries r),
     s_active := Some (ru_active r)\<rparr>"

definition counter :: "int option \<Rightarrow> int" where
  "counter p = (case p of Some n \<Rightarrow> n | None \<Rightarrow> 0)"

text \<open>The server after a step of a connection that ended with the session \<open>s\<close>.\<close>

definition give_back :: "Session \<Rightarrow> Client_Conn list \<Rightarrow> Running \<Rightarrow> Running" where
  "give_back s conns r = \<lparr>ru_engine = s_engine s, ru_world = s_world s, ru_queries = counter (s_queries s),
     ru_active = counter (s_active s), ru_conns = conns\<rparr>"

text \<open>
  The steps: a connection is accepted and greeted (or its handshake fails), a message is read and
  processed, and a connection leaves, after a Terminate or at any time, since the client may
  close or break it off.  A panic is no step: it ends the process.
\<close>

definition connect ::
  "(bytes \<Rightarrow> bytes option) option \<Rightarrow> (bytes \<times> bytes) list \<Rightarrow> bytes \<Rightarrow> Running \<Rightarrow> (unit, Running) outcome" where
  "connect tls order input r =
     (let s = NewConnHandler (ru_engine r) (ru_world r) (Some (ru_active r)) (Some (ru_queries r));
          s = s\<lparr>s_active := map_option (\<lambda>n. n + 1) (s_active s)\<rparr>;
          enter = (\<lambda>st s. give_back s (ru_conns r @ [\<lparr>cc_session = s, cc_messages = [], cc_stage = st\<rparr>]) r)
      in case handleHandshake tls order input s of
           (Ret _, s) \<Rightarrow> Ret (enter Talking s)
         | (Err _, s) \<Rightarrow> Ret (enter Leaving s)
         | (Panic, _) \<Rightarrow> Panic)"

definition message :: "go_rt \<Rightarrow> nat \<Rightarrow> byte \<Rightarrow> bytes \<Rightarrow> Running \<Rightarrow> (unit, Running) outcome" where
  "message rt i t p r =
     (let c = ru_conns r ! i in
      and_then (processMessage rt t p (borrow r (cc_session c))) (\<lambda>(go, s).
        Ret (give_back s ((ru_conns r)[i := \<lparr>cc_session = s, cc_messages = cc_messages c @ [(t, p)],
          cc_stage = (if go then Talking else Leaving)\<rparr>]) r)))"

definition leave :: "nat \<Rightarrow> Running \<Rightarrow> Running" where
  "leave i r =
     (let c = ru_conns r ! i;
          s = emit CloseConn (borrow r (cc_session c));
          s = s\<lparr>s_active := map_option (\<lambda>n. n - 1) (s_active s)\<rparr>
      in give_back s ((ru_conns r)[i := c\<lparr>cc_session := s, cc_stage := Gone\<rparr>]) r)"

text \<open>The HTTP interface works on the same engine and reads the same counters.\<close>

definition ActiveConnections :: "Running \<Rightarrow> int" where
  "ActiveConnections r = ru_active r"

definition TotalQueries :: "Running \<Rightarrow> int" where
  "TotalQueries r = ru_queries r"

definition admin_view :: "Running \<Rightarrow> AdminServer" where
  "admin_view r = \<lparr>ad_engine = ru_engine r, ad_pg = Some (ActiveConnections r, TotalQueries r)\<rparr>"

definition with_admin :: "AdminServer \<Rightarrow> Running \<Rightarrow> Running" where
  "with_admin a r = r\<lparr>ru_engine := ad_engine a\<rparr>"

inductive running_step :: "go_rt \<Rightarrow> Running \<Rightarrow> Running \<Rightarrow> bool" for rt where
  connects: "connect tls order input r = Ret r' \<Longrightarrow> running_step rt r r'"
| hears: "i < length (ru_conns r) \<Longrightarrow> cc_stage (ru_conns r ! i) = Talking \<Longrightarrow> message rt i t p r = Ret r' \<Longrightarrow>
     running_step rt r r'"
| leaves: "i < length (ru_conns r) \<Longrightarrow> cc_stage (ru_conns r ! i) \<noteq> Gone \<Longrightarrow> running_step rt r (leave i r)"
| serves_http: "handle_request rt dr da page now rq (admin_view r) = (response, a) \<Longrightarrow>
     running_step rt r (with_admin a r)"

definition just_running :: "Engine \<Rightarrow> World \<Rightarrow> Running" where
  "just_running e w = \<lparr>ru_engine = e, ru_world = w, ru_queries = 0, ru_active = 0, ru_conns = []\<rparr>"

abbreviation running_from :: "go_rt \<Rightarrow> Engine \<Rightarrow> World \<Rightarrow> Running \<Rightarrow> bool" where
  "running_from rt e w \<equiv> reach ((=) (just_running e w)) (running_step rt)"

section \<open>What holds in every reachable state\<close>

text \<open>
  What a connection was sent: the answer to an SSLRequest, then the greeting, then one complete
  answer for each of its messages; a connection that was not greeted has no messages.
\<close>

definition greeted_answers :: "(byte \<times> bytes) list \<Rightarrow> bytes \<Rightarrow> bool" where
  "greeted_answers ms out \<longleftrightarrow> (\<exists>ssl order pss. ssl \<in> {[], ''N'', ''S''} \<and>
     list_all2 (\<lambda>m ps. map fst ps \<in> replies_to (fst m)) ms pss \<and>
     out = ssl @ frames (greeting_packets order TxStatusIdle) @ frames (concat pss))"

definition answers_of :: "(byte \<times> bytes) list \<Rightarrow> bytes \<Rightarrow> bool" where
  "answers_of ms out \<longleftrightarrow> greeted_answers ms out \<or> ms = [] \<and> out \<in> {[], ''N'', ''S''}"

definition conn_inv :: "go_rt \<Rightarrow> Client_Conn \<Rightarrow> bool" where
  "conn_inv rt c \<longleftrightarrow> own (cc_session c) = own_after rt (cc_messages c) \<and>
     s_tx (cc_session c) \<in> {TxStatusIdle, TxStatusInBlock} \<and>
     (cc_stage c = Talking \<longrightarrow> greeted_answers (cc_messages c) (wire (s_out (cc_session c)))) \<and>
     answers_of (cc_messages c) (wire (s_out (cc_session c)))"

definition present :: "Client_Conn \<Rightarrow> int" where
  "present c = (if cc_stage c = Gone then 0 else 1)"

definition running_inv :: "go_rt \<Rightarrow> Running \<Rightarrow> bool" where
  "running_inv rt r \<longleftrightarrow> engine_ok rt (ru_engine r) \<and> world_ok (ru_world r) \<and>
     (\<forall>c \<in> set (ru_conns r). conn_inv rt c) \<and>
     ru_queries r = sum_list (map (counted \<circ> cc_messages) (ru_conns r)) \<and>
     ru_active r = sum_list (map present (ru_conns r))"

lemma greeted_answers_snoc:
  assumes "greeted_answers ms out" and "map fst ps \<in> replies_to t"
  shows "greeted_answers (ms @ [(t, p)]) (out @ frames ps)"
proof -
  from assms(1) obtain ssl order pss where 1: "ssl \<in> {[], ''N'', ''S''}"
    "list_all2 (\<lambda>m ps. map fst ps \<in> replies_to (fst m)) ms pss"
    "out = ssl @ frames (greeting_packets order TxStatusIdle) @ frames (concat pss)"
    unfolding greeted_answers_def by (elim exE conjE)
  have "list_all2 (\<lambda>m ps. map fst ps \<in> replies_to (fst m)) (ms @ [(t, p)]) (pss @ [ps])"
    using 1(2) assms(2) by (simp add: list_all2_appendI)
  with 1 show ?thesis
    unfolding greeted_answers_def by (intro exI [of _ ssl] exI [of _ order] exI [of _ "pss @ [ps]"]) simp
qed

lemma own_after_simps [simp]: "own_after rt [] = fresh_private"
  "own_after rt (ms @ [m]) = own_step rt m (own_after rt ms)"
  by (simp_all add: own_after_def)

lemma borrow_simps [simp]: "own (borrow r s) = own s" "s_out (borrow r s) = s_out s" "s_tx (borrow r s) = s_tx s"
  "s_queries (borrow r s) = Some (ru_queries r)" "s_active (borrow r s) = Some (ru_active r)"
  "s_engine (borrow r s) = ru_engine r" "s_world (borrow r s) = ru_world r"
  by (simp_all add: borrow_def own_def)

lemma give_back_simps [simp]: "ru_conns (give_back s cs r) = cs" "ru_engine (give_back s cs r) = s_engine s"
  "ru_world (give_back s cs r) = s_world s" "ru_queries (give_back s cs r) = counter (s_queries s)"
  "ru_active (give_back s cs r) = counter (s_active s)"
  by (simp_all add: give_back_def)

lemma counter_Some [simp]: "counter (Some n) = n"
  by (simp add: counter_def)

text \<open>One message of one connection, with the engine as the others left it.\<close>

lemma processMessage_conn:
  assumes "engine_ok rt (ru_engine r)" and "world_ok (ru_world r)" and "conn_inv rt c" and "cc_stage c = Talking"
    and "processMessage rt t p (borrow r (cc_session c)) = Ret (go, s)"
  shows "conn_inv rt \<lparr>cc_session = s, cc_messages = cc_messages c @ [(t, p)], cc_stage = st\<rparr>"
    and "engine_ok rt (s_engine s) \<and> world_ok (s_world s)"
    and "s_active s = Some (ru_active r)" and "s_queries s = Some (ru_queries r + counted [(t, p)])"
proof -
  from assms(1-3) have ok: "session_ok rt (borrow r (cc_session c))" by (simp add: session_ok_def conn_inv_def)
  from processMessage_contract [OF ok assms(5)] obtain ps where
    1: "session_ok rt s" "s_active s = Some (ru_active r)" "replied (borrow r (cc_session c)) s ps" "map fst ps \<in> replies_to t"
    by (elim conjE exE) simp
  from 1(3) have "wire (s_out s) = wire (s_out (cc_session c)) @ frames ps" by (auto simp: replied_def)
  with greeted_answers_snoc [OF _ 1(4)] assms(3,4)
  have "greeted_answers (cc_messages c @ [(t, p)]) (wire (s_out s))" by (simp add: conn_inv_def)
  with processMessage_private [OF ok assms(5)] 1(1) assms(3)
  show "conn_inv rt \<lparr>cc_session = s, cc_messages = cc_messages c @ [(t, p)], cc_stage = st\<rparr>"
    by (simp add: conn_inv_def answers_of_def session_ok_def)
  show "engine_ok rt (s_engine s) \<and> world_ok (s_world s)" using 1(1) by (simp add: session_ok_def)
  show "s_active s = Some (ru_active r)" by (rule 1(2))
  show "s_queries s = Some (ru_queries r + counted [(t, p)])"
    using processMessage_private [OF ok assms(5)] by (simp add: counted_def)
qed

text \<open>A new connection, greeted or not.\<close>

lemma handshake_private:
  "own (snd (handleHandshake tls order input s)) = own s \<and> s_queries (snd (handleHandshake tls order input s)) = s_queries s \<and>
   s_engine (snd (handleHandshake tls order input s)) = s_engine s \<and> s_world (snd (handleHandshake tls order input s)) = s_world s"
  by (auto simp: handleHandshake_def Let_def greeting_def shared_simps split: outcome.splits bool.splits option.splits prod.splits)

lemma handshake_conn:
  assumes "handleHandshake tls order input s = (res, s')" and "own s = fresh_private" and "s_out s = []"
  shows "conn_inv rt \<lparr>cc_session = s', cc_messages = [],
    cc_stage = (case res of Ret _ \<Rightarrow> Talking | _ \<Rightarrow> Leaving)\<rparr>"
proof -
  have tx: "s_tx s = TxStatusIdle" using assms(2) by (simp add: own_def fresh_private_def)
  have own: "own s' = fresh_private" using handshake_private [of tls order input s] assms by simp
  then have tx': "s_tx s' = TxStatusIdle" by (simp add: own_def fresh_private_def)
  from handleHandshake_replied [OF assms(1), where rt = rt] assms(3) tx obtain evs where evs: "s_out s' = evs"
    "wire evs = ssl_answer tls input @ (case res of Ret _ \<Rightarrow> frames (greeting_packets order TxStatusIdle) | _ \<Rightarrow> [])"
    unfolding tx by (elim conjE exE) (rule that, simp_all)
  have ssl: "ssl_answer tls input \<in> {[], ''N'', ''S''}" by (auto simp: ssl_answer_def split: outcome.split bool.split)
  show ?thesis
  proof (cases res)
    case (Ret rest)
    with evs ssl have "greeted_answers [] (wire (s_out s'))"
      unfolding greeted_answers_def
      by (intro exI [of _ "ssl_answer tls input"] exI [of _ order] exI [of _ "[]"]) simp
    with own tx' Ret show ?thesis by (simp add: conn_inv_def answers_of_def)
  qed (use own tx' evs ssl in \<open>auto simp: conn_inv_def answers_of_def\<close>)
qed

lemma handle_request_ok:
  assumes "handle_request rt dr da page now rq s = (response, a)" and "engine_ok rt (ad_engine s)"
  shows "engine_ok rt (ad_engine a)"
  using assms by (auto simp: handle_request_def handleAddRule_def handleDeleteRule_def handleReset_def PrependRule_def
      DeleteRule_def ResetLogs_def engine_ok_def Let_def
      split: option.splits endpoint.splits sum.splits if_splits bool.splits prod.splits)

text \<open>The invariant, step by step.\<close>

lemma connect_inv:
  assumes "connect tls order input r = Ret r'" and "running_inv rt r"
  shows "running_inv rt r'"
proof -
  let ?s = "(NewConnHandler (ru_engine r) (ru_world r) (Some (ru_active r)) (Some (ru_queries r)))
      \<lparr>s_active := Some (ru_active r + 1)\<rparr>"
  obtain res s' where h: "handleHandshake tls order input ?s = (res, s')" by (cases "handleHandshake tls order input ?s")
  have new: "own ?s = fresh_private" "s_out ?s = []" "s_queries ?s = Some (ru_queries r)" "s_engine ?s = ru_engine r"
    "s_world ?s = ru_world r" "s_active ?s = Some (ru_active r + 1)"
    by (simp_all add: NewConnHandler_def own_def fresh_private_def)
  let ?c = "\<lparr>cc_session = s', cc_messages = [], cc_stage = (case res of Ret _ \<Rightarrow> Talking | _ \<Rightarrow> Leaving)\<rparr>"
  have r': "r' = give_back s' (ru_conns r @ [?c]) r"
    using assms(1) h by (cases res) (simp_all add: connect_def Let_def NewConnHandler_def)
  have "s_queries s' = Some (ru_queries r)" "s_engine s' = ru_engine r" "s_world s' = ru_world r"
    using handshake_private [of tls order input ?s] h new by simp_all
  moreover have "s_active s' = Some (ru_active r + 1)"
    using handleHandshake_replied [OF h, where rt = rt] new(6) by simp
  moreover have "present ?c = 1" by (cases res) (simp_all add: present_def)
  ultimately show ?thesis
    using handshake_conn [OF h new(1,2), where rt = rt] assms(2) by (simp add: r' running_inv_def)
qed

lemma set_update_inv: "\<forall>x \<in> set xs. P x \<Longrightarrow> P y \<Longrightarrow> \<forall>x \<in> set (xs[i := y]). P x"
  using set_update_subset_insert [of xs i y] by blast

lemma message_inv:
  assumes "message rt i t p r = Ret r'" and "i < length (ru_conns r)" and "cc_stage (ru_conns r ! i) = Talking"
    and "running_inv rt r"
  shows "running_inv rt r'"
proof -
  let ?c = "ru_conns r ! i"
  obtain go s where m: "processMessage rt t p (borrow r (cc_session ?c)) = Ret (go, s)"
    and r': "r' = give_back s ((ru_conns r)[i := \<lparr>cc_session = s, cc_messages = cc_messages ?c @ [(t, p)],
          cc_stage = (if go then Talking else Leaving)\<rparr>]) r" (is "_ = give_back s (_[i := ?c']) r")
    using assms(1) by (auto simp: message_def Let_def and_then_pair_Ret)
  have inv: "engine_ok rt (ru_engine r)" "world_ok (ru_world r)" "conn_inv rt ?c"
    using assms(2,4) by (simp_all add: running_inv_def)
  note k = processMessage_conn [OF inv assms(3) m]
  have "sum_list (map (counted \<circ> cc_messages) ((ru_conns r)[i := ?c'])) =
      sum_list (map (counted \<circ> cc_messages) (ru_conns r)) + counted [(t, p)]"
    using sum_list_map_update [OF assms(2), of "counted \<circ> cc_messages" ?c'] by (simp add: counted_def)
  moreover have present1: "present ?c = 1" "present ?c' = 1" using assms(3) by (simp_all add: present_def)
  then have "sum_list (map present ((ru_conns r)[i := ?c'])) = sum_list (map present (ru_conns r))"
    using sum_list_map_update [OF assms(2), of present ?c'] present1 by (simp del: if_split)
  ultimately show ?thesis
    using k set_update_inv [of "ru_conns r" "conn_inv rt" ?c' i] assms(4)
    by (simp add: r' running_inv_def)
qed

lemma leave_inv:
  assumes "i < length (ru_conns r)" and "cc_stage (ru_conns r ! i) \<noteq> Gone" and "running_inv rt r"
  shows "running_inv rt (leave i r)"
proof -
  let ?c = "ru_conns r ! i"
  let ?s = "(emit CloseConn (borrow r (cc_session ?c)))\<lparr>s_active := Some (ru_active r - 1)\<rparr>"
  let ?c' = "?c\<lparr>cc_session := ?s, cc_stage := Gone\<rparr>"
  have l: "leave i r = give_back ?s ((ru_conns r)[i := ?c']) r"
    by (simp add: leave_def Let_def emit_def)
  have "conn_inv rt ?c" using assms(1,3) by (simp add: running_inv_def)
  then have "conn_inv rt ?c'" by (simp add: conn_inv_def) (simp add: emit_def)
  moreover have "sum_list (map (counted \<circ> cc_messages) ((ru_conns r)[i := ?c'])) =
      sum_list (map (counted \<circ> cc_messages) (ru_conns r))"
    using sum_list_map_update [OF assms(1), of "counted \<circ> cc_messages" ?c'] by simp
  moreover have "sum_list (map present ((ru_conns r)[i := ?c'])) = sum_list (map present (ru_conns r)) - 1"
    using sum_list_map_update [OF assms(1), of present ?c'] assms(2) by (simp add: present_def)
  ultimately show ?thesis
    using set_update_inv [of "ru_conns r" "conn_inv rt" ?c' i] assms(3)
    unfolding l by (simp add: running_inv_def emit_def)
qed

lemma running_inv_step: "running_step rt r r' \<Longrightarrow> running_inv rt r \<Longrightarrow> running_inv rt r'"
proof (induction rule: running_step.induct)
  case (serves_http dr da page now rq r response a)
  then show ?case
    using handle_request_ok [OF serves_http(1)] by (simp add: running_inv_def with_admin_def admin_view_def)
qed (auto intro: connect_inv message_inv leave_inv)

definition engine_world_ok :: "go_rt \<Rightarrow> Running \<Rightarrow> bool" where
  "engine_world_ok rt r \<longleftrightarrow> (\<exists>e w. r = just_running e w \<and> engine_ok rt e \<and> world_ok w)"

interpretation running: invariant_of "engine_world_ok rt" "running_step rt" "running_inv rt" for rt
proof unfold_locales
  show "running_inv rt r" if "engine_world_ok rt r" for r
    using that by (auto simp: engine_world_ok_def running_inv_def just_running_def)
qed (rule running_inv_step)

lemma reachable_inv:
  assumes "running_from rt e w r" and "engine_ok rt e" and "world_ok w"
  shows "running_inv rt r"
proof (rule running.always)
  from assms(1) show "reach (engine_world_ok rt) (running_step rt) r"
  proof induction
    case (reach_start r)
    with assms(2,3) show ?case by (intro reach.reach_start) (auto simp: engine_world_ok_def)
  qed (rule reach.reach_step)
qed

lemma number_counted: "sum_list (map (counted \<circ> cc_messages) cs) =
    int (length (filter (\<lambda>m. fst m \<in> {MsgTypeQuery, MsgTypeExecute}) (concat (map cc_messages cs))))"
  by (induction cs) (simp_all add: counted_def)

lemma number_present: "sum_list (map present cs) = int (length (filter (\<lambda>c. cc_stage c \<noteq> Gone) cs))"
  by (induction cs) (simp_all add: present_def)

section \<open>Two clients\<close>

text \<open>Two clients connect; the first begins a transaction, the second sends a Sync.\<close>

definition two_connected :: "(unit, Running) outcome" where
  "two_connected =
     and_then (connect None [] (encode_startup []) (just_running (NewEngine Map.empty []) quiet_world))
       (connect None [] (encode_startup []))"

definition one_begun :: "(unit, Running) outcome" where
  "one_begun = and_then two_connected (message ascii_rt 0 MsgTypeQuery (cstr ''begin;''))"

definition two_clients :: "(unit, Running) outcome" where
  "two_clients = and_then one_begun (message ascii_rt 1 MsgTypeSync [])"

definition talking :: "(unit, Running) outcome \<Rightarrow> (byte \<times> bytes) list list \<Rightarrow> bool" where
  "talking x mss = (case x of
     Ret r \<Rightarrow> map (\<lambda>c. (cc_stage c, cc_messages c, closed (cc_session c))) (ru_conns r) = map (\<lambda>ms. (Talking, ms, False)) mss
   | _ \<Rightarrow> False)"

lemma talking_nth: "talking (Ret r) mss \<Longrightarrow> length (ru_conns r) = length mss \<and>
    (\<forall>i < length mss. cc_stage (ru_conns r ! i) = Talking \<and> cc_messages (ru_conns r ! i) = mss ! i \<and>
      \<not> closed (cc_session (ru_conns r ! i)))"
  by (auto simp: talking_def list_eq_iff_nth_eq)

lemma two_clients_talking:
  "talking two_connected [[], []]" "talking one_begun [[(MsgTypeQuery, cstr ''begin;'')], []]"
  "talking two_clients [[(MsgTypeQuery, cstr ''begin;'')], [(MsgTypeSync, [])]]"
  by code_simp+

lemma quiet_ok: "engine_ok rt (NewEngine Map.empty [])" "world_ok quiet_world"
  using session_ok_quiet [of rt] by (simp_all add: session_ok_def quiet_session_def NewConnHandler_def)

lemma two_clients_reachable:
  obtains r where "running_from ascii_rt (NewEngine Map.empty []) quiet_world r" and "two_clients = Ret r"
    and "talking (Ret r) [[(MsgTypeQuery, cstr ''begin;'')], [(MsgTypeSync, [])]]"
proof -
  let ?from = "running_from ascii_rt (NewEngine Map.empty []) quiet_world"
  have step: "?from r \<Longrightarrow> running_step ascii_rt r r' \<Longrightarrow> ?from r'" for r r' by (rule reach_step)
  have ret: "\<exists>r. x = Ret r" if "talking x mss" for x mss using that by (cases x) (simp_all add: talking_def)
  obtain r2 where 2: "two_connected = Ret r2" using ret two_clients_talking(1) by blast
  obtain r3 where 3: "one_begun = Ret r3" using ret two_clients_talking(2) by blast
  obtain r4 where 4: "two_clients = Ret r4" using ret two_clients_talking(3) by blast
  have "?from (just_running (NewEngine Map.empty []) quiet_world)" by (rule reach_start) (rule refl)
  moreover obtain r1 where "connect None [] (encode_startup []) (just_running (NewEngine Map.empty []) quiet_world) = Ret r1"
    "connect None [] (encode_startup []) r1 = Ret r2" using 2 unfolding two_connected_def and_then_Ret_iff by (elim exE conjE)
  ultimately have "?from r2" by (elim step [OF step, OF _ connects connects])
  moreover have "message ascii_rt 0 MsgTypeQuery (cstr ''begin;'') r2 = Ret r3" using 3 by (simp add: one_begun_def 2)
  then have "running_step ascii_rt r2 r3"
    using talking_nth [OF two_clients_talking(1) [unfolded 2]] by (intro hears [of 0]) simp_all
  moreover have "message ascii_rt 1 MsgTypeSync [] r3 = Ret r4" using 4 by (simp add: two_clients_def 3)
  then have "running_step ascii_rt r3 r4"
    using talking_nth [OF two_clients_talking(2) [unfolded 3]] by (intro hears [of 1]) simp_all
  ultimately have "?from r4" by (blast intro: step)
  from that [OF this 4] show thesis using two_clients_talking(3) 4 by simp
qed

section \<open>Connections do not disturb each other\<close>

text \<open>
  C6. Connections are isolated: whatever the other connections and the HTTP interface do in between, the
  transaction status, the prepared statements and the portals of a connection are a function of the messages
  it was sent itself, and what the program passes to \<open>Write\<close> for it is the answer to an SSLRequest, the greeting and one complete answer
  of an allowed kind for each of its own messages, in their order.
\<close>

theorem connections_isolated:
  assumes "running_from rt e w r" and "engine_ok rt e" and "world_ok w" and "c \<in> set (ru_conns r)"
  shows "own (cc_session c) = own_after rt (cc_messages c) \<and>
    answers_of (cc_messages c) (wire (s_out (cc_session c)))"
  using reachable_inv [OF assms(1-3)] assms(4) by (simp add: running_inv_def conn_inv_def)

lemma connections_isolated_witness:
  "\<exists>r. two_clients = Ret r \<and> length (ru_conns r) = 2 \<and>
     s_tx (cc_session (ru_conns r ! 0)) = TxStatusInBlock \<and> s_tx (cc_session (ru_conns r ! 1)) = TxStatusIdle"
proof -
  obtain r where r: "running_from ascii_rt (NewEngine Map.empty []) quiet_world r" "two_clients = Ret r"
    "talking (Ret r) [[(MsgTypeQuery, cstr ''begin;'')], [(MsgTypeSync, [])]]" by (rule two_clients_reachable)
  note t = talking_nth [OF r(3)]
  have "own (cc_session (ru_conns r ! i)) = own_after ascii_rt (cc_messages (ru_conns r ! i))" if "i < 2" for i
    using connections_isolated [OF r(1) quiet_ok] t that by simp
  then have "own (cc_session (ru_conns r ! 0)) = own_after ascii_rt [(MsgTypeQuery, cstr ''begin;'')]"
    "own (cc_session (ru_conns r ! 1)) = own_after ascii_rt [(MsgTypeSync, [])]" using t by simp_all
  moreover have "pv_tx (own_after ascii_rt [(MsgTypeQuery, cstr ''begin;'')]) = TxStatusInBlock"
    "pv_tx (own_after ascii_rt [(MsgTypeSync, [])]) = TxStatusIdle" by code_simp+
  ultimately show ?thesis using r(2) t by (intro exI [of _ r] conjI) (simp_all flip: own_tx)
qed

text \<open>
  C27. The metrics are exact: at any moment between two messages, the gauge of active connections is the number
  of those that were accepted and have not left, the counter of queries is the number of Query and
  Execute messages received by all of them so far, and the gauge of rules the number of registered rules.
\<close>

theorem metrics_exact:
  assumes "running_from rt e w r" and "engine_ok rt e" and "world_ok w"
  shows "rs_body (handleMetrics (admin_view r)) = Plain (
    metric ''pgwire_active_connections'' ''Current active PostgreSQL client connections'' ''gauge''
      (int (length (filter (\<lambda>c. cc_stage c \<noteq> Gone) (ru_conns r)))) @
    metric ''pgwire_total_queries'' ''Cumulative total queries processed'' ''counter''
      (int (length (filter (\<lambda>m. fst m \<in> {MsgTypeQuery, MsgTypeExecute}) (concat (map cc_messages (ru_conns r)))))) @
    metric ''pgwire_mock_rules_total'' ''Active mock rules registered'' ''gauge'' (int (length (e_rules (ru_engine r)))))"
proof -
  from reachable_inv [OF assms] have "ru_queries r = sum_list (map (counted \<circ> cc_messages) (ru_conns r))"
    "ru_active r = sum_list (map present (ru_conns r))" by (simp_all add: running_inv_def)
  then show ?thesis
    unfolding number_counted number_present
    by (simp add: handleMetrics_def admin_view_def ActiveConnections_def TotalQueries_def GetRules_def Let_def)
qed

lemma metrics_exact_witness:
  "\<exists>r. two_clients = Ret r \<and> rs_body (handleMetrics (admin_view r)) = Plain (
    metric ''pgwire_active_connections'' ''Current active PostgreSQL client connections'' ''gauge'' 2 @
    metric ''pgwire_total_queries'' ''Cumulative total queries processed'' ''counter'' 1 @
    metric ''pgwire_mock_rules_total'' ''Active mock rules registered'' ''gauge'' (int (length (e_rules (ru_engine r)))))"
proof -
  obtain r where r: "running_from ascii_rt (NewEngine Map.empty []) quiet_world r" "two_clients = Ret r"
    "talking (Ret r) [[(MsgTypeQuery, cstr ''begin;'')], [(MsgTypeSync, [])]]" by (rule two_clients_reachable)
  obtain c d where cs: "ru_conns r = [c, d]" "cc_stage c = Talking" "cc_stage d = Talking"
    "cc_messages c = [(MsgTypeQuery, cstr ''begin;'')]" "cc_messages d = [(MsgTypeSync, [])]"
    using r(3) by (auto simp: talking_def map_eq_Cons_conv)
  have "MsgTypeSync \<noteq> MsgTypeQuery" "MsgTypeSync \<noteq> MsgTypeExecute" by (simp_all add: frontend_tags)
  with metrics_exact [OF r(1) quiet_ok] r(2) show ?thesis by (intro exI [of _ r] conjI) (simp_all add: cs)
qed

section \<open>From the HTTP interface to a client\<close>

definition post_rule :: "bytes \<Rightarrow> Request" where
  "post_rule b = \<lparr>rq_method = ''POST'', rq_path = ''/api/rules'', rq_body = b\<rparr>"

lemma post_rule_request:
  "dr b = Inr rule \<Longrightarrow> handle_request rt dr da page now (post_rule b) s =
     (respondJSON 201 (rule_json (posted_rule now rule)), s\<lparr>ad_engine := PrependRule (posted_rule now rule) (ad_engine s)\<rparr>)"
  by (simp add: handle_request_def route_def post_rule_def handleAddRule_def Let_def)

text \<open>
  C8. A rule posted over HTTP is what any connected client gets next.  In every reachable state, take a rule that raises no
  error, drops no connection and has no template tags in its rows, and a connection in the loop that no earlier rule
  has dropped.  Once the request with the rule is answered, a Query message whose text (up to a NUL byte, trimmed) is not empty and is
  matched by the rule returns, and delivers to this client exactly the rule's columns, rows and tag, and the status of its own
  transaction.
\<close>

theorem posted_rule_reaches_clients:
  assumes "running_from rt e w r" and "engine_ok rt e" and "world_ok w"
    and "i < length (ru_conns r)" and "cc_stage (ru_conns r ! i) = Talking" and "\<not> closed (cc_session (ru_conns r ! i))"
    and "dr b = Inr rule" and "\<not> r_drop rule" and "r_error rule = None" and "list_all literal_row (r_rows rule)"
    and "rule_matches rt rule (query_text p) []" and "\<not> empty_text (query_text p)"
  shows "let posted = posted_rule now rule; c = ru_conns r ! i;
      (response, a) = handle_request rt dr da page now (post_rule b) (admin_view r)
    in rs_code response = 201 \<and>
      (\<exists>r'. message rt i MsgTypeQuery p (with_admin a r) = Ret r' \<and>
        delivered (s_out (cc_session (ru_conns r' ! i))) = delivered (s_out (cc_session c)) @
          frames (answer_packets posted [] (map (literal_cells posted) (r_rows rule)) @
            [(MsgTypeReadyForQuery, [track_tx rt (query_text p) (pv_tx (own_after rt (cc_messages c)))])]))"
proof -
  let ?p = "posted_rule now rule" and ?c = "ru_conns r ! i" and ?q = "query_text p"
  let ?r = "r\<lparr>ru_engine := PrependRule (posted_rule now rule) (ru_engine r)\<rparr>"
  let ?s = "borrow ?r (cc_session ?c)"
  let ?new = "frames (answer_packets ?p [] (map (literal_cells ?p) (r_rows rule)) @
      [(MsgTypeReadyForQuery, [track_tx rt ?q (pv_tx (own_after rt (cc_messages ?c)))])])"
  have inv: "engine_ok rt (ru_engine r)" "world_ok (ru_world r)" "conn_inv rt ?c"
    using reachable_inv [OF assms(1-3)] assms(4) by (simp_all add: running_inv_def)
  have ok: "session_ok rt ?s"
    using inv by (simp add: session_ok_def conn_inv_def engine_ok_def PrependRule_def)
  have tx: "s_tx ?s = pv_tx (own_after rt (cc_messages ?c))"
    using inv(3) by (simp add: conn_inv_def flip: own_tx)
  have p: "r_drop ?p = r_drop rule" "r_error ?p = r_error rule" "r_rows ?p = r_rows rule"
    by (simp_all add: posted_rule_def complete_types_def complete_tag_def)
  have f: "first_rule rt (e_rules (s_engine ?s)) ?q [] = Some 0"
    using assms(11) by (simp add: PrependRule_def posted_rule_matches)
  have z: "?p = e_rules (s_engine ?s) ! 0" by (simp add: PrependRule_def)
  from literal_payload_answer [OF ok f z, unfolded p, OF assms(8-10) refl assms(12)] obtain s' where
    1: "processMessage rt MsgTypeQuery p ?s = Ret (True, s')"
    "replied ?s s' (answer_packets ?p [] (map (literal_cells ?p) (r_rows rule)) @
      [(MsgTypeReadyForQuery, [track_tx rt ?q (s_tx ?s)])])" "closed s' = closed ?s" by (elim exE conjE)
  have "CloseConn \<notin> set (s_out (cc_session ?c))" "CloseConn \<notin> set (s_out s')"
    using assms(6) 1(3) by (simp_all add: closed_def)
  with 1(2) have "delivered (s_out s') = delivered (s_out (cc_session ?c)) @ ?new"
    unfolding tx by (auto simp: replied_def delivered_open)
  moreover have "\<exists>r'. message rt i MsgTypeQuery p ?r = Ret r' \<and> cc_session (ru_conns r' ! i) = s'"
    using assms(4) 1(1) by (simp add: message_def Let_def)
  ultimately have "\<exists>r'. message rt i MsgTypeQuery p ?r = Ret r' \<and>
        delivered (s_out (cc_session (ru_conns r' ! i))) = delivered (s_out (cc_session ?c)) @ ?new" by metis
  then show ?thesis
    unfolding post_rule_request [where dr = dr and b = b and da = da, OF assms(7)]
    by (simp add: Let_def respondJSON_def with_admin_def admin_view_def)
qed

lemma posted_rule_reaches_clients_witness:
  "\<exists>r r'. two_clients = Ret r \<and>
     message ascii_rt 1 MsgTypeQuery (cstr ''users'') (with_admin (snd (handle_request ascii_rt (\<lambda>b. Inr users_rule)
       (\<lambda>b. Inl []) None 7 (post_rule []) (admin_view r))) r) = Ret r' \<and>
     (\<exists>before. delivered (s_out (cc_session (ru_conns r' ! 1))) = before @
       frames (answer_packets (posted_rule 7 users_rule) [] [[Some ''1'', None], [None, Some ''bob'']] @
         [(MsgTypeReadyForQuery, [TxStatusIdle])]))"
proof -
  obtain r where r: "running_from ascii_rt (NewEngine Map.empty []) quiet_world r" "two_clients = Ret r"
    "talking (Ret r) [[(MsgTypeQuery, cstr ''begin;'')], [(MsgTypeSync, [])]]" by (rule two_clients_reachable)
  note t = talking_nth [OF r(3)]
  have i: "1 < length (ru_conns r)" "cc_stage (ru_conns r ! 1) = Talking" "cc_messages (ru_conns r ! 1) = [(MsgTypeSync, [])]"
    "\<not> closed (cc_session (ru_conns r ! 1))" using t by simp_all
  have "text_matches ascii_rt ''users'' ''users''" by code_simp
  then have m: "rule_matches ascii_rt users_rule ''users'' []"
    by (simp add: rule_matches_def users_rule_def empty_rule_def)
  have u: "\<not> r_drop users_rule" "r_error users_rule = None" by (simp_all add: users_rule_def empty_rule_def)
  have l: "list_all literal_row (r_rows users_rule)" "\<not> empty_text ''users''" "query_text (cstr ''users'') = ''users''"
    by code_simp+
  have cells: "map (literal_cells (posted_rule 7 users_rule)) (r_rows users_rule) = [[Some ''1'', None], [None, Some ''bob'']]"
    by code_simp
  have tx: "track_tx ascii_rt ''users'' (pv_tx (own_after ascii_rt [(MsgTypeSync, [])])) = TxStatusIdle" by code_simp
  from posted_rule_reaches_clients [where dr = "\<lambda>b. Inr users_rule" and b = "[]" and da = "\<lambda>b. Inl []" and page = None
      and now = 7 and p = "cstr ''users''", OF r(1) quiet_ok i(1,2,4) refl u l(1), unfolded l(3), OF m l(2),
      unfolded Let_def, unfolded i(3) cells tx]
  show ?thesis using r(2) by (auto simp: case_prod_unfold)
qed

end
