(* ===== verification/Conn_Compose.thy ===== *)
theory Conn_Compose
  imports Conn_Many
begin

text \<open>
  Two laws of the connections together: a connection that nobody interrupts is one call of \<open>Handle\<close>, on
  a prefix of its messages if a rule closes it on the way, and the messages that prepare, bind, close and synchronise commute with any message of another connection.
\<close>

section \<open>A connection that is not interrupted\<close>

text \<open>The loop of connection \<open>i\<close> on a list of messages, with no step of anyone else in between.\<close>

fun hear_all :: "go_rt \<Rightarrow> nat \<Rightarrow> (byte \<times> bytes) list \<Rightarrow> Running \<Rightarrow> (unit, Running) outcome" where
  "hear_all rt i [] r = Ret r"
| "hear_all rt i ((t, p) # ms) r =
     and_then (message rt i t p r) (\<lambda>r. if cc_stage (ru_conns r ! i) = Talking then hear_all rt i ms r else Ret r)"

definition visit ::
  "go_rt \<Rightarrow> (bytes \<Rightarrow> bytes option) option \<Rightarrow> (bytes \<times> bytes) list \<Rightarrow> bytes \<Rightarrow> (byte \<times> bytes) list \<Rightarrow> Running \<Rightarrow>
    (unit, Running) outcome" where
  "visit rt tls order input ms r =
     (let i = length (ru_conns r) in
      and_then (connect tls order input r) (\<lambda>r.
      and_then (hear_all rt i ms r) (\<lambda>r. Ret (leave i r))))"

text \<open>The session of a connection holds what the server holds.\<close>

definition in_step :: "nat \<Rightarrow> Running \<Rightarrow> bool" where
  "in_step i r \<longleftrightarrow> i < length (ru_conns r) \<and> borrow r (cc_session (ru_conns r ! i)) = cc_session (ru_conns r ! i)"

lemma borrow_given: "s_queries s = Some n \<Longrightarrow> s_active s = Some a \<Longrightarrow> borrow (give_back s cs r) s = s"
  by (simp add: borrow_def)

lemma message_in_step:
  assumes "in_step i r" and "session_ok rt (cc_session (ru_conns r ! i))"
  shows "case processMessage rt t p (cc_session (ru_conns r ! i)) of
      Ret (go, s) \<Rightarrow> \<exists>r'. message rt i t p r = Ret r' \<and> in_step i r' \<and> cc_session (ru_conns r' ! i) = s \<and>
        session_ok rt s \<and> (cc_stage (ru_conns r' ! i) = Talking \<longleftrightarrow> go)
    | _ \<Rightarrow> \<forall>r'. message rt i t p r \<noteq> Ret r'"
proof (cases "processMessage rt t p (cc_session (ru_conns r ! i))")
  case (Ret x)
  obtain go s where x: "x = (go, s)" by (cases x)
  let ?c = "ru_conns r ! i"
  have b: "borrow r (cc_session ?c) = cc_session ?c" and i: "i < length (ru_conns r)" using assms(1) by (simp_all add: in_step_def)
  from processMessage_contract [OF assms(2) Ret [unfolded x]] have ok: "session_ok rt s" "s_active s = s_active (cc_session ?c)"
    by simp_all
  have "s_active (cc_session ?c) = Some (ru_active r)" "s_queries (cc_session ?c) = Some (ru_queries r)"
    using borrow_simps(4,5) [of r "cc_session ?c"] b by simp_all
  with ok(2) processMessage_private [OF assms(2) Ret [unfolded x]] obtain n a where "s_queries s = Some n" "s_active s = Some a"
    by (cases "t = MsgTypeQuery \<or> t = MsgTypeExecute") auto
  from borrow_given [OF this] show ?thesis
    using Ret x b i ok(1) by (simp add: message_def Let_def in_step_def)
next
  case (Err e)
  then show ?thesis using assms(1) by (simp add: message_def Let_def in_step_def)
next
  case Panic
  then show ?thesis using assms(1) by (simp add: message_def Let_def in_step_def)
qed

lemma hear_all_run:
  assumes "in_step i r" and "session_ok rt (cc_session (ru_conns r ! i))"
  shows "case run_messages rt ms (cc_session (ru_conns r ! i)) of
      Ret s \<Rightarrow> \<exists>r'. hear_all rt i ms r = Ret r' \<and> in_step i r' \<and> cc_session (ru_conns r' ! i) = s
    | _ \<Rightarrow> \<forall>r'. hear_all rt i ms r \<noteq> Ret r'"
  using assms
proof (induction ms arbitrary: r)
  case (Cons m ms)
  obtain t p where m: "m = (t, p)" by (cases m)
  note step = message_in_step [OF Cons.prems, of t p]
  show ?case
  proof (cases "processMessage rt t p (cc_session (ru_conns r ! i))")
    case (Ret x)
    obtain go s where x: "x = (go, s)" by (cases x)
    from step obtain r' where r': "message rt i t p r = Ret r'" "in_step i r'" "cc_session (ru_conns r' ! i) = s"
      "session_ok rt s" "cc_stage (ru_conns r' ! i) = Talking \<longleftrightarrow> go" by (auto simp: Ret x)
    show ?thesis
    proof (cases go)
      case True
      then have h: "hear_all rt i (m # ms) r = hear_all rt i ms r'"
        and k: "run_messages rt (m # ms) (cc_session (ru_conns r ! i)) = run_messages rt ms s"
        using r' Ret x by (simp_all add: m)
      show ?thesis unfolding h k using Cons.IH [OF r'(2)] r'(3,4) by simp
    qed (use r' Ret x in \<open>simp add: m\<close>)
  next
    case (Err e)
    with step show ?thesis by (auto simp: m and_then_Ret_iff)
  next
    case Panic
    with step show ?thesis by (auto simp: m and_then_Ret_iff)
  qed
qed simp

lemma leave_in_step:
  assumes "in_step i r"
  defines "s \<equiv> cc_session (ru_conns r ! i)"
  defines "s' \<equiv> (emit CloseConn s)\<lparr>s_active := map_option (\<lambda>n. n - 1) (s_active s)\<rparr>"
  shows "cc_session (ru_conns (leave i r) ! i) = s' \<and> ru_engine (leave i r) = s_engine s' \<and> ru_world (leave i r) = s_world s'"
proof -
  have i: "i < length (ru_conns r)" and b: "borrow r s = s" using assms(1) by (simp_all add: in_step_def s_def)
  have "s_active (borrow r s) = Some (ru_active r)" by simp
  then show ?thesis using i unfolding leave_def Let_def s_def [symmetric] b by (simp add: s'_def emit_def)
qed

lemma connect_in_step:
  assumes "handleHandshake tls order input
      ((NewConnHandler (ru_engine r) (ru_world r) (Some (ru_active r)) (Some (ru_queries r)))\<lparr>s_active := Some (ru_active r + 1)\<rparr>) =
      (Ret rest, s1)" (is "handleHandshake _ _ _ ?s = _")
    and "engine_ok rt (ru_engine r)" and "world_ok (ru_world r)"
  shows "\<exists>r1. connect tls order input r = Ret r1 \<and> in_step (length (ru_conns r)) r1 \<and>
    cc_session (ru_conns r1 ! length (ru_conns r)) = s1 \<and> session_ok rt s1"
proof -
  let ?c = "\<lparr>cc_session = s1, cc_messages = [], cc_stage = Talking\<rparr>"
  have c: "connect tls order input r = Ret (give_back s1 (ru_conns r @ [?c]) r)"
    using assms(1) by (simp add: connect_def Let_def NewConnHandler_def)
  have ok: "session_ok rt ?s" using assms(2,3) by (simp add: session_ok_def NewConnHandler_def)
  have "s_queries s1 = Some (ru_queries r)" using handshake_private [of tls order input ?s] assms(1)
    by (simp add: NewConnHandler_def)
  moreover have "s_active s1 = Some (ru_active r + 1)" "session_ok rt s1"
    using handleHandshake_replied [OF assms(1), where rt = rt] ok by simp_all
  ultimately show ?thesis using c borrow_given [of s1] by (simp add: in_step_def nth_append)
qed

text \<open>A rule has closed the connection of a visit by the end of these messages.\<close>

definition visit_drops ::
  "go_rt \<Rightarrow> (bytes \<Rightarrow> bytes option) option \<Rightarrow> (bytes \<times> bytes) list \<Rightarrow> bytes \<Rightarrow> (byte \<times> bytes) list \<Rightarrow> Running \<Rightarrow> bool" where
  "visit_drops rt tls order input ms r =
     (case and_then (connect tls order input r) (hear_all rt (length (ru_conns r)) ms) of
        Ret r' \<Rightarrow> closed (cc_session (ru_conns r' ! length (ru_conns r)))
      | _ \<Rightarrow> False)"

text \<open>
  C7. The steps compose to the connection: in every reachable state, a client that connects, sends
  messages and leaves while nobody else does anything is served by \<open>Handle\<close>, on the bytes of
  these messages and with the engine, the environment and the counters as the server has them, exactly as by the steps of a visit with a
  prefix of its messages: the same session and the same shared state at the end, and a panic in the same cases.
  The prefix is all of the messages if no rule of the registry drops connections.  Otherwise a rule may have
  closed the connection after some of them, and of the messages after these \<open>Handle\<close> sees those
  that lie whole in the next \<open>ahead\<close> bytes, which the reader had buffered.
\<close>

theorem visit_is_Handle:
  assumes "running_from rt e w r" and "engine_ok rt e" and "world_ok w" and "list_all message_fits ms"
    and "\<And>s. fst (handleHandshake tls order input s) = Ret (frames ms)"
  shows "\<exists>k \<le> length ms.
    (k = length ms \<or> (\<exists>x \<in> set (e_rules (ru_engine r)). r_drop x) \<and>
      (\<exists>j \<le> k. visit_drops rt tls order input (take j ms) r \<and>
        length (frames (take (k - j) (drop j ms))) \<le> ahead \<and> ahead < length (frames (take (Suc (k - j)) (drop j ms))))) \<and>
    (case Handle rt tls order ahead input
        (NewConnHandler (ru_engine r) (ru_world r) (Some (ru_active r)) (Some (ru_queries r))) of
      Ret s \<Rightarrow> \<exists>r'. visit rt tls order input (take k ms) r = Ret r' \<and> cc_session (ru_conns r' ! length (ru_conns r)) = s \<and>
        ru_engine r' = s_engine s \<and> ru_world r' = s_world s
    | _ \<Rightarrow> \<forall>r'. visit rt tls order input (take k ms) r \<noteq> Ret r')"
proof -
  let ?i = "length (ru_conns r)"
  let ?n = "NewConnHandler (ru_engine r) (ru_world r) (Some (ru_active r)) (Some (ru_queries r))"
  let ?s = "?n\<lparr>s_active := Some (ru_active r + 1)\<rparr>"
  let ?leave = "\<lambda>s. (emit CloseConn s)\<lparr>s_active := map_option (\<lambda>n. n - 1) (s_active s)\<rparr>"
  obtain s1 where h: "handleHandshake tls order input ?s = (Ret (frames ms), s1)"
    using assms(5) [of ?s] by (cases "handleHandshake tls order input ?s") simp
  have inv: "engine_ok rt (ru_engine r)" "world_ok (ru_world r)"
    using reachable_inv [OF assms(1-3)] by (simp_all add: running_inv_def)
  from connect_in_step [OF h inv] obtain r1 where r1: "connect tls order input r = Ret r1" "in_step ?i r1"
    "cc_session (ru_conns r1 ! ?i) = s1" "session_ok rt s1" by blast
  have e: "s_engine s1 = ru_engine r" using handshake_private [of tls order input ?s] h by (simp add: NewConnHandler_def)
  note run = hear_all_run [OF r1(2), unfolded r1(3), OF r1(4)]
  obtain k where k: "k \<le> length ms" "serve rt ahead (frames ms) s1 = run_messages rt (take k ms) s1"
    "k = length ms \<or> (\<exists>x \<in> set (e_rules (ru_engine r)). r_drop x) \<and> (\<exists>j \<le> k. read_of rt ahead ms s1 j k)"
  proof (cases "\<exists>x \<in> set (e_rules (ru_engine r)). r_drop x")
    case False
    then have "serve rt ahead (frames ms) s1 = run_messages rt ms s1"
      using serve_run_messages [OF assms(4)] no_drops_stays_open [of rt s1 ms] r1(4) e by (auto simp: no_drops_def)
    with that [of "length ms"] show thesis by simp
  next
    case True
    with serve_prefix [OF assms(4), of rt ahead s1] that show thesis by blast
  qed
  have drops: "visit_drops rt tls order input (take j ms) r" if "read_of rt ahead ms s1 j n" for j n
    using that run [of "take j ms"] by (auto simp: read_of_def visit_drops_def r1(1))
  have H: "Handle rt tls order ahead input ?n = and_then (run_messages rt (take k ms) s1) (\<lambda>s. Ret (?leave s))"
    using h k(2) by (simp add: Handle_def Let_def NewConnHandler_def emit_def)
  have V: "visit rt tls order input (take k ms) r = and_then (hear_all rt ?i (take k ms) r1) (\<lambda>r. Ret (leave ?i r))"
    by (simp add: visit_def Let_def r1(1))
  have "case Handle rt tls order ahead input ?n of
      Ret s \<Rightarrow> \<exists>r'. visit rt tls order input (take k ms) r = Ret r' \<and> cc_session (ru_conns r' ! ?i) = s \<and>
        ru_engine r' = s_engine s \<and> ru_world r' = s_world s
    | _ \<Rightarrow> \<forall>r'. visit rt tls order input (take k ms) r \<noteq> Ret r'"
  proof (cases "run_messages rt (take k ms) s1")
    case (Ret s2)
    with run [of "take k ms"] obtain r2 where
      "hear_all rt ?i (take k ms) r1 = Ret r2" "in_step ?i r2" "cc_session (ru_conns r2 ! ?i) = s2" by auto
    with Ret H V leave_in_step [of ?i r2] show ?thesis by simp
  qed (use run [of "take k ms"] H V in \<open>auto simp: and_then_Ret_iff\<close>)
  moreover have "k = length ms \<or> (\<exists>x \<in> set (e_rules (ru_engine r)). r_drop x) \<and>
      (\<exists>j \<le> k. visit_drops rt tls order input (take j ms) r \<and>
        length (frames (take (k - j) (drop j ms))) \<le> ahead \<and> ahead < length (frames (take (Suc (k - j)) (drop j ms))))"
    using k(3) drops by (auto simp: read_of_def)
  ultimately show ?thesis using k(1) by blast
qed

lemma visit_is_Handle_witness:
  "\<exists>r'. visit ascii_rt None [] (encode_startup [] @ frames [(MsgTypeSync, []), (MsgTypeTerminate, [])])
     [(MsgTypeSync, []), (MsgTypeTerminate, [])] (just_running (NewEngine Map.empty []) quiet_world) = Ret r' \<and>
     CloseConn \<in> set (s_out (cc_session (ru_conns r' ! 0)))"
proof -
  let ?ms = "[(MsgTypeSync, []), (MsgTypeTerminate, [])]" and ?r = "just_running (NewEngine Map.empty []) quiet_world"
  let ?h = "Handle ascii_rt None [] 0 (encode_startup [] @ frames ?ms)
      (NewConnHandler (ru_engine ?r) (ru_world ?r) (Some (ru_active ?r)) (Some (ru_queries ?r)))"
  have start: "running_from ascii_rt (NewEngine Map.empty []) quiet_world ?r" by (rule reach_start) (rule refl)
  have "case read_startup (encode_startup [] @ frames ?ms) of Ret (False, r) \<Rightarrow> r = frames ?ms | _ \<Rightarrow> False" by code_simp
  then have "fst (handleHandshake None [] (encode_startup [] @ frames ?ms) s) = Ret (frames ?ms)" for s
    unfolding handleHandshake_fst by (auto split: outcome.splits prod.splits bool.splits)
  from visit_is_Handle [OF start quiet_ok _ this, of 0] obtain k where k: "k = length ?ms"
    "case ?h of Ret s \<Rightarrow> \<exists>r'. visit ascii_rt None [] (encode_startup [] @ frames ?ms) (take k ?ms) ?r = Ret r' \<and>
        cc_session (ru_conns r' ! 0) = s | _ \<Rightarrow> True"
    by (auto simp: message_fits_def just_running_def NewEngine_def split: outcome.splits)
  have "case ?h of Ret s \<Rightarrow> CloseConn \<in> set (s_out s) | _ \<Rightarrow> False" by code_simp
  then obtain s where "?h = Ret s" "CloseConn \<in> set (s_out s)" by (cases ?h) auto
  with k show ?thesis by auto
qed

section \<open>Messages that commute\<close>

text \<open>The messages whose handlers look at nothing but their own session.\<close>

definition own_messages :: "byte set" where
  "own_messages = {MsgTypeParse, MsgTypeBind, MsgTypeClose, MsgTypeSync, MsgTypeFlush, MsgTypeTerminate}"

text \<open>A state with the shared parts of every session brought up to date, which is all that later steps look at.\<close>

definition settle :: "Running \<Rightarrow> Running" where
  "settle r = r\<lparr>ru_conns := map (\<lambda>c. c\<lparr>cc_session := borrow r (cc_session c)\<rparr>) (ru_conns r)\<rparr>"

definition settled :: "(unit, Running) outcome \<Rightarrow> Running option" where
  "settled x = (case x of Ret r \<Rightarrow> Some (settle r) | _ \<Rightarrow> None)"

lemma borrow_updates:
  "borrow r (s\<lparr>s_stmts := st\<rparr>) = (borrow r s)\<lparr>s_stmts := st\<rparr>"
  "borrow r (s\<lparr>s_portals := po\<rparr>) = (borrow r s)\<lparr>s_portals := po\<rparr>"
  "borrow r (send c s) = send c (borrow r s)" "borrow r (send_error a m s) = send_error a m (borrow r s)"
  "borrow r (ready s) = ready (borrow r s)" "borrow r (borrow r' s) = borrow r s"
  "s_stmts (borrow r s) = s_stmts s" "s_portals (borrow r s) = s_portals s"
  by (simp_all add: borrow_def send_def send_error_def ready_def)

lemma own_message_borrow:
  assumes "t \<in> own_messages"
  shows "processMessage rt t p (borrow r s) =
    (case processMessage rt t p s of Ret (c, s') \<Rightarrow> Ret (c, borrow r s') | Err e \<Rightarrow> Err e | Panic \<Rightarrow> Panic)"
proof -
  have parse: "handleParse p (borrow r s) = and_then (handleParse p s) (\<lambda>s'. Ret (borrow r s'))"
    by (simp add: handleParse_def borrow_updates split: outcome.split)
  have bind: "handleBind rt p (borrow r s) = and_then (handleBind rt p s) (\<lambda>s'. Ret (borrow r s'))"
    by (simp add: handleBind_def borrow_updates Let_def split: outcome.split)
  have close: "handleClose p (borrow r s) = and_then (handleClose p s) (\<lambda>s'. Ret (borrow r s'))"
    by (simp add: handleClose_def borrow_updates split: outcome.split)
  have c: "continue (and_then x (\<lambda>s'. Ret (borrow r s'))) =
      (case continue x of Ret (c, s') \<Rightarrow> Ret (c, borrow r s') | Err e \<Rightarrow> Err e | Panic \<Rightarrow> Panic)" for x
    by (cases x) (simp_all add: continue_def)
  from assms show ?thesis
    by (auto simp: own_messages_def processMessage_eqs parse bind close c borrow_updates)
qed

definition heard :: "Client_Conn \<Rightarrow> byte \<Rightarrow> bytes \<Rightarrow> bool \<Rightarrow> Session \<Rightarrow> Client_Conn" where
  "heard c t p go s = \<lparr>cc_session = s, cc_messages = cc_messages c @ [(t, p)], cc_stage = (if go then Talking else Leaving)\<rparr>"

lemma message_heard:
  "message rt i t p r = and_then (processMessage rt t p (borrow r (cc_session (ru_conns r ! i)))) (\<lambda>(go, s).
     Ret (give_back s ((ru_conns r)[i := heard (ru_conns r ! i) t p go s]) r))"
  by (simp add: message_def heard_def Let_def)

lemma own_message_heard:
  assumes "t \<in> own_messages"
  shows "message rt i t p r = and_then (processMessage rt t p (cc_session (ru_conns r ! i))) (\<lambda>(go, s).
     Ret (r\<lparr>ru_conns := (ru_conns r)[i := heard (ru_conns r ! i) t p go (borrow r s)]\<rparr>))"
proof -
  have "give_back (borrow r s) cs r = r\<lparr>ru_conns := cs\<rparr>" for s cs
    by (cases r) (simp add: give_back_def borrow_def)
  then show ?thesis
    by (simp add: message_heard own_message_borrow [OF assms] split: outcome.split prod.split)
qed

lemma settle_heard:
  "settle (r\<lparr>ru_conns := cs[i := heard c t p go (borrow r' s)]\<rparr>) = settle (r\<lparr>ru_conns := cs[i := heard c t p go s]\<rparr>)"
  by (simp add: settle_def map_update heard_def borrow_updates borrow_def)

text \<open>
  C21. Messages of different connections commute unless both reach the engine: a Parse, Bind, Close, Sync, Flush or Terminate of one
  connection can be processed before or after any message of another one.  Both orders panic in the same cases,
  and lead to the same engine, environment, counters, sessions and bytes sent.
\<close>

theorem own_messages_commute:
  assumes "t \<in> own_messages" and "i \<noteq> j"
  shows "settled (and_then (message rt i t p r) (message rt j u q)) =
    settled (and_then (message rt j u q r) (message rt i t p))"
proof -
  let ?x = "processMessage rt t p (cc_session (ru_conns r ! i))"
    and ?y = "processMessage rt u q (borrow r (cc_session (ru_conns r ! j)))"
  note own = own_message_heard [OF assms(1)]
  have b: "borrow (r\<lparr>ru_conns := cs\<rparr>) s = borrow r s" for cs s by (simp add: borrow_def)
  have g: "give_back s cs (r\<lparr>ru_conns := cs'\<rparr>) = give_back s cs r" for s cs cs' by (simp add: give_back_def)
  have u: "(give_back s cs r)\<lparr>ru_conns := cs'\<rparr> = give_back s cs' r" for s cs cs' by (simp add: give_back_def)
  have f: "settle (give_back s (cs[i := heard c t p go (borrow r' s')]) r) = settle (give_back s (cs[i := heard c t p go s']) r)"
    for s cs c go r' s' using settle_heard [where r = "give_back s cs r"] by (simp add: u)
  show ?thesis
  proof (cases ?x)
    case (Ret a)
    obtain go s where a: "a = (go, s)" by (cases a)
    show ?thesis
    proof (cases ?y)
      case (Ret b')
      obtain go' s' where b': "b' = (go', s')" by (cases b')
      have "settled (and_then (message rt i t p r) (message rt j u q)) =
          Some (settle (give_back s' ((ru_conns r)[i := heard (ru_conns r ! i) t p go (borrow r s),
            j := heard (ru_conns r ! j) u q go' s']) r))"
        using \<open>?x = Ret a\<close> Ret assms(2) by (simp add: own a b' message_heard [of rt j] b g settled_def)
      moreover have "settled (and_then (message rt j u q r) (message rt i t p)) =
          Some (settle (give_back s' ((ru_conns r)[j := heard (ru_conns r ! j) u q go' s',
            i := heard (ru_conns r ! i) t p go (borrow (give_back s' ((ru_conns r)[j := heard (ru_conns r ! j) u q go' s']) r) s)]) r))"
        using \<open>?x = Ret a\<close> Ret assms(2) by (simp add: own a b' message_heard [of rt j] u settled_def)
      ultimately show ?thesis using f by (simp add: list_update_swap [OF assms(2)])
    qed (use Ret assms(2) in \<open>simp_all add: own a message_heard [of rt j] b settled_def\<close>)
  next
    case (Err e)
    then show ?thesis using assms(2) by (cases ?y) (auto simp: own message_heard [of rt j] settled_def)
  next
    case Panic
    then show ?thesis using assms(2) by (cases ?y) (auto simp: own message_heard [of rt j] settled_def)
  qed
qed

lemma own_messages_commute_witness:
  "\<exists>r. two_connected = Ret r \<and>
     settled (and_then (message ascii_rt 1 MsgTypeSync [] r) (message ascii_rt 0 MsgTypeQuery (cstr ''begin;''))) =
     settled (and_then (message ascii_rt 0 MsgTypeQuery (cstr ''begin;'') r) (message ascii_rt 1 MsgTypeSync []))"
proof -
  obtain r where "two_connected = Ret r"
    using two_clients_talking(1) unfolding talking_def by (auto split: outcome.splits)
  moreover have "MsgTypeSync \<in> own_messages" by (simp add: own_messages_def)
  ultimately show ?thesis using own_messages_commute [of MsgTypeSync 1 0] by (intro exI [of _ r] conjI) simp_all
qed

end
