(* ===== verification/Lifecycle.thy ===== *)
theory Lifecycle
  imports Shutdown "HOL-Library.Option_ord"
begin

text \<open>
  What never goes back in the server and in \<open>main\<close>: the phases of a connection, of Stop and of \<open>main\<close>, as linear
  orders on their datatypes.
\<close>

section \<open>The orders\<close>

instantiation phase :: linorder
begin

definition less_eq_phase :: "phase \<Rightarrow> phase \<Rightarrow> bool" where
  "less_eq_phase x y \<longleftrightarrow> phase_work y \<le> phase_work x"

definition less_phase :: "phase \<Rightarrow> phase \<Rightarrow> bool" where
  "less_phase x y \<longleftrightarrow> phase_work y < phase_work x"

instance
proof
  fix x y :: phase
  show "x \<le> y \<Longrightarrow> y \<le> x \<Longrightarrow> x = y" by (cases x; cases y) (simp_all add: less_eq_phase_def)
qed (auto simp: less_eq_phase_def less_phase_def)

end

instantiation stop_call :: linorder
begin

definition less_eq_stop_call :: "stop_call \<Rightarrow> stop_call \<Rightarrow> bool" where
  "less_eq_stop_call x y \<longleftrightarrow> stop_work y \<le> stop_work x"

definition less_stop_call :: "stop_call \<Rightarrow> stop_call \<Rightarrow> bool" where
  "less_stop_call x y \<longleftrightarrow> stop_work y < stop_work x"

instance
proof
  fix x y :: stop_call
  show "x \<le> y \<Longrightarrow> y \<le> x \<Longrightarrow> x = y" by (cases x; cases y) (simp_all add: less_eq_stop_call_def)
qed (auto simp: less_eq_stop_call_def less_stop_call_def)

end

section \<open>One step\<close>

inductive_cases server_stepE: "server_step a s t"
inductive_cases main_stepE: "main_step shutdown close_error a p q"

text \<open>The phase of a connection, or nothing before it is accepted.\<close>

definition phase_at :: "nat \<Rightarrow> Server \<Rightarrow> phase option" where
  "phase_at c s = (if c < length (sv_conns s) then Some (phase_of s c) else None)"

lemma phase_at_simps [simp]:
  "phase_at c (s\<lparr>sv_loop := l\<rparr>) = phase_at c s" "phase_at c (s\<lparr>sv_wg := n\<rparr>) = phase_at c s"
  "phase_at c (s\<lparr>sv_stop := st\<rparr>) = phase_at c s" "phase_at c (s\<lparr>sv_listening := b\<rparr>) = phase_at c s"
  "phase_at c (s\<lparr>sv_shutdown := b\<rparr>) = phase_at c s"
  by (simp_all add: phase_at_def phase_of_def)

lemma phase_at_update:
  "phase_work (cn_phase (f (sv_conns s ! d))) \<le> phase_work (phase_of s d) \<Longrightarrow> phase_at c s \<le> phase_at c (update_conn d f s)"
  by (cases "d < length (sv_conns s)") (auto simp: phase_at_def phase_of_def update_conn_def nth_list_update less_eq_phase_def)

lemma stop_rises: "server_step a s t \<Longrightarrow> sv_stop s \<le> sv_stop t"
  by (erule server_stepE) (simp_all add: less_eq_stop_call_def update_conn_def)

lemma phase_rises:
  assumes "server_step a s t" and "server_inv s"
  shows "phase_at c s \<le> phase_at c t"
proof -
  have unstarted: "phase_work (cn_phase (sv_conns s ! d)) = 4" if "sv_loop s = Registered d" for d
    using assms(2) that by (auto simp: server_inv_def conn_ok_def)
  from assms(1) show ?thesis
    by (rule server_stepE)
      (auto simp: unstarted phase_of_def intro!: phase_at_update, auto simp: phase_at_def phase_of_def nth_append)
qed

interpretation conn_life: monotone_of just_started any_step server_inv "phase_at c" for c
  by unfold_locales (auto simp: any_step_def intro: phase_rises)

interpretation stop_life: monotone_of just_started any_step server_inv sv_stop
  by unfold_locales (auto simp: any_step_def intro: stop_rises)

section \<open>Runs\<close>

text \<open>
  Nothing in the life of a connection or of the server is done twice: along every run the phase of each connection
  and that of Stop only go forward, so a connection keeps its number, is never handled again after its handler returned, and
  when its goroutine has ended it has for good; and nothing starts before what it follows, the goroutine of a connection
  before it is registered in the first place.
\<close>

theorem life_goes_on:
  assumes "reachable s" and "(any_step ^^ n) s t" and "c < length (sv_conns s)"
  shows "c < length (sv_conns t) \<and> phase_of s c \<le> phase_of t c \<and> sv_stop s \<le> sv_stop t \<and>
    (phase_of s c = Ended \<longrightarrow> phase_of t c = Ended)"
proof -
  have inv: "server_inv s" by (rule server.always [OF assms(1)])
  from conn_life.never_back [OF assms(2) inv, of c] assms(3)
  have "c < length (sv_conns t) \<and> phase_of s c \<le> phase_of t c"
    by (auto simp: phase_at_def split: if_splits)
  moreover have "sv_stop s \<le> sv_stop t" by (rule stop_life.never_back [OF assms(2) inv])
  moreover have "x = Ended" if "Ended \<le> x" for x using that by (cases x) (simp_all add: less_eq_phase_def)
  ultimately show ?thesis by auto
qed

text \<open>The same along the runs of the program: what \<open>main\<close> does to the server are steps of the server.\<close>

lemma main_projects:
  "(any_main_step shutdown close_error ^^ n) p q \<Longrightarrow> \<exists>k \<le> n. (any_step ^^ k) (pm_server p) (pm_server q)"
proof (induction n arbitrary: q)
  case (Suc n)
  then obtain u where u: "(any_main_step shutdown close_error ^^ n) p u" "any_main_step shutdown close_error u q" by auto
  from u(2) obtain a where a: "main_step shutdown close_error a u q" unfolding any_main_step_def ..
  from Suc.IH [OF u(1)] obtain k where k: "k \<le> n" "(any_step ^^ k) (pm_server p) (pm_server u)" by blast
  from a have "pm_server q = pm_server u \<or> any_step (pm_server u) (pm_server q)"
    by (rule main_stepE) (auto simp: any_step_def)
  then show ?case
  proof
    assume "any_step (pm_server u) (pm_server q)"
    with k(2) have "(any_step ^^ Suc k) (pm_server p) (pm_server q)" by auto
    with k(1) show ?thesis by (intro exI [of _ "Suc k"]) simp
  qed (use k in \<open>auto intro: exI [of _ k]\<close>)
qed auto

theorem program_life_goes_on:
  assumes "reach (main_started rt os args) (any_main_step shutdown close_error) p"
    and "(any_main_step shutdown close_error ^^ n) p q" and "c < length (sv_conns (pm_server p))"
  shows "c < length (sv_conns (pm_server q)) \<and> phase_of (pm_server p) c \<le> phase_of (pm_server q) c \<and>
    sv_stop (pm_server p) \<le> sv_stop (pm_server q)"
proof -
  have "reachable (pm_server p)" using main.always [OF assms(1)] by (simp add: main_inv_def)
  with main_projects [OF assms(2)] life_goes_on assms(3) show ?thesis by blast
qed

end
