(* ===== verification/Spec2Isabelle.thy ===== *)
theory Spec2Isabelle
  imports Prelude Transitions Go_Strings Go_Regex Wire_Types Wire_Reader Wire_Writer Wire_Binary Rules Matcher
    Store Store_Laws Catalog Engine Template Conn Conn_Laws Conn_Run Conn_Protocol Events Admin
    Engine_Race Hits_Race Row_Heap Server Proxy Tls Buffer_Pool Tape Startup Shutdown Client Conn_Many
    Conn_Compose Lifecycle
begin

text \<open>
  pgwire-mock: a server that speaks the PostgreSQL wire protocol (version 3) and answers queries from
  rules, from fixed catalog answers, and from tables in memory.  A client connects to the server
  (\<open>internal/server\<close>); its bytes are cut into messages (\<open>internal/protocol\<close>); a query goes to the engine
  (\<open>internal/mock\<close>), which asks its rules, the built-in answers, the tables and the catalog in this order
  and logs the query; the rule that comes back is written out as packets, with its templates
  rendered and its faults injected.  An HTTP interface (\<open>internal/admin\<close>) changes the rules, checks
  assertions against the log, and streams the log as events.  Tapes (\<open>internal/proxy\<close>) are
  another source of rules.  \<open>cmd/pgwire-mock\<close> puts the parts together, and \<open>examples/client_go.go\<close> is a
  client.  All file names below are under \<open>src/\<close>.
\<close>

section \<open>The theories and the code\<close>

text \<open>
  Vocabulary.  \<open>Prelude\<close>: bytes, the outcome of a Go call (a value, an error, a panic) and its
  sequencing, big-endian integers.  \<open>Transitions\<close>: reachable states, invariants and measures of the parts that
  run concurrently.  \<open>Go_Strings\<close>, \<open>Go_Regex\<close>: what the program uses of Go's string packages and
  of \<open>regexp\<close> for its own patterns; tables and grammars of the standard library are the fields of the
  parameter \<open>go_rt\<close>.

  Protocol, \<open>internal/protocol\<close>.  \<open>Wire_Types\<close>: \<open>types.go\<close>, \<open>messages.go\<close>, with the integers at their width.
  \<open>Wire_Reader\<close>: \<open>reader.go\<close>; each reader returns what it read and the rest, and panics where \<open>make\<close> does.
  \<open>Wire_Writer\<close>: \<open>writer.go\<close>; a writer is the list of chunks given to \<open>Write\<close>.  \<open>Wire_Binary\<close>: \<open>binary.go\<close>.

  Engine, \<open>internal/mock\<close>.  \<open>Rules\<close>: \<open>rules.go\<close>.  \<open>Matcher\<close>: \<open>matcher.go\<close> with its cache of compiled patterns.
  \<open>Store\<close>: the tables and statements of \<open>state_store.go\<close>; \<open>Row_Heap\<close>: the same rows as shared slices.
  \<open>Catalog\<close>: \<open>catalog.go\<close>.  \<open>Template\<close>: \<open>template.go\<close>, with clock and random sources as streams.
  \<open>Engine\<close>: \<open>engine.go\<close>, each operation under its lock as one step; \<open>Engine_Race\<close>: the registry as slices on a heap,
  with a search that runs among registry changes; \<open>Hits_Race\<close>: the counter of a rule under concurrent calls.

  Server, \<open>internal/server\<close>.  \<open>Conn\<close>: \<open>conn_handler.go\<close>, from the handshake to the query loop; a session has the
  fields of \<open>ConnHandler\<close> and the list of what it did to the connection.  \<open>Server\<close>: \<open>server.go\<close> as
  interleaved steps of the accept loop, the goroutines and Stop.  \<open>Conn_Many\<close>: all connections and the HTTP interface on one
  engine, one environment and the two counters; a step is one message, one request, one arrival or one departure.  \<open>Tls\<close>: \<open>tls.go\<close>.  \<open>Buffer_Pool\<close>: \<open>buffer.go\<close>.

  Admin, \<open>internal/admin\<close>.  \<open>Admin\<close>: the handlers of \<open>api.go\<close>.  \<open>Events\<close>: the broker of \<open>events.go\<close> on a heap of
  channels.

  Around them.  \<open>Tape\<close>, \<open>Proxy\<close>: \<open>internal/proxy/recorder.go\<close>.  \<open>Startup\<close>: \<open>internal/config/config.go\<close> and
  \<open>cmd/pgwire-mock/main.go\<close> up to the signal, \<open>Shutdown\<close>: the rest of it, among the steps of the server.  \<open>Client\<close>: \<open>examples/client_go.go\<close>, and the client run against the server.
\<close>

section \<open>What is shown\<close>

text \<open>
  Bytes.  Reading Parse, Bind, startup and the other messages is the inverse of encoding them, and the
  inputs on which a reader panics are characterised exactly (\<open>ReadBind_panics_iff\<close>, \<open>other_readers_never_panic\<close>).  Written rows and row
  descriptions can be read back.  Each reader of a field and each writer of a packet is an interpretation of a
  locale (\<open>exact_item\<close>, \<open>backend_message\<close>) whose lemmas the round trips rest on.

  Tables.  Every statement keeps the tables well-formed and touches only its own table, so statements on different tables
  commute; a handler of a statement is an interpretation of the locale \<open>table_statement\<close>.  The effects of the statements are stated
  on rows, and \<open>row_heap_refines\<close> carries them to shared slices.

  Matching.  \<open>Matches_spec\<close> and \<open>Match_answers\<close> state which rule answers and what is logged;
  \<open>run_queries_counts\<close> is the same over any sequence of queries.  Under concurrency a search is safe, equals the sequential search
  unless rules are deleted, and can miss a rule if they are.

  Connections.  Each handler is an interpretation of \<open>message_handler\<close>: whole packets, in an order that its
  message allows.  \<open>processMessage_replies\<close>, \<open>serve_messages\<close> and \<open>Handle_stream\<close> lift this to messages, the
  loop and the stream of a whole connection.  \<open>Conn_Protocol\<close> relates the extended to the simple protocol, and states transaction
  status, faults, dropped connections, and what makes the process panic.

  Composition.  \<open>Conn_Many\<close>: the private state of a connection is a function of its own messages (\<open>connections_isolated\<close>), the metrics are
  exact (\<open>metrics_exact\<close>), and a posted rule is what every connection is answered with next (\<open>posted_rule_reaches_clients\<close>).
  \<open>Conn_Compose\<close>: the steps of an uninterrupted connection are one call of \<open>Handle\<close>, but for messages that were not
  buffered when a rule closed the connection, and messages that do not reach the engine
  commute with those of other connections.

  Concurrency.  The steps of the server, of all connections, of \<open>main\<close>, the proxy, the event broker and the calls of a rule are
  interpretations of \<open>invariant_of\<close>, Stop and the end of \<open>main\<close> of \<open>measured\<close>.

  The program.  A started program is in a state to which all of this applies (\<open>main_starts\<close>); after a signal it stops its
  parts in order, and Stop and \<open>main\<close> return within a computed number of steps, but for one race (\<open>program_stops\<close>,
  \<open>Stop_waits_for_client\<close>); along every run the phases of connections and of Stop, ordered in \<open>Lifecycle\<close>, only go
  forward, and a run of \<open>main\<close> contains a run of the server; and the example client, on what the server
  writes, comes through to its end (\<open>client_and_server\<close>).
\<close>

section \<open>Bounds\<close>

text \<open>
  No definition uses fuel.  The loops that are not structural (the query loop, the readers of streams, the matcher of
  patterns, trimming) are functions with a measure: each turn consumes input.  Go's \<open>int\<close> and \<open>int64\<close> are unbounded where a count
  would have to pass two to the 63 to wrap (counters, lengths of memory), and written with their wrap-around
  where a program value can reach it (sequence numbers, random spans, dates, every field of the protocol).
  Runs of concurrent parts are finite sequences of atomic steps, of any length; the bound of a
  run of Stop is the function \<open>remaining\<close>, and one more for the return of \<open>main\<close>.
\<close>

section \<open>Not modelled\<close>

text \<open>
  The standard library behind parameters: regular expressions of users, JSON and YAML texts, floating point and calendar
  texts, the TLS handshake and the crypto packages, files, sockets, the HTTP server and how it applies its timeouts.  Log
  lines of \<open>--verbose\<close>.  Two calls of Stop in a row, which no code makes.  The dashboard and the SDKs, which are not Go.  Writes to a connection that
  fail although the program has not closed it: in the handshake the code ends the connection at the first such error, in
  the loop it ignores them, and either way the client sees a prefix.  In \<open>Engine\<close>
  and \<open>Store\<close> an operation is atomic; the interleavings that the locks leave open are the subject of
  \<open>Engine_Race\<close>, \<open>Hits_Race\<close> and \<open>Row_Heap\<close>, one at a time; in \<open>Conn_Many\<close> a message is.  Data races on single words are not.
\<close>

end
